(* ===== verification/Prelude.thy ===== *)
theory Prelude
  imports "HOL-Library.Word" "HOL-Library.Monad_Syntax"
begin

unbundle bit_operations_syntax

text \<open>
  Shared ground of the development: the machine types of the Go program, the run-time panic,
  big-endian integers as \<^verbatim>\<open>encoding/binary\<close> writes and reads them, byte slices with their
  length and capacity, and the positional writes that \<^verbatim>\<open>Entry.Encode\<close> performs on a buffer.

  A Go string is an immutable sequence of bytes, so it is a list of 8-bit words. A Go function
  that can panic at run time (an index or a slice bound out of range) returns an \<open>option\<close>;
  \<open>None\<close> is the panic. Errors returned as values are a separate type and never \<open>None\<close>.
  Slice indices and lengths of type \<^verbatim>\<open>int\<close> never come near the bounds of a 64-bit integer
  and are natural numbers; a \<^verbatim>\<open>uint16\<close> position, where the wrap-around matters, is a
  \<open>16 word\<close>.
\<close>

type_synonym byte = "8 word"
type_synonym u16 = "16 word"
type_synonym u32 = "32 word"
type_synonym u64 = "64 word"
type_synonym gostring = "byte list"

named_theorems buf_simps \<open>evaluation of buffer reads and writes that stay in range\<close>
named_theorems pos_simps \<open>16-bit positions read as natural numbers\<close>

definition lit :: "string \<Rightarrow> gostring" where
  \<comment> \<open>an ASCII string literal of the source as the bytes it denotes\<close>
  "lit s = map of_char s"

lemma length_lit [simp]: "length (lit s) = length s"
  by (simp add: lit_def)

text \<open>The errors of package \<^verbatim>\<open>io\<close>, and those a connection reports.\<close>

datatype io_error =
    EOF
  | ErrUnexpectedEOF
  | ErrClosedPipe
  | ErrShortWrite
  | NetTimeout          \<comment> \<open>a \<^verbatim>\<open>net.Error\<close> whose \<^verbatim>\<open>Timeout()\<close> is true\<close>
  | ErrOther gostring   \<comment> \<open>any other error\<close>

subsection \<open>Arrays and slices\<close>

definition nth_opt :: "'a list \<Rightarrow> nat \<Rightarrow> 'a option" where
  \<comment> \<open>\<^verbatim>\<open>xs[i]\<close> on an array: panics out of range\<close>
  "nth_opt xs i = (if i < length xs then Some (xs ! i) else None)"

lemma nth_opt_in [simp, buf_simps]: "i < length xs \<Longrightarrow> nth_opt xs i = Some (xs ! i)"
  by (simp add: nth_opt_def)

lemma nth_opt_out: "length xs \<le> i \<Longrightarrow> nth_opt xs i = None"
  by (simp add: nth_opt_def)

lemma nth_opt_Some_iff: "nth_opt xs i = Some x \<longleftrightarrow> i < length xs \<and> x = xs ! i"
  by (auto simp: nth_opt_def)

record go_slice =
  sl_array :: "byte list" \<comment> \<open>the bytes from the slice's first element up to its capacity\<close>
  sl_len :: nat           \<comment> \<open>its length\<close>

definition slice_ok :: "go_slice \<Rightarrow> bool" where
  "slice_ok b \<longleftrightarrow> sl_len b \<le> length (sl_array b)"

definition sl_bytes :: "go_slice \<Rightarrow> byte list" where
  "sl_bytes b = take (sl_len b) (sl_array b)"

definition of_bytes :: "byte list \<Rightarrow> go_slice" where
  \<comment> \<open>a slice whose capacity is its length\<close>
  "of_bytes bs = \<lparr>sl_array = bs, sl_len = length bs\<rparr>"

definition idx :: "go_slice \<Rightarrow> nat \<Rightarrow> byte option" where
  \<comment> \<open>\<^verbatim>\<open>b[i]\<close>: panics unless \<open>i < len(b)\<close>\<close>
  "idx b i = (if i < sl_len b then Some (sl_array b ! i) else None)"

definition sub_slice :: "go_slice \<Rightarrow> nat \<Rightarrow> nat \<Rightarrow> byte list option" where
  \<comment> \<open>the bytes of \<^verbatim>\<open>b[lo:hi]\<close>: panics unless \<open>lo \<le> hi \<le> cap(b)\<close>\<close>
  "sub_slice b lo hi =
     (if lo \<le> hi \<and> hi \<le> length (sl_array b) then Some (take (hi - lo) (drop lo (sl_array b))) else None)"

definition slice_from :: "go_slice \<Rightarrow> nat \<Rightarrow> byte list option" where
  \<comment> \<open>the bytes of \<^verbatim>\<open>b[lo:]\<close>: panics unless \<open>lo \<le> len(b)\<close>\<close>
  "slice_from b lo = (if lo \<le> sl_len b then Some (take (sl_len b - lo) (drop lo (sl_array b))) else None)"

lemma of_bytes_ok [simp]: "slice_ok (of_bytes bs)"
  by (simp add: slice_ok_def of_bytes_def)

lemma sl_len_of_bytes [simp]: "sl_len (of_bytes bs) = length bs"
  by (simp add: of_bytes_def)

lemma sl_bytes_of_bytes [simp]: "sl_bytes (of_bytes bs) = bs"
  by (simp add: sl_bytes_def of_bytes_def)

lemma length_sl_bytes: "slice_ok b \<Longrightarrow> length (sl_bytes b) = sl_len b"
  by (simp add: slice_ok_def sl_bytes_def)

lemma idx_sl_bytes:
  "slice_ok b \<Longrightarrow> idx b i = (if i < length (sl_bytes b) then Some (sl_bytes b ! i) else None)"
  by (auto simp: idx_def length_sl_bytes) (simp add: sl_bytes_def)

lemma sub_slice_sl_bytes:
  assumes "slice_ok b" "lo \<le> hi" "hi \<le> length (sl_bytes b)"
  shows "sub_slice b lo hi = Some (take (hi - lo) (drop lo (sl_bytes b)))"
proof -
  have hi: "hi \<le> sl_len b" "sl_len b \<le> length (sl_array b)"
    using assms by (simp_all add: length_sl_bytes slice_ok_def)
  then have "take (hi - lo) (drop lo (sl_bytes b)) = take (hi - lo) (drop lo (sl_array b))"
    by (simp add: sl_bytes_def drop_take min_absorb1 diff_le_mono)
  with hi assms(2) show ?thesis by (simp add: sub_slice_def)
qed

lemma slice_from_sl_bytes:
  "slice_ok b \<Longrightarrow> lo \<le> length (sl_bytes b) \<Longrightarrow> slice_from b lo = Some (drop lo (sl_bytes b))"
  by (simp add: slice_from_def length_sl_bytes) (simp add: sl_bytes_def drop_take)

subsection \<open>Big-endian integers\<close>

definition be16 :: "u16 \<Rightarrow> byte list" where
  "be16 v = [ucast (drop_bit 8 v), ucast v]"

definition be32 :: "u32 \<Rightarrow> byte list" where
  "be32 v = [ucast (drop_bit 24 v), ucast (drop_bit 16 v), ucast (drop_bit 8 v), ucast v]"

definition Uint16 :: "byte list \<Rightarrow> u16 option" where
  \<comment> \<open>\<^verbatim>\<open>binary.BigEndian.Uint16\<close>: panics on fewer than two bytes\<close>
  "Uint16 b = (case b of x # y # _ \<Rightarrow> Some (ucast y OR push_bit 8 (ucast x)) | _ \<Rightarrow> None)"

definition Uint32 :: "byte list \<Rightarrow> u32 option" where
  \<comment> \<open>\<^verbatim>\<open>binary.BigEndian.Uint32\<close>: panics on fewer than four bytes\<close>
  "Uint32 b = (case b of x # y # z # w # _ \<Rightarrow>
       Some (ucast w OR push_bit 8 (ucast z) OR push_bit 16 (ucast y) OR push_bit 24 (ucast x))
     | _ \<Rightarrow> None)"

lemma length_be16 [simp]: "length (be16 v) = 2"
  by (simp add: be16_def)

lemma length_be32 [simp]: "length (be32 v) = 4"
  by (simp add: be32_def)

lemma Uint16_be16 [simp]: "Uint16 (be16 v @ rest) = Some v"
proof -
  have "ucast (ucast v :: byte) OR push_bit 8 (ucast (ucast (drop_bit 8 v) :: byte)) = v"
    by (rule bit_eqI) (auto simp: bit_simps not_less)
  then show ?thesis by (simp add: Uint16_def be16_def)
qed

lemma Uint32_be32 [simp]: "Uint32 (be32 v @ rest) = Some v"
proof -
  have "ucast (ucast v :: byte) OR push_bit 8 (ucast (ucast (drop_bit 8 v) :: byte))
      OR push_bit 16 (ucast (ucast (drop_bit 16 v) :: byte))
      OR push_bit 24 (ucast (ucast (drop_bit 24 v) :: byte)) = v" (is "?w = v")
  proof (rule bit_eqI)
    fix n assume "possible_bit TYPE(u32) n"
    then have "n < 32" by (simp add: possible_bit_word)
    then consider "n < 8" | "8 \<le> n" "n < 16" | "16 \<le> n" "n < 24" | "24 \<le> n" "n < 32"
      by linarith
    then show "bit ?w n = bit v n"
      by cases (auto simp: bit_simps not_less)
  qed
  then show ?thesis by (simp add: Uint32_def be32_def or.assoc)
qed

lemma Uint16_None_iff: "Uint16 b = None \<longleftrightarrow> length b < 2"
  by (cases b; cases "tl b") (auto simp: Uint16_def)

lemma be16_inj: "be16 v = be16 w \<longleftrightarrow> v = w"
  by (metis Uint16_be16 option.inject)

lemma be32_inj: "be32 v = be32 w \<longleftrightarrow> v = w"
  by (metis Uint32_be32 option.inject)

subsection \<open>Positional writes\<close>

type_synonym writer = "byte list \<times> nat" \<comment> \<open>the buffer and the position \<^verbatim>\<open>s\<close>\<close>

definition put :: "byte list \<Rightarrow> nat \<Rightarrow> byte \<Rightarrow> byte list option" where
  \<comment> \<open>\<^verbatim>\<open>b[i] = v\<close>\<close>
  "put b i v = (if i < length b then Some (b[i := v]) else None)"

definition wr_byte :: "byte \<Rightarrow> writer \<Rightarrow> writer option" where
  \<comment> \<open>\<^verbatim>\<open>b[s] = v; s++\<close>\<close>
  "wr_byte v w = (case w of (b, s) \<Rightarrow> map_option (\<lambda>b'. (b', s + 1)) (put b s v))"

definition wr_copy :: "gostring \<Rightarrow> writer \<Rightarrow> writer option" where
  \<comment> \<open>\<^verbatim>\<open>s += copy(b[s:], str)\<close>: copies no more than there is room for\<close>
  "wr_copy str w = (case w of (b, s) \<Rightarrow>
     if s \<le> length b then
       let n = min (length b - s) (length str)
       in Some (take s b @ take n str @ drop (s + n) b, s + n)
     else None)"

definition wr_fixed :: "byte list \<Rightarrow> writer \<Rightarrow> writer option" where
  \<comment> \<open>\<^verbatim>\<open>binary.BigEndian.PutUintN(b[s:], v); s += N/8\<close>: panics without room for all bytes\<close>
  "wr_fixed bs w = (case w of (b, s) \<Rightarrow>
     if s + length bs \<le> length b then Some (take s b @ bs @ drop (s + length bs) b, s + length bs)
     else None)"

text \<open>The state of a writer that has written \<open>acc\<close> over the first bytes of \<open>b0\<close>.\<close>

definition wrote :: "byte list \<Rightarrow> byte list \<Rightarrow> writer" where
  "wrote b0 acc = (acc @ drop (length acc) b0, length acc)"

lemma snd_wrote [simp]: "snd (wrote b0 acc) = length acc"
  by (simp add: wrote_def)

lemma put_wrote [buf_simps]:
  "pos < length acc \<Longrightarrow> put (fst (wrote b0 acc)) pos v = Some (fst (wrote b0 (acc[pos := v])))"
  by (simp add: put_def wrote_def list_update_append)

lemma wrote_eqI [simp]: "n = length acc \<Longrightarrow> (fst (wrote b0 acc), n) = wrote b0 acc"
  by (simp add: wrote_def)

lemma wr_byte_wrote [buf_simps]:
  "length acc < length b0 \<Longrightarrow> wr_byte v (wrote b0 acc) = Some (wrote b0 (acc @ [v]))"
  by (auto simp: wr_byte_def wrote_def put_def list_update_append Cons_nth_drop_Suc [symmetric])

lemma wr_copy_wrote [buf_simps]:
  "length acc + length str \<le> length b0 \<Longrightarrow> wr_copy str (wrote b0 acc) = Some (wrote b0 (acc @ str))"
  by (auto simp: wr_copy_def wrote_def Let_def add.commute)

lemma wr_fixed_wrote [buf_simps]:
  "length acc + length bs \<le> length b0 \<Longrightarrow> wr_fixed bs (wrote b0 acc) = Some (wrote b0 (acc @ bs))"
  by (auto simp: wr_fixed_def wrote_def add.commute)

lemma wrote_start: "n \<le> length b0 \<Longrightarrow> wrote b0 (take n b0) = (b0, n)"
  by (simp add: wrote_def)

subsection \<open>16-bit positions\<close>

text \<open>
  A \<^verbatim>\<open>uint16\<close> position that has not wrapped is \<open>word_of_nat n\<close> with \<open>n < 65536\<close>; sums and
  comparisons then are those of the natural numbers.
\<close>

lemma unat_pos [pos_simps]: "n < 65536 \<Longrightarrow> unat (word_of_nat n :: u16) = n"
  by (simp add: unsigned_of_nat take_bit_nat_eq_self)

lemma pos_add [pos_simps]:
  "(word_of_nat m :: u16) + word_of_nat n = word_of_nat (m + n)"
  by simp

lemma pos_less [pos_simps]:
  "m < 65536 \<Longrightarrow> n < 65536 \<Longrightarrow> (word_of_nat m :: u16) < word_of_nat n \<longleftrightarrow> m < n"
  by (simp add: word_less_nat_alt unat_pos)

lemma pos_le [pos_simps]:
  "m < 65536 \<Longrightarrow> n < 65536 \<Longrightarrow> (word_of_nat m :: u16) \<le> word_of_nat n \<longleftrightarrow> m \<le> n"
  by (simp add: word_le_nat_alt unat_pos)

lemma pos_eq [pos_simps]:
  "m < 65536 \<Longrightarrow> n < 65536 \<Longrightarrow> (word_of_nat m :: u16) = word_of_nat n \<longleftrightarrow> m = n"
  by (metis unat_pos)

lemma unat_byte_length: "n < 256 \<Longrightarrow> unat (word_of_nat n :: byte) = n"
  by (simp add: unsigned_of_nat take_bit_nat_eq_self)

lemma pos_of_byte: "n < 256 \<Longrightarrow> (ucast (word_of_nat n :: byte) :: u16) = word_of_nat n"
  by (rule word_unat_eq_iff [THEN iffD2])
    (simp add: unsigned_ucast_eq unsigned_of_nat take_bit_nat_eq_self)

subsection \<open>Lists\<close>

lemma upt_split: "i \<le> j \<Longrightarrow> j \<le> k \<Longrightarrow> [i..<k] = [i..<j] @ [j..<k]"
  by (metis le_add_diff_inverse upt_add_eq_append)

lemma upt_0_11: "[0..<11] = [0, 1, 2, 3, 4, 5, 6, 7, 8, 9, 10 :: nat]"
  by (simp add: upt_rec)

lemma drop_eq_append: "drop n bs = xs @ ys \<Longrightarrow> drop (n + length xs) bs = ys"
  by (metis append_eq_conv_conj drop_drop add.commute)

lemma nth_of_drop: "drop n bs = x # xs \<Longrightarrow> bs ! n = x \<and> n < length bs \<and> drop (Suc n) bs = xs"
  by (metis drop_Suc drop_eq_Nil hd_drop_conv_nth leI list.sel(1,3) list.simps(3) tl_drop)

end
