(* ===== verification/Entry_Data.thy ===== *)
theory Entry_Data
  imports Prelude
begin

text \<open>
  The data of a log entry: \<^verbatim>\<open>entry.go\<close> lines 57-168 (limits, levels, the struct and
  \<^verbatim>\<open>Reset\<close>), \<^verbatim>\<open>entry_severity.go\<close>, \<^verbatim>\<open>errors.go\<close> and \<^verbatim>\<open>entry_pool.go\<close>.

  The fixed-size arrays are lists; \<open>entry_shape\<close> says that they have the lengths their Go types
  give them. The \<^verbatim>\<open>uint8\<close> counters and the level are natural numbers: every increment of a
  counter is guarded by a limit of at most 32 and a counter read from the wire is the value of
  one byte, so none of them ever passes 255. \<^verbatim>\<open>logger\<close> is the address of the logger in the
  store of theory \<open>Logger\<close>. \<^verbatim>\<open>xid.ID\<close> is a \<^verbatim>\<open>[12]byte\<close>.
\<close>

subsection \<open>Limits, levels, severities, errors\<close>

abbreviation (input) MaxEntrySize :: nat where "MaxEntrySize \<equiv> 65535"
abbreviation (input) MaxMessageSize :: nat where "MaxMessageSize \<equiv> 255"
abbreviation (input) MaxMetaKeySize :: nat where "MaxMetaKeySize \<equiv> 255"
abbreviation (input) MaxTagSize :: nat where "MaxTagSize \<equiv> 255"
abbreviation (input) MaxMetaValueSize :: nat where "MaxMetaValueSize \<equiv> 65535"
abbreviation (input) MaxMetaCount :: nat where "MaxMetaCount \<equiv> 32"
abbreviation (input) MaxMetricCount :: nat where "MaxMetricCount \<equiv> 32"
abbreviation (input) MaxStackTraceCount :: nat where "MaxStackTraceCount \<equiv> 16"
abbreviation (input) MaxTagsCount :: nat where "MaxTagsCount \<equiv> 8"

abbreviation (input) L_BucketId :: nat where "L_BucketId \<equiv> 0"
abbreviation (input) L_EntryId :: nat where "L_EntryId \<equiv> 1"
abbreviation (input) L_Severity :: nat where "L_Severity \<equiv> 2"
abbreviation (input) L_Message :: nat where "L_Message \<equiv> 3"
abbreviation (input) L_CategoryId :: nat where "L_CategoryId \<equiv> 4"
abbreviation (input) L_Tags :: nat where "L_Tags \<equiv> 5"
abbreviation (input) L_Metric :: nat where "L_Metric \<equiv> 6"
abbreviation (input) L_Meta :: nat where "L_Meta \<equiv> 7"
abbreviation (input) L_Stack_trace :: nat where "L_Stack_trace \<equiv> 8"
abbreviation (input) L_TTL_Entry :: nat where "L_TTL_Entry \<equiv> 9"
abbreviation (input) L_TTL_Meta :: nat where "L_TTL_Meta \<equiv> 10"
abbreviation (input) End_Level :: nat where "End_Level \<equiv> 11"

type_synonym Severity = byte

abbreviation (input) EMERG :: Severity where "EMERG \<equiv> 0"
abbreviation (input) ALERT :: Severity where "ALERT \<equiv> 1"
abbreviation (input) CRIT :: Severity where "CRIT \<equiv> 2"
abbreviation (input) ERR :: Severity where "ERR \<equiv> 3"
abbreviation (input) WARNING :: Severity where "WARNING \<equiv> 4"
abbreviation (input) NOTICE :: Severity where "NOTICE \<equiv> 5"
abbreviation (input) INFO :: Severity where "INFO \<equiv> 6"
abbreviation (input) DEBUG :: Severity where "DEBUG \<equiv> 7"

datatype go_error =
    ErrInvalidCertificate
  | ErrInvalidSerialNumber
  | ErrInvalidSubjectKeyId
  | ErrTooShort
  | ErrCorruptEntry
  | ErrForbiddenBucket
  | ErrExternal gostring \<comment> \<open>an error made by code outside the repository\<close>

subsection \<open>The entry\<close>

type_synonym xid = "byte list"

record Entry =
  metaKeys :: "gostring list"
  metaValues :: "gostring list"
  metricKeys :: "gostring list"
  metricValues :: "u32 list"
  stackTracePaths :: "gostring list"
  stackTraceLines :: "u16 list"
  tags :: "gostring list"
  message :: gostring
  eid :: xid
  logger :: "nat option"
  bucketId :: u32
  ttlEntry :: u16
  ttlMeta :: u16
  severity :: Severity
  level :: nat
  categoryId :: byte
  tagsCount :: nat
  metaCount :: nat
  metricCount :: nat
  stackTraceCount :: nat

definition nilId :: xid where
  "nilId = replicate 12 0"

definition zero_entry :: Entry where
  \<comment> \<open>the zero value \<^verbatim>\<open>Entry{}\<close>\<close>
  "zero_entry = \<lparr>
     metaKeys = replicate MaxMetaCount [], metaValues = replicate MaxMetaCount [],
     metricKeys = replicate MaxMetricCount [], metricValues = replicate MaxMetricCount 0,
     stackTracePaths = replicate MaxStackTraceCount [], stackTraceLines = replicate MaxStackTraceCount 0,
     tags = replicate MaxTagsCount [], message = [], eid = nilId, logger = None,
     bucketId = 0, ttlEntry = 0, ttlMeta = 0, severity = 0, level = 0, categoryId = 0,
     tagsCount = 0, metaCount = 0, metricCount = 0, stackTraceCount = 0\<rparr>"

definition Entry_Reset :: "Entry \<Rightarrow> Entry" where
  "Entry_Reset e = e\<lparr>eid := nilId, logger := None, level := L_Message, tagsCount := 0,
     metricCount := 0, metaCount := 0, stackTraceCount := 0, ttlEntry := 0, ttlMeta := 0\<rparr>"

text \<open>
  \<^verbatim>\<open>sync.Pool.Get\<close> returns some element put before, or nil; the choice is the argument.
\<close>

definition EntryPool_Acquire :: "Entry option \<Rightarrow> Entry" where
  "EntryPool_Acquire got = (case got of Some e \<Rightarrow> e | None \<Rightarrow> zero_entry\<lparr>level := L_Message\<rparr>)"

definition EntryPool_Release :: "Entry \<Rightarrow> Entry list \<Rightarrow> Entry list" where
  "EntryPool_Release e pool = Entry_Reset e # pool"

subsection \<open>The type invariant and the limits\<close>

definition entry_shape :: "Entry \<Rightarrow> bool" where
  "entry_shape e \<longleftrightarrow>
     length (metaKeys e) = MaxMetaCount \<and> length (metaValues e) = MaxMetaCount \<and>
     length (metricKeys e) = MaxMetricCount \<and> length (metricValues e) = MaxMetricCount \<and>
     length (stackTracePaths e) = MaxStackTraceCount \<and> length (stackTraceLines e) = MaxStackTraceCount \<and>
     length (tags e) = MaxTagsCount \<and> length (eid e) = 12"

definition counts_ok :: "Entry \<Rightarrow> bool" where
  "counts_ok e \<longleftrightarrow> tagsCount e \<le> MaxTagsCount \<and> metricCount e \<le> MaxMetricCount \<and>
     metaCount e \<le> MaxMetaCount \<and> stackTraceCount e \<le> MaxStackTraceCount"

definition strings_ok :: "Entry \<Rightarrow> bool" where
  \<comment> \<open>every string in use fits the width of its length prefix\<close>
  "strings_ok e \<longleftrightarrow> length (message e) \<le> MaxMessageSize \<and>
     (\<forall>i<tagsCount e. length (tags e ! i) \<le> MaxTagSize) \<and>
     (\<forall>i<metricCount e. length (metricKeys e ! i) \<le> MaxMetaKeySize) \<and>
     (\<forall>i<metaCount e. length (metaKeys e ! i) \<le> MaxMetaKeySize
        \<and> length (metaValues e ! i) \<le> MaxMetaValueSize)"

definition entry_ok :: "Entry \<Rightarrow> bool" where
  "entry_ok e \<longleftrightarrow> entry_shape e \<and> counts_ok e \<and> strings_ok e \<and> L_Message \<le> level e \<and> level e \<le> L_TTL_Meta"

lemma entry_shapeD:
  assumes "entry_shape e"
  shows "length (metaKeys e) = 32" "length (metaValues e) = 32" "length (metricKeys e) = 32"
    "length (metricValues e) = 32" "length (stackTracePaths e) = 16"
    "length (stackTraceLines e) = 16" "length (tags e) = 8" "length (eid e) = 12"
  using assms by (simp_all add: entry_shape_def)

lemma length_nilId [simp]: "length nilId = 12"
  by (simp add: nilId_def)

lemma zero_entry_shape [simp]: "entry_shape zero_entry"
  by (simp add: entry_shape_def zero_entry_def)

lemma Reset_shape [simp]: "entry_shape (Entry_Reset e) = entry_shape (e\<lparr>eid := nilId\<rparr>)"
  by (simp add: entry_shape_def Entry_Reset_def)

lemma entry_shape_eid: "entry_shape e \<Longrightarrow> length i = 12 \<Longrightarrow> entry_shape (e\<lparr>eid := i\<rparr>)"
  by (simp add: entry_shape_def)

lemma Reset_shapeI [simp, intro]: "entry_shape e \<Longrightarrow> entry_shape (Entry_Reset e)"
  by (simp only: Reset_shape) (simp add: entry_shape_eid)

end
