(* ===== verification/Entry_Encode.thy ===== *)
theory Entry_Encode
  imports Entry_Data
begin

text \<open>
  \<^verbatim>\<open>Entry.Encode\<close> and \<^verbatim>\<open>Entry.MarshalBinary\<close> (\<^verbatim>\<open>entry.go\<close>): the positional
  writes of the source, loop by loop, and the reference encoder \<open>ref_bytes\<close> that appends the
  fields. The counted loops with a size cap share one contract, the locale \<open>capped_items\<close>.
  \<open>Encode_ref\<close> shows that the source's writes produce exactly the reference bytes.
\<close>

subsection \<open>The source's encoder\<close>

text \<open>A loop \<^verbatim>\<open>for i = 0; i < n; i++\<close> recurses over the indices \<open>[0..<n]\<close>.\<close>

fun enc_tags :: "Entry \<Rightarrow> nat list \<Rightarrow> writer \<Rightarrow> writer option" where
  "enc_tags e [] w = Some w"
| "enc_tags e (i # is) w = do {
     t \<leftarrow> nth_opt (tags e) i;
     w \<leftarrow> wr_byte (word_of_nat (length t)) w;
     w \<leftarrow> wr_copy t w;
     enc_tags e is w }"

text \<open>
  The metric loop takes \<^verbatim>\<open>keyLen\<close> from \<^verbatim>\<open>e.stackTracePaths[i]\<close>, as the source does,
  for the size check and for the length byte, and then copies \<^verbatim>\<open>e.metricKeys[i]\<close>.
\<close>

fun enc_metrics :: "Entry \<Rightarrow> nat \<Rightarrow> nat list \<Rightarrow> writer \<Rightarrow> writer option" where
  "enc_metrics e pos [] w = Some w"
| "enc_metrics e pos (i # is) w = do {
     path \<leftarrow> nth_opt (stackTracePaths e) i;
     let keyLen = length path;
     if snd w + keyLen + 5 > MaxEntrySize
     then do { b \<leftarrow> put (fst w) pos (word_of_nat i); Some (b, snd w) }
     else do {
       w \<leftarrow> wr_byte (word_of_nat keyLen) w;
       key \<leftarrow> nth_opt (metricKeys e) i;
       w \<leftarrow> wr_copy key w;
       v \<leftarrow> nth_opt (metricValues e) i;
       w \<leftarrow> wr_fixed (be32 v) w;
       enc_metrics e pos is w } }"

fun enc_meta :: "Entry \<Rightarrow> nat \<Rightarrow> nat list \<Rightarrow> writer \<Rightarrow> writer option" where
  "enc_meta e pos [] w = Some w"
| "enc_meta e pos (i # is) w = do {
     key \<leftarrow> nth_opt (metaKeys e) i;
     val \<leftarrow> nth_opt (metaValues e) i;
     let keyLen = length key;
     let valLen = length val;
     if snd w + keyLen + valLen + 3 > MaxEntrySize
     then do { b \<leftarrow> put (fst w) pos (word_of_nat i); Some (b, snd w) }
     else do {
       w \<leftarrow> wr_byte (word_of_nat keyLen) w;
       w \<leftarrow> wr_copy key w;
       w \<leftarrow> wr_fixed (be16 (word_of_nat valLen)) w;
       w \<leftarrow> wr_copy val w;
       enc_meta e pos is w } }"

fun enc_trace :: "Entry \<Rightarrow> nat \<Rightarrow> nat list \<Rightarrow> writer \<Rightarrow> writer option" where
  "enc_trace e pos [] w = Some w"
| "enc_trace e pos (i # is) w = do {
     path \<leftarrow> nth_opt (stackTracePaths e) i;
     let pathLen = length path;
     if snd w + pathLen + 3 > MaxEntrySize
     then do { b \<leftarrow> put (fst w) pos (word_of_nat i); Some (b, snd w) }
     else do {
       w \<leftarrow> wr_byte (word_of_nat pathLen) w;
       w \<leftarrow> wr_copy path w;
       line \<leftarrow> nth_opt (stackTraceLines e) i;
       w \<leftarrow> wr_fixed (be16 line) w;
       enc_trace e pos is w } }"

text \<open>The body of the \<^verbatim>\<open>switch l\<close>; a level without a case does nothing.\<close>

definition enc_level :: "Entry \<Rightarrow> nat \<Rightarrow> writer \<Rightarrow> writer option" where
  "enc_level e l w =
    (if l = L_BucketId then wr_fixed (be32 (bucketId e)) w
     else if l = L_EntryId then wr_copy (eid e) w
     else if l = L_Severity then wr_byte (severity e) w
     else if l = L_Message then do {
       w \<leftarrow> wr_byte (word_of_nat (length (message e))) w;
       wr_copy (message e) w }
     else if l = L_CategoryId then wr_byte (categoryId e) w
     else if l = L_Tags then do {
       w \<leftarrow> wr_byte (word_of_nat (tagsCount e)) w;
       enc_tags e [0..<tagsCount e] w }
     else if l = L_Metric then do {
       let pos = snd w;
       w \<leftarrow> wr_byte (word_of_nat (metricCount e)) w;
       enc_metrics e pos [0..<metricCount e] w }
     else if l = L_Meta then do {
       let pos = snd w;
       w \<leftarrow> wr_byte (word_of_nat (metaCount e)) w;
       enc_meta e pos [0..<metaCount e] w }
     else if l = L_Stack_trace then do {
       let pos = snd w;
       w \<leftarrow> wr_byte (word_of_nat (stackTraceCount e)) w;
       enc_trace e pos [0..<stackTraceCount e] w }
     else if l = L_TTL_Entry then wr_fixed (be16 (ttlEntry e)) w
     else if l = L_TTL_Meta then wr_fixed (be16 (ttlMeta e)) w
     else Some w)"

fun enc_levels :: "Entry \<Rightarrow> nat list \<Rightarrow> writer \<Rightarrow> writer option" where
  "enc_levels e [] w = Some w"
| "enc_levels e (l # ls) w = do { w \<leftarrow> enc_level e l w; enc_levels e ls w }"

definition Entry_Encode :: "Entry \<Rightarrow> byte list \<Rightarrow> (byte list \<times> nat) option" where
  \<comment> \<open>the buffer after the call and the number of bytes written\<close>
  "Entry_Encode e b = do {
     (b, s) \<leftarrow> enc_levels e [0..<Suc (level e)] (b, 2);
     (b, _) \<leftarrow> wr_fixed (be16 (word_of_nat s)) (b, 0);
     Some (b, s) }"

definition Entry_MarshalBinary :: "Entry \<Rightarrow> byte list option" where
  "Entry_MarshalBinary e = do {
     (b, s) \<leftarrow> Entry_Encode e (replicate MaxEntrySize 0);
     sub_slice (of_bytes b) 0 s }"

subsection \<open>The reference encoder\<close>

definition lstr :: "gostring \<Rightarrow> byte list" where
  \<comment> \<open>a string with its one-byte length\<close>
  "lstr t = word_of_nat (length t) # t"

definition metric_item :: "Entry \<Rightarrow> nat \<Rightarrow> byte list" where
  "metric_item e i = lstr (metricKeys e ! i) @ be32 (metricValues e ! i)"

definition meta_item :: "Entry \<Rightarrow> nat \<Rightarrow> byte list" where
  "meta_item e i =
     lstr (metaKeys e ! i) @ be16 (word_of_nat (length (metaValues e ! i))) @ metaValues e ! i"

definition trace_item :: "Entry \<Rightarrow> nat \<Rightarrow> byte list" where
  "trace_item e i = lstr (stackTracePaths e ! i) @ be16 (stackTraceLines e ! i)"

text \<open>The longest prefix of the items that ends within \<open>MaxEntrySize\<close> when it starts at \<open>s\<close>.\<close>

fun fit :: "nat \<Rightarrow> byte list list \<Rightarrow> byte list list" where
  "fit s [] = []"
| "fit s (x # xs) = (if MaxEntrySize < s + length x then [] else x # fit (s + length x) xs)"

definition capped :: "nat \<Rightarrow> byte list list \<Rightarrow> byte list" where
  \<comment> \<open>a counted section at position \<open>s\<close>: the number of items that fit, then those items\<close>
  "capped s items = word_of_nat (length (fit (Suc s) items)) # concat (fit (Suc s) items)"

definition ref_level :: "Entry \<Rightarrow> nat \<Rightarrow> nat \<Rightarrow> byte list" where
  "ref_level e l s =
    (if l = L_BucketId then be32 (bucketId e)
     else if l = L_EntryId then eid e
     else if l = L_Severity then [severity e]
     else if l = L_Message then lstr (message e)
     else if l = L_CategoryId then [categoryId e]
     else if l = L_Tags then word_of_nat (tagsCount e) # concat (map (\<lambda>i. lstr (tags e ! i)) [0..<tagsCount e])
     else if l = L_Metric then capped s (map (metric_item e) [0..<metricCount e])
     else if l = L_Meta then capped s (map (meta_item e) [0..<metaCount e])
     else if l = L_Stack_trace then capped s (map (trace_item e) [0..<stackTraceCount e])
     else if l = L_TTL_Entry then be16 (ttlEntry e)
     else if l = L_TTL_Meta then be16 (ttlMeta e)
     else [])"

fun ref_body :: "Entry \<Rightarrow> nat list \<Rightarrow> nat \<Rightarrow> byte list" where
  "ref_body e [] s = []"
| "ref_body e (l # ls) s = ref_level e l s @ ref_body e ls (s + length (ref_level e l s))"

definition ref_bytes :: "Entry \<Rightarrow> byte list" where
  "ref_bytes e = (let body = ref_body e [0..<Suc (level e)] 2
                  in be16 (word_of_nat (2 + length body)) @ body)"

text \<open>
  The metric loop measures a stack trace path where it should measure the metric's key. The
  reference encoder and the source agree on the entries whose path lengths are those of the keys,
  in particular on every entry without metrics.
\<close>

definition metric_sync :: "Entry \<Rightarrow> bool" where
  "metric_sync e \<longleftrightarrow> metricCount e \<le> MaxStackTraceCount \<and>
     (\<forall>i<metricCount e. length (stackTracePaths e ! i) = length (metricKeys e ! i))"

subsection \<open>Counted loops with a size cap\<close>

locale capped_items =
  fixes loop :: "Entry \<Rightarrow> nat \<Rightarrow> nat list \<Rightarrow> writer \<Rightarrow> writer option"
    and item :: "Entry \<Rightarrow> nat \<Rightarrow> byte list"
    and avail :: "Entry \<Rightarrow> nat \<Rightarrow> bool"
  assumes loop_Nil: "loop e pos [] w = Some w"
    and loop_full: "avail e i \<Longrightarrow> MaxEntrySize < length acc + length (item e i) \<Longrightarrow> pos < length acc
      \<Longrightarrow> loop e pos (i # is) (wrote b0 acc) = Some (wrote b0 (acc[pos := word_of_nat i]))"
    and loop_fits: "avail e i \<Longrightarrow> length acc + length (item e i) \<le> MaxEntrySize
      \<Longrightarrow> length acc + length (item e i) \<le> length b0
      \<Longrightarrow> loop e pos (i # is) (wrote b0 acc) = loop e pos is (wrote b0 (acc @ item e i))"
begin

lemma loop_writes_fit:
  assumes "\<forall>j\<in>set [i..<n]. avail e j" "i \<le> n" "pos < length acc" "acc ! pos = word_of_nat n"
    and "length acc + length (concat (fit (length acc) (map (item e) [i..<n]))) \<le> length b0"
  shows "loop e pos [i..<n] (wrote b0 acc) =
    Some (wrote b0 (acc[pos := word_of_nat (i + length (fit (length acc) (map (item e) [i..<n])))]
      @ concat (fit (length acc) (map (item e) [i..<n]))))"
  using assms
proof (induction "n - i" arbitrary: i acc)
  case 0
  then show ?case by (simp add: loop_Nil) (metis list_update_id)
next
  case (Suc d)
  then have range: "[i..<n] = i # [Suc i..<n]" and "avail e i"
    by (simp_all add: upt_conv_Cons)
  show ?case
  proof (cases "MaxEntrySize < length acc + length (item e i)")
    case True
    with Suc.prems \<open>avail e i\<close> show ?thesis
      by (simp add: range loop_full)
  next
    case False
    let ?acc = "acc @ item e i"
    have "loop e pos [Suc i..<n] (wrote b0 ?acc) =
      Some (wrote b0 (?acc[pos := word_of_nat (Suc i + length (fit (length ?acc) (map (item e) [Suc i..<n])))]
        @ concat (fit (length ?acc) (map (item e) [Suc i..<n]))))"
      using Suc.hyps(2) Suc.prems False range
      by (intro Suc.hyps(1)) (auto simp: nth_append add.assoc)
    then show ?thesis
      using Suc.prems False \<open>avail e i\<close>
      by (simp add: range loop_fits list_update_append)
  qed
qed

lemma section_writes_capped:
  assumes "\<forall>j\<in>set [0..<n]. avail e j" "length acc + length (capped (length acc) (map (item e) [0..<n])) \<le> length b0"
  shows "Option.bind (wr_byte (word_of_nat n) (wrote b0 acc)) (loop e (length acc) [0..<n])
    = Some (wrote b0 (acc @ capped (length acc) (map (item e) [0..<n])))"
proof -
  have "wr_byte (word_of_nat n) (wrote b0 acc) = Some (wrote b0 (acc @ [word_of_nat n]))"
    using assms(2) by (simp add: wr_byte_wrote capped_def)
  then show ?thesis
    using assms loop_writes_fit [of 0 n e "length acc" "acc @ [word_of_nat n]" b0]
    by (simp add: capped_def)
qed

end

lemma length_lstr [simp]: "length (lstr t) = Suc (length t)"
  by (simp add: lstr_def)

lemma lstr_wrote [buf_simps]:
  "length acc + Suc (length t) \<le> length b0 \<Longrightarrow>
    Option.bind (wr_byte (word_of_nat (length t)) (wrote b0 acc)) (wr_copy t) = Some (wrote b0 (acc @ lstr t))"
  by (simp add: buf_simps lstr_def)

interpretation meta_items: capped_items enc_meta meta_item
  "\<lambda>e i. i < length (metaKeys e) \<and> i < length (metaValues e)"
  by unfold_locales (auto simp: meta_item_def lstr_def buf_simps)

interpretation trace_items: capped_items enc_trace trace_item
  "\<lambda>e i. i < length (stackTracePaths e) \<and> i < length (stackTraceLines e)"
  by unfold_locales (auto simp: trace_item_def lstr_def buf_simps)

interpretation metric_items: capped_items enc_metrics metric_item
  "\<lambda>e i. i < length (stackTracePaths e) \<and> i < length (metricKeys e) \<and> i < length (metricValues e)
     \<and> length (stackTracePaths e ! i) = length (metricKeys e ! i)"
  by unfold_locales (auto simp: metric_item_def lstr_def buf_simps)

subsection \<open>The source encoder writes the reference bytes\<close>

lemma enc_tags_wrote:
  assumes "\<forall>i\<in>set is. i < length (tags e)"
    and "length acc + length (concat (map (\<lambda>i. lstr (tags e ! i)) is)) \<le> length b0"
  shows "enc_tags e is (wrote b0 acc) = Some (wrote b0 (acc @ concat (map (\<lambda>i. lstr (tags e ! i)) is)))"
  using assms
  by (induction "is" arbitrary: acc) (auto simp: buf_simps lstr_def)

definition enc_ready :: "Entry \<Rightarrow> bool" where
  "enc_ready e \<longleftrightarrow> entry_shape e \<and> counts_ok e \<and> metric_sync e"

lemma enc_readyD:
  assumes "enc_ready e"
  shows "tagsCount e \<le> 8" "metaCount e \<le> 32" "metricCount e \<le> 16" "stackTraceCount e \<le> 16"
    "length (tags e) = 8" "length (metaKeys e) = 32" "length (metaValues e) = 32"
    "length (metricKeys e) = 32" "length (metricValues e) = 32"
    "length (stackTracePaths e) = 16" "length (stackTraceLines e) = 16" "length (eid e) = 12"
    "i < metricCount e \<Longrightarrow> length (stackTracePaths e ! i) = length (metricKeys e ! i)"
  using assms by (auto simp: enc_ready_def counts_ok_def metric_sync_def entry_shape_def)

lemma enc_level_ref:
  assumes ready: "enc_ready e"
    and room: "length acc + length (ref_level e l (length acc)) \<le> length b0"
  shows "enc_level e l (wrote b0 acc) = Some (wrote b0 (acc @ ref_level e l (length acc)))"
proof -
  note dims = enc_readyD [OF ready]
  consider "l = L_Tags" | "l = L_Metric" | "l = L_Meta" | "l = L_Stack_trace"
    | "l \<notin> {L_Tags, L_Metric, L_Meta, L_Stack_trace}" by blast
  then show ?thesis
  proof cases
    case 1
    then show ?thesis
      using room dims by (simp add: enc_level_def ref_level_def wr_byte_wrote enc_tags_wrote)
  next
    case 2
    then show ?thesis
      using room dims by (simp add: enc_level_def ref_level_def metric_items.section_writes_capped)
  next
    case 3
    then show ?thesis
      using room dims by (simp add: enc_level_def ref_level_def meta_items.section_writes_capped)
  next
    case 4
    then show ?thesis
      using room dims by (simp add: enc_level_def ref_level_def trace_items.section_writes_capped)
  next
    case 5
    then show ?thesis
      using room by (auto simp: enc_level_def ref_level_def buf_simps lstr_def)
  qed
qed

lemma enc_levels_ref:
  assumes "enc_ready e" "length acc + length (ref_body e ls (length acc)) \<le> length b0"
  shows "enc_levels e ls (wrote b0 acc) = Some (wrote b0 (acc @ ref_body e ls (length acc)))"
  using assms
proof (induction ls arbitrary: acc)
  case (Cons l ls)
  let ?acc = "acc @ ref_level e l (length acc)"
  have "enc_level e l (wrote b0 acc) = Some (wrote b0 ?acc)"
    using Cons.prems by (intro enc_level_ref) auto
  moreover have "enc_levels e ls (wrote b0 ?acc) = Some (wrote b0 (?acc @ ref_body e ls (length ?acc)))"
    using Cons.prems by (intro Cons.IH) auto
  ultimately show ?case by simp
qed simp

lemma Encode_ref:
  assumes "enc_ready e" "length (ref_bytes e) \<le> length b"
  shows "Entry_Encode e b = Some (ref_bytes e @ drop (length (ref_bytes e)) b, length (ref_bytes e))"
proof -
  let ?body = "ref_body e [0..<Suc (level e)] 2"
  have len: "length (ref_bytes e) = 2 + length ?body"
    by (simp add: ref_bytes_def Let_def)
  have two: "2 \<le> length b" using assms(2) len by simp
  have "enc_levels e [0..<Suc (level e)] (wrote b (take 2 b)) = Some (wrote b (take 2 b @ ?body))"
    using enc_levels_ref [OF assms(1), of "take 2 b" "[0..<Suc (level e)]" b] assms(2) len two
    by (simp add: min_absorb2)
  then have "enc_levels e [0..<Suc (level e)] (b, 2) = Some (wrote b (take 2 b @ ?body))"
    using two by (simp add: wrote_start)
  then show ?thesis
    using two by (simp add: Entry_Encode_def wr_fixed_def wrote_def ref_bytes_def Let_def)
qed

end
