(* ===== verification/Entry_Decode.thy ===== *)
theory Entry_Decode
  imports Entry_Encode
begin

text \<open>
  \<^verbatim>\<open>Entry.Decode\<close> and \<^verbatim>\<open>Entry.UnmarshalBinary\<close> (\<^verbatim>\<open>entry.go\<close>), with the position
  \<^verbatim>\<open>s\<close> kept at its 16 bits and every index and slice expression checked as the Go run time
  checks it. \<^verbatim>\<open>xid.FromBytes\<close> is code of another module and a parameter, \<open>fromBytes\<close>.

  The four counted loops of the decoder share the contract \<open>counted_items\<close>: on a position
  where the bytes of item \<open>i\<close> of a source entry start, one round of the loop stores that item
  and moves past it. \<open>Decode_ref\<close> is the round trip with the reference encoder.
\<close>

subsection \<open>The source's decoder\<close>

definition b2s :: "byte list \<Rightarrow> gostring" where
  \<comment> \<open>the string that shares the memory of the slice; its value when it is made\<close>
  "b2s b = b"

definition toString :: "byte list \<Rightarrow> bool \<Rightarrow> gostring" where
  "toString b unsafe = (if unsafe then b2s b else b)"

lemma toString_eq [simp]: "toString b unsafe = b"
  by (simp add: toString_def b2s_def)

datatype flow =
    Continue Entry u16  \<comment> \<open>the next statement, with the entry and the position\<close>
  | BreakLoop Entry u16 \<comment> \<open>\<^verbatim>\<open>break loop\<close>\<close>
  | Return Entry go_error \<comment> \<open>\<^verbatim>\<open>return\<close> of an error from inside the loop\<close>

fun dec_tags :: "bool \<Rightarrow> go_slice \<Rightarrow> u16 \<Rightarrow> nat list \<Rightarrow> Entry \<Rightarrow> u16 \<Rightarrow> flow option" where
  "dec_tags us b tot [] e s = Some (Continue e s)"
| "dec_tags us b tot (i # is) e s =
    (if s \<ge> tot then Some (BreakLoop e s)
     else do {
       c \<leftarrow> idx b (unat s);
       let size = (ucast c :: u16);
       let s = s + 1;
       if s + size > tot then Some (BreakLoop e s)
       else do {
         t \<leftarrow> sub_slice b (unat s) (unat (s + size));
         dec_tags us b tot is (e\<lparr>tags := (tags e)[i := toString t us]\<rparr>) (s + size) } })"

fun dec_metrics :: "bool \<Rightarrow> go_slice \<Rightarrow> u16 \<Rightarrow> nat list \<Rightarrow> Entry \<Rightarrow> u16 \<Rightarrow> flow option" where
  "dec_metrics us b tot [] e s = Some (Continue e s)"
| "dec_metrics us b tot (i # is) e s =
    (if s \<ge> tot then Some (BreakLoop e s)
     else do {
       c \<leftarrow> idx b (unat s);
       let size = (ucast c :: u16);
       let s = s + 1;
       if s + size + 4 > tot then Some (BreakLoop e s)
       else do {
         k \<leftarrow> sub_slice b (unat s) (unat (s + size));
         let e = e\<lparr>metricKeys := (metricKeys e)[i := toString k us]\<rparr>;
         let s = s + size;
         vb \<leftarrow> sub_slice b (unat s) (unat (s + 4));
         v \<leftarrow> Uint32 vb;
         dec_metrics us b tot is (e\<lparr>metricValues := (metricValues e)[i := v]\<rparr>) (s + 4) } })"

fun dec_meta :: "bool \<Rightarrow> go_slice \<Rightarrow> u16 \<Rightarrow> nat list \<Rightarrow> Entry \<Rightarrow> u16 \<Rightarrow> flow option" where
  "dec_meta us b tot [] e s = Some (Continue e s)"
| "dec_meta us b tot (i # is) e s =
    (if s \<ge> tot then Some (BreakLoop e s)
     else do {
       c \<leftarrow> idx b (unat s);
       let size = (ucast c :: u16);
       let s = s + 1;
       if s + size + 2 \<ge> tot then Some (BreakLoop e s)
       else do {
         k \<leftarrow> sub_slice b (unat s) (unat (s + size));
         let e = e\<lparr>metaKeys := (metaKeys e)[i := toString k us]\<rparr>;
         let s = s + size;
         zb \<leftarrow> sub_slice b (unat s) (unat (s + 2));
         size \<leftarrow> Uint16 zb;
         let s = s + 2;
         if s + size > tot then Some (BreakLoop e s)
         else do {
           v \<leftarrow> sub_slice b (unat s) (unat (s + size));
           dec_meta us b tot is (e\<lparr>metaValues := (metaValues e)[i := toString v us]\<rparr>) (s + size) } } })"

fun dec_trace :: "bool \<Rightarrow> go_slice \<Rightarrow> u16 \<Rightarrow> nat list \<Rightarrow> Entry \<Rightarrow> u16 \<Rightarrow> flow option" where
  "dec_trace us b tot [] e s = Some (Continue e s)"
| "dec_trace us b tot (i # is) e s =
    (if s \<ge> tot then Some (BreakLoop e s)
     else do {
       c \<leftarrow> idx b (unat s);
       let size = (ucast c :: u16);
       let s = s + 1;
       if s + size + 2 > tot then Some (BreakLoop e s)
       else do {
         p \<leftarrow> sub_slice b (unat s) (unat (s + size));
         let e = e\<lparr>stackTracePaths := (stackTracePaths e)[i := toString p us]\<rparr>;
         let s = s + size;
         lb \<leftarrow> sub_slice b (unat s) (unat (s + 2));
         n \<leftarrow> Uint16 lb;
         dec_trace us b tot is (e\<lparr>stackTraceLines := (stackTraceLines e)[i := n]\<rparr>) (s + 2) } })"

text \<open>The body of the \<^verbatim>\<open>switch e.level\<close>.\<close>

definition dec_level ::
  "(byte list \<Rightarrow> xid \<times> go_error option) \<Rightarrow> bool \<Rightarrow> go_slice \<Rightarrow> u16 \<Rightarrow> nat \<Rightarrow> Entry \<Rightarrow> u16 \<Rightarrow> flow option" where
  "dec_level fromBytes us b tot l e s =
    (if l = L_BucketId then do {
       bs \<leftarrow> slice_from b (unat s);
       v \<leftarrow> Uint32 bs;
       Some (Continue (e\<lparr>bucketId := v\<rparr>) (s + 4)) }
     else if l = L_EntryId then do {
       bs \<leftarrow> sub_slice b (unat s) (unat (s + 12));
       (case fromBytes bs of
          (i, Some err) \<Rightarrow> Some (Return (e\<lparr>eid := i\<rparr>) err)
        | (i, None) \<Rightarrow> Some (Continue (e\<lparr>eid := i\<rparr>) (s + 12))) }
     else if l = L_Severity then do {
       c \<leftarrow> idx b (unat s);
       Some (Continue (e\<lparr>severity := c\<rparr>) (s + 1)) }
     else if l = L_Message then do {
       c \<leftarrow> idx b (unat s);
       let size = (ucast c :: u16);
       let s = s + 1;
       if s + size > tot then Some (BreakLoop e s)
       else do {
         m \<leftarrow> sub_slice b (unat s) (unat (s + size));
         Some (Continue (e\<lparr>message := toString m us\<rparr>) (s + size)) } }
     else if l = L_CategoryId then do {
       c \<leftarrow> idx b (unat s);
       Some (Continue (e\<lparr>categoryId := c\<rparr>) (s + 1)) }
     else if l = L_Tags then do {
       c \<leftarrow> idx b (unat s);
       let e = e\<lparr>tagsCount := unat c\<rparr>;
       let s = s + 1;
       if tagsCount e > MaxTagsCount then Some (BreakLoop e s)
       else dec_tags us b tot [0..<tagsCount e] e s }
     else if l = L_Metric then do {
       c \<leftarrow> idx b (unat s);
       let e = e\<lparr>metricCount := unat c\<rparr>;
       let s = s + 1;
       if metricCount e > MaxMetricCount then Some (BreakLoop e s)
       else dec_metrics us b tot [0..<metricCount e] e s }
     else if l = L_Meta then do {
       c \<leftarrow> idx b (unat s);
       let e = e\<lparr>metaCount := unat c\<rparr>;
       let s = s + 1;
       if metaCount e > MaxMetaCount then Some (BreakLoop e s)
       else dec_meta us b tot [0..<metaCount e] e s }
     else if l = L_Stack_trace then do {
       c \<leftarrow> idx b (unat s);
       let e = e\<lparr>stackTraceCount := unat c\<rparr>;
       let s = s + 1;
       if stackTraceCount e > MaxStackTraceCount then Some (BreakLoop e s)
       else dec_trace us b tot [0..<stackTraceCount e] e s }
     else if l = L_TTL_Entry then
       (if s + 2 > tot then Some (BreakLoop e s)
        else do {
          bs \<leftarrow> slice_from b (unat s);
          v \<leftarrow> Uint16 bs;
          Some (Continue (e\<lparr>ttlEntry := v\<rparr>) (s + 2)) })
     else if l = L_TTL_Meta then do {
       bs \<leftarrow> slice_from b (unat s);
       v \<leftarrow> Uint16 bs;
       Some (Continue (e\<lparr>ttlMeta := v\<rparr>) (s + 2)) }
     else Some (Continue e s))"

text \<open>The loop \<^verbatim>\<open>for e.level = 0; e.level < _End_Level; e.level++\<close> over the levels left.\<close>

fun dec_loop ::
  "(byte list \<Rightarrow> xid \<times> go_error option) \<Rightarrow> bool \<Rightarrow> go_slice \<Rightarrow> u16 \<Rightarrow> nat list \<Rightarrow> Entry \<Rightarrow> u16 \<Rightarrow> flow option" where
  "dec_loop fromBytes us b tot [] e s = Some (BreakLoop (e\<lparr>level := End_Level\<rparr>) s)"
| "dec_loop fromBytes us b tot (l # ls) e s = do {
     r \<leftarrow> dec_level fromBytes us b tot l (e\<lparr>level := l\<rparr>) s;
     (case r of
        Continue e s \<Rightarrow> if s \<ge> tot then Some (BreakLoop e s) else dec_loop fromBytes us b tot ls e s
      | BreakLoop e s \<Rightarrow> Some (BreakLoop e s)
      | Return e err \<Rightarrow> Some (Return e err)) }"

text \<open>What follows the loop: the entry is corrupt unless the position is its end.\<close>

definition dec_finish :: "u16 \<Rightarrow> flow \<Rightarrow> Entry \<times> go_error option" where
  "dec_finish tot r = (case r of
     Return e err \<Rightarrow> (e, Some err)
   | BreakLoop e s \<Rightarrow> (e, if s \<noteq> tot then Some ErrCorruptEntry else None)
   | Continue e s \<Rightarrow> (e, if s \<noteq> tot then Some ErrCorruptEntry else None))"

definition Entry_Decode ::
  "(byte list \<Rightarrow> xid \<times> go_error option) \<Rightarrow> Entry \<Rightarrow> go_slice \<Rightarrow> bool list \<Rightarrow> (Entry \<times> go_error option) option" where
  "Entry_Decode fromBytes e b noCopy = do {
     let e = Entry_Reset e;
     let us = (noCopy \<noteq> [] \<and> noCopy ! 0);
     if sl_len b < 18 then Some (e, Some ErrTooShort)
     else do {
       tb \<leftarrow> slice_from b 0;
       tot \<leftarrow> Uint16 tb;
       if (word_of_nat (sl_len b) :: u16) \<noteq> tot then Some (e, Some ErrCorruptEntry)
       else do {
         r \<leftarrow> dec_loop fromBytes us b tot [0..<End_Level] e 2;
         Some (dec_finish tot r) } } }"

definition Entry_UnmarshalBinary ::
  "(byte list \<Rightarrow> xid \<times> go_error option) \<Rightarrow> Entry \<Rightarrow> go_slice \<Rightarrow> (Entry \<times> go_error option) option" where
  "Entry_UnmarshalBinary fromBytes e b = Entry_Decode fromBytes e b []"

text \<open>The documented behaviour of \<^verbatim>\<open>xid.FromBytes\<close> on twelve bytes.\<close>

definition fromBytes_ok :: "(byte list \<Rightarrow> xid \<times> go_error option) \<Rightarrow> bool" where
  "fromBytes_ok f \<longleftrightarrow> (\<forall>bs. length bs = 12 \<longrightarrow> f bs = (bs, None))"

subsection \<open>Reading from a position\<close>

definition at :: "go_slice \<Rightarrow> nat \<Rightarrow> byte list \<Rightarrow> bool" where
  \<comment> \<open>the bytes of the slice from position \<open>n\<close> on; the slice is short enough for 16-bit positions\<close>
  "at b n bs \<longleftrightarrow> slice_ok b \<and> sl_len b < 65536 \<and> n + length bs = sl_len b \<and> drop n (sl_bytes b) = bs"

lemma at_append: "at b n (xs @ ys) \<Longrightarrow> at b (n + length xs) ys"
  by (auto simp: at_def dest: drop_eq_append)

lemma at_Cons: "at b n (x # xs) \<Longrightarrow> at b (Suc n) xs"
  using at_append [of b n "[x]" xs] by simp

lemma at_bound: "at b n bs \<Longrightarrow> n + length bs < 65536"
  by (simp add: at_def)

lemma at_less: "at b n bs \<Longrightarrow> bs \<noteq> [] \<Longrightarrow> n < sl_len b \<and> sl_len b < 65536"
  by (cases bs) (auto simp: at_def)

lemma at_idx: "at b n (x # xs) \<Longrightarrow> idx b (unat (word_of_nat n :: u16)) = Some x"
  by (auto simp: at_def idx_sl_bytes pos_simps dest: nth_of_drop)

lemma at_sub_slice:
  assumes "at b n (xs @ ys)" "m = n + length xs"
  shows "sub_slice b (unat (word_of_nat n :: u16)) (unat (word_of_nat m :: u16)) = Some xs"
proof -
  have "n < 65536" "m < 65536" using assms at_bound [OF assms(1)] by simp_all
  then have "unat (word_of_nat n :: u16) = n" "unat (word_of_nat m :: u16) = m"
    by (simp_all only: unat_pos)
  moreover have "sub_slice b n m = Some (take (m - n) (drop n (sl_bytes b)))"
    using assms by (intro sub_slice_sl_bytes) (auto simp: at_def length_sl_bytes)
  ultimately show ?thesis using assms by (simp add: at_def)
qed

lemma at_slice_from: "at b n bs \<Longrightarrow> slice_from b (unat (word_of_nat n :: u16)) = Some bs"
  using at_bound [of b n bs] by (simp add: at_def slice_from_sl_bytes length_sl_bytes pos_simps)

subsection \<open>Counted loops\<close>

text \<open>
  \<open>store src i e\<close> is \<open>e\<close> with item \<open>i\<close> taken from \<open>src\<close>. \<open>okay\<close> says that the item's
  strings fit their length prefixes; \<open>tail_ok\<close> is what the loop needs of the bytes after it.
\<close>

locale counted_items =
  fixes loop :: "bool \<Rightarrow> go_slice \<Rightarrow> u16 \<Rightarrow> nat list \<Rightarrow> Entry \<Rightarrow> u16 \<Rightarrow> flow option"
    and item :: "Entry \<Rightarrow> nat \<Rightarrow> byte list"
    and store :: "Entry \<Rightarrow> nat \<Rightarrow> Entry \<Rightarrow> Entry"
    and okay :: "Entry \<Rightarrow> nat \<Rightarrow> bool"
    and tail_ok :: "Entry \<Rightarrow> nat \<Rightarrow> byte list \<Rightarrow> bool"
  assumes loop_Nil: "loop us b tot [] e s = Some (Continue e s)"
    and loop_item: "at b n (item src i @ rest) \<Longrightarrow> okay src i \<Longrightarrow> tail_ok src i rest
      \<Longrightarrow> loop us b (word_of_nat (sl_len b)) (i # is) e (word_of_nat n)
        = loop us b (word_of_nat (sl_len b)) is (store src i e) (word_of_nat (n + length (item src i)))"
    and tail_okI: "rest \<noteq> [] \<Longrightarrow> tail_ok src i rest"
    and item_nonempty: "item src i \<noteq> []"
begin

lemma loop_reads:
  assumes "at b n (concat (map (item src) is) @ rest)" "\<forall>i\<in>set is. okay src i"
    and "is \<noteq> [] \<Longrightarrow> tail_ok src (last is) rest"
  shows "loop us b (word_of_nat (sl_len b)) is e (word_of_nat n)
    = Some (Continue (fold (store src) is e) (word_of_nat (n + length (concat (map (item src) is)))))"
  using assms
proof (induction "is" arbitrary: n e)
  case Nil
  then show ?case by (simp add: loop_Nil)
next
  case (Cons i "is")
  let ?rest = "concat (map (item src) is) @ rest"
  have here: "at b n (item src i @ ?rest)" and tail: "tail_ok src i ?rest"
    using Cons.prems item_nonempty by (cases "is"; auto intro: tail_okI)+
  have "loop us b (word_of_nat (sl_len b)) (i # is) e (word_of_nat n)
      = loop us b (word_of_nat (sl_len b)) is (store src i e) (word_of_nat (n + length (item src i)))"
    using here tail Cons.prems by (intro loop_item) auto
  also have "\<dots> = Some (Continue (fold (store src) is (store src i e))
      (word_of_nat (n + length (item src i) + length (concat (map (item src) is)))))"
    using Cons.prems at_append [OF here] by (intro Cons.IH) (auto split: if_splits)
  finally show ?case by (simp add: add.assoc)
qed

end

text \<open>
  Sums of positions are kept under one \<open>word_of_nat\<close>, against the direction of the library's
  simplification rules, which the proofs below therefore switch off.
\<close>

lemma pos_num [pos_simps]:
  "(word_of_nat n :: u16) + 1 = word_of_nat (n + 1)" "(word_of_nat n :: u16) + 2 = word_of_nat (n + 2)"
  "(word_of_nat n :: u16) + 4 = word_of_nat (n + 4)" "(word_of_nat n :: u16) + 12 = word_of_nat (n + 12)"
  by simp_all

definition store_tag :: "Entry \<Rightarrow> nat \<Rightarrow> Entry \<Rightarrow> Entry" where
  "store_tag src i e = e\<lparr>tags := (tags e)[i := tags src ! i]\<rparr>"

definition store_metric :: "Entry \<Rightarrow> nat \<Rightarrow> Entry \<Rightarrow> Entry" where
  "store_metric src i e = e\<lparr>metricKeys := (metricKeys e)[i := metricKeys src ! i],
     metricValues := (metricValues e)[i := metricValues src ! i]\<rparr>"

definition store_meta :: "Entry \<Rightarrow> nat \<Rightarrow> Entry \<Rightarrow> Entry" where
  "store_meta src i e = e\<lparr>metaKeys := (metaKeys e)[i := metaKeys src ! i],
     metaValues := (metaValues e)[i := metaValues src ! i]\<rparr>"

definition store_trace :: "Entry \<Rightarrow> nat \<Rightarrow> Entry \<Rightarrow> Entry" where
  "store_trace src i e = e\<lparr>stackTracePaths := (stackTracePaths e)[i := stackTracePaths src ! i],
     stackTraceLines := (stackTraceLines e)[i := stackTraceLines src ! i]\<rparr>"

lemma at_lstr:
  assumes "at b n (lstr t @ rest)" "length t < 256"
  shows "idx b (unat (word_of_nat n :: u16)) = Some (word_of_nat (length t))"
    "sub_slice b (unat (word_of_nat (n + 1) :: u16)) (unat (word_of_nat (n + 1 + length t) :: u16)) = Some t"
    "(ucast (word_of_nat (length t) :: byte) :: u16) = word_of_nat (length t)"
    "at b (n + 1 + length t) rest" "n + 1 + length t + length rest = sl_len b" "sl_len b < 65536"
proof -
  have start: "at b n (word_of_nat (length t) # t @ rest)"
    using assms(1) by (simp add: lstr_def)
  then have next1: "at b (n + 1) (t @ rest)" using at_Cons by fastforce
  show "idx b (unat (word_of_nat n :: u16)) = Some (word_of_nat (length t))"
    using start by (rule at_idx)
  show "sub_slice b (unat (word_of_nat (n + 1) :: u16)) (unat (word_of_nat (n + 1 + length t) :: u16)) = Some t"
    using next1 by (rule at_sub_slice) simp
  show "(ucast (word_of_nat (length t) :: byte) :: u16) = word_of_nat (length t)"
    using assms(2) by (rule pos_of_byte)
  show "at b (n + 1 + length t) rest" using next1 by (rule at_append)
  then show "n + 1 + length t + length rest = sl_len b" "sl_len b < 65536"
    by (simp_all add: at_def)
qed

interpretation tag_reader: counted_items dec_tags "\<lambda>e i. lstr (tags e ! i)" store_tag
  "\<lambda>e i. length (tags e ! i) < 256" "\<lambda>_ _ _. True"
proof unfold_locales
  fix b n i rest us "is" and src e :: Entry
  assume "at b n (lstr (tags src ! i) @ rest)" and "length (tags src ! i) < 256"
  note step = at_lstr [OF this]
  show "dec_tags us b (word_of_nat (sl_len b)) (i # is) e (word_of_nat n)
    = dec_tags us b (word_of_nat (sl_len b)) is (store_tag src i e)
        (word_of_nat (n + length (lstr (tags src ! i))))"
    using step by (simp add: pos_simps store_tag_def Let_def del: of_nat_add of_nat_Suc)
qed (simp_all add: lstr_def)

lemma sub_slice_at:
  "at b n (be16 v @ rest) \<Longrightarrow> sub_slice b (unat (word_of_nat n :: u16)) (unat (word_of_nat (n + 2) :: u16)) = Some (be16 v)"
  "at b n (be32 w @ rest) \<Longrightarrow> sub_slice b (unat (word_of_nat n :: u16)) (unat (word_of_nat (n + 4) :: u16)) = Some (be32 w)"
  by (rule at_sub_slice, assumption, simp)+

lemma Uint_be [simp]: "Uint16 (be16 v) = Some v" "Uint32 (be32 w) = Some w"
  using Uint16_be16 [of v "[]"] Uint32_be32 [of w "[]"] by simp_all

interpretation trace_reader: counted_items dec_trace trace_item store_trace
  "\<lambda>e i. length (stackTracePaths e ! i) < 256" "\<lambda>_ _ _. True"
proof unfold_locales
  fix b n i rest us "is" and src e :: Entry
  assume "at b n (trace_item src i @ rest)" and fits: "length (stackTracePaths src ! i) < 256"
  then have "at b n (lstr (stackTracePaths src ! i) @ be16 (stackTraceLines src ! i) @ rest)"
    by (simp add: trace_item_def)
  note step = at_lstr [OF this fits]
  show "dec_trace us b (word_of_nat (sl_len b)) (i # is) e (word_of_nat n)
    = dec_trace us b (word_of_nat (sl_len b)) is (store_trace src i e)
        (word_of_nat (n + length (trace_item src i)))"
    using step sub_slice_at(1) [OF step(4)]
    by (simp add: pos_simps store_trace_def trace_item_def Let_def del: of_nat_add of_nat_Suc)
qed (simp_all add: trace_item_def lstr_def)

interpretation metric_reader: counted_items dec_metrics metric_item store_metric
  "\<lambda>e i. length (metricKeys e ! i) < 256" "\<lambda>_ _ _. True"
proof unfold_locales
  fix b n i rest us "is" and src e :: Entry
  assume "at b n (metric_item src i @ rest)" and fits: "length (metricKeys src ! i) < 256"
  then have "at b n (lstr (metricKeys src ! i) @ be32 (metricValues src ! i) @ rest)"
    by (simp add: metric_item_def)
  note step = at_lstr [OF this fits]
  show "dec_metrics us b (word_of_nat (sl_len b)) (i # is) e (word_of_nat n)
    = dec_metrics us b (word_of_nat (sl_len b)) is (store_metric src i e)
        (word_of_nat (n + length (metric_item src i)))"
    using step sub_slice_at(2) [OF step(4)]
    by (simp add: pos_simps store_metric_def metric_item_def Let_def add.left_commute [of n] del: of_nat_add of_nat_Suc)
qed (simp_all add: metric_item_def lstr_def)

text \<open>
  The meta loop tests \<^verbatim>\<open>s+size+2 >= total\<close> where the others test \<^verbatim>\<open>>\<close>: it needs a byte
  after the two length bytes of the value, so an empty value must not end the entry.
\<close>

interpretation meta_reader: counted_items dec_meta meta_item store_meta
  "\<lambda>e i. length (metaKeys e ! i) < 256 \<and> length (metaValues e ! i) < 65536"
  "\<lambda>e i rest. metaValues e ! i \<noteq> [] \<or> rest \<noteq> []"
proof unfold_locales
  fix b n i rest us "is" and src e :: Entry
  let ?v = "metaValues src ! i"
  assume "at b n (meta_item src i @ rest)" and more: "?v \<noteq> [] \<or> rest \<noteq> []"
    and fits: "length (metaKeys src ! i) < 256 \<and> length ?v < 65536"
  then have "at b n (lstr (metaKeys src ! i) @ be16 (word_of_nat (length ?v)) @ ?v @ rest)"
    by (simp add: meta_item_def)
  note step = at_lstr [OF this conjunct1 [OF fits]]
  have value_at: "at b (n + 1 + length (metaKeys src ! i) + 2) (?v @ rest)"
    using at_append [OF step(4)] by simp
  note read_value = at_sub_slice [OF value_at refl]
  have "n + 1 + length (metaKeys src ! i) + 2 < sl_len b"
  proof -
    have "0 < length ?v + length rest" using more by auto
    moreover have "n + 1 + length (metaKeys src ! i) + 2 + (length ?v + length rest) = sl_len b"
      using step(5) by simp
    ultimately show ?thesis by linarith
  qed
  then show "dec_meta us b (word_of_nat (sl_len b)) (i # is) e (word_of_nat n)
    = dec_meta us b (word_of_nat (sl_len b)) is (store_meta src i e)
        (word_of_nat (n + length (meta_item src i)))"
    using step sub_slice_at(1) [OF step(4)] read_value
    by (simp add: pos_simps store_meta_def meta_item_def Let_def add.assoc [of n] del: of_nat_add of_nat_Suc)
qed (simp_all add: meta_item_def lstr_def)

end
