(* ===== verification/Entry_Reader.thy ===== *)
theory Entry_Reader
  imports Entry_Data
begin

text \<open>
  \<^verbatim>\<open>entry_reader.go\<close>: the read-only view of an entry. The accessors that slice an array up to
  a counter panic when the counter is past the array, so they return an option.
  \<^verbatim>\<open>Time\<close> calls \<^verbatim>\<open>xid.ID.Time\<close> of another module, the parameter \<open>idTime\<close>.
\<close>

definition array_upto :: "'a list \<Rightarrow> nat \<Rightarrow> 'a list option" where
  \<comment> \<open>\<^verbatim>\<open>a[:n]\<close> of an array\<close>
  "array_upto xs n = (if n \<le> length xs then Some (take n xs) else None)"

definition Reader_Bucket :: "Entry \<Rightarrow> u32" where "Reader_Bucket e = bucketId e"
definition Reader_Id :: "Entry \<Rightarrow> xid" where "Reader_Id e = eid e"
definition Reader_Msg :: "Entry \<Rightarrow> gostring" where "Reader_Msg e = message e"
definition Reader_Sev :: "Entry \<Rightarrow> Severity" where "Reader_Sev e = severity e"
definition Reader_Time :: "(xid \<Rightarrow> 't) \<Rightarrow> Entry \<Rightarrow> 't" where "Reader_Time idTime e = idTime (eid e)"
definition Reader_Cat :: "Entry \<Rightarrow> byte" where "Reader_Cat e = categoryId e"
definition Reader_TTL :: "Entry \<Rightarrow> u16" where "Reader_TTL e = ttlEntry e"
definition Reader_MetaTTL :: "Entry \<Rightarrow> u16" where "Reader_MetaTTL e = ttlMeta e"

definition Reader_Tags :: "Entry \<Rightarrow> gostring list option" where
  "Reader_Tags e = array_upto (tags e) (tagsCount e)"

definition Reader_Meta :: "Entry \<Rightarrow> (gostring list \<times> gostring list) option" where
  "Reader_Meta e = do {
     ks \<leftarrow> array_upto (metaKeys e) (metaCount e);
     vs \<leftarrow> array_upto (metaValues e) (metaCount e);
     Some (ks, vs) }"

definition Reader_Metrics :: "Entry \<Rightarrow> (gostring list \<times> u32 list) option" where
  "Reader_Metrics e = do {
     ks \<leftarrow> array_upto (metricKeys e) (metricCount e);
     vs \<leftarrow> array_upto (metricValues e) (metricCount e);
     Some (ks, vs) }"

definition Reader_Trace :: "Entry \<Rightarrow> (gostring list \<times> u16 list) option" where
  "Reader_Trace e = do {
     ps \<leftarrow> array_upto (stackTracePaths e) (stackTraceCount e);
     ns \<leftarrow> array_upto (stackTraceLines e) (stackTraceCount e);
     Some (ps, ns) }"

definition Reader_HasId :: "Entry \<Rightarrow> bool" where "Reader_HasId e \<longleftrightarrow> eid e \<noteq> nilId"
definition Reader_HasTags :: "Entry \<Rightarrow> bool" where "Reader_HasTags e \<longleftrightarrow> tagsCount e \<noteq> 0"
definition Reader_HasCat :: "Entry \<Rightarrow> bool" where "Reader_HasCat e \<longleftrightarrow> categoryId e \<noteq> 0"
definition Reader_HasMeta :: "Entry \<Rightarrow> bool" where "Reader_HasMeta e \<longleftrightarrow> metaCount e \<noteq> 0"
definition Reader_HasMetrics :: "Entry \<Rightarrow> bool" where "Reader_HasMetrics e \<longleftrightarrow> metricCount e \<noteq> 0"
definition Reader_HasTrace :: "Entry \<Rightarrow> bool" where "Reader_HasTrace e \<longleftrightarrow> stackTraceCount e \<noteq> 0"
definition Reader_FullTags :: "Entry \<Rightarrow> bool" where "Reader_FullTags e \<longleftrightarrow> tagsCount e = MaxTagsCount"
definition Reader_FullMeta :: "Entry \<Rightarrow> bool" where "Reader_FullMeta e \<longleftrightarrow> metaCount e = MaxMetaCount"
definition Reader_FullMetrics :: "Entry \<Rightarrow> bool" where
  "Reader_FullMetrics e \<longleftrightarrow> metricCount e \<noteq> MaxMetricCount"

lemmas reader_defs = Reader_Bucket_def Reader_Id_def Reader_Msg_def Reader_Sev_def Reader_Cat_def
  Reader_TTL_def Reader_MetaTTL_def Reader_Tags_def Reader_Meta_def Reader_Metrics_def Reader_Trace_def

lemma readers_total:
  assumes "entry_shape e" "counts_ok e"
  shows "Reader_Tags e = Some (take (tagsCount e) (tags e))"
    "Reader_Meta e = Some (take (metaCount e) (metaKeys e), take (metaCount e) (metaValues e))"
    "Reader_Metrics e = Some (take (metricCount e) (metricKeys e), take (metricCount e) (metricValues e))"
    "Reader_Trace e = Some (take (stackTraceCount e) (stackTracePaths e), take (stackTraceCount e) (stackTraceLines e))"
  using assms by (simp_all add: reader_defs array_upto_def counts_ok_def entry_shapeD)

end
