(* ===== verification/Entry_Wire.thy ===== *)
theory Entry_Wire
  imports Entry_Decode Entry_Reader
begin

text \<open>
  The wire format: the bytes of an entry that fits \<open>MaxEntrySize\<close>, without reference to
  positions, and the round trip of encoder and decoder over them.
\<close>

definition counted :: "byte list list \<Rightarrow> byte list" where
  "counted items = word_of_nat (length items) # concat items"

definition plain_level :: "Entry \<Rightarrow> nat \<Rightarrow> byte list" where
  "plain_level e l =
    (if l = L_BucketId then be32 (bucketId e)
     else if l = L_EntryId then eid e
     else if l = L_Severity then [severity e]
     else if l = L_Message then lstr (message e)
     else if l = L_CategoryId then [categoryId e]
     else if l = L_Tags then counted (map (\<lambda>i. lstr (tags e ! i)) [0..<tagsCount e])
     else if l = L_Metric then counted (map (metric_item e) [0..<metricCount e])
     else if l = L_Meta then counted (map (meta_item e) [0..<metaCount e])
     else if l = L_Stack_trace then counted (map (trace_item e) [0..<stackTraceCount e])
     else if l = L_TTL_Entry then be16 (ttlEntry e)
     else if l = L_TTL_Meta then be16 (ttlMeta e)
     else [])"

definition wire_body :: "Entry \<Rightarrow> byte list" where
  "wire_body e = concat (map (plain_level e) [0..<Suc (level e)])"

definition wire_bytes :: "Entry \<Rightarrow> byte list" where
  "wire_bytes e = be16 (word_of_nat (2 + length (wire_body e))) @ wire_body e"

lemma length_wire_bytes: "length (wire_bytes e) = 2 + length (wire_body e)"
  by (simp add: wire_bytes_def)

subsection \<open>Nothing is cut off while the entry fits\<close>

lemma fit_all: "s + length (concat xs) \<le> MaxEntrySize \<Longrightarrow> fit s xs = xs"
  by (induction xs arbitrary: s) auto

lemma capped_counted: "s + length (counted xs) \<le> MaxEntrySize \<Longrightarrow> capped s xs = counted xs"
  by (simp add: capped_def counted_def fit_all)

lemma ref_level_plain:
  "s + length (plain_level e l) \<le> MaxEntrySize \<Longrightarrow> ref_level e l s = plain_level e l"
  by (auto simp: ref_level_def plain_level_def capped_counted split: if_splits) (simp add: counted_def)

lemma ref_body_plain:
  "s + length (concat (map (plain_level e) ls)) \<le> MaxEntrySize
    \<Longrightarrow> ref_body e ls s = concat (map (plain_level e) ls)"
  by (induction ls arbitrary: s) (simp_all add: ref_level_plain)

lemma ref_bytes_wire: "length (wire_bytes e) \<le> MaxEntrySize \<Longrightarrow> ref_bytes e = wire_bytes e"
  by (simp add: ref_bytes_def wire_bytes_def wire_body_def ref_body_plain Let_def)

lemma Encode_wire:
  assumes "enc_ready e" "length (wire_bytes e) \<le> MaxEntrySize" "length (wire_bytes e) \<le> length b"
  shows "Entry_Encode e b = Some (wire_bytes e @ drop (length (wire_bytes e)) b, length (wire_bytes e))"
  using assms Encode_ref [of e b] by (simp add: ref_bytes_wire)

subsection \<open>Decoding one level\<close>

definition store_level :: "Entry \<Rightarrow> nat \<Rightarrow> Entry \<Rightarrow> Entry" where
  \<comment> \<open>\<open>e\<close> with the fields of level \<open>l\<close> taken from \<open>src\<close>\<close>
  "store_level src l e =
    (if l = L_BucketId then e\<lparr>bucketId := bucketId src\<rparr>
     else if l = L_EntryId then e\<lparr>eid := eid src\<rparr>
     else if l = L_Severity then e\<lparr>severity := severity src\<rparr>
     else if l = L_Message then e\<lparr>message := message src\<rparr>
     else if l = L_CategoryId then e\<lparr>categoryId := categoryId src\<rparr>
     else if l = L_Tags then fold (store_tag src) [0..<tagsCount src] (e\<lparr>tagsCount := tagsCount src\<rparr>)
     else if l = L_Metric then fold (store_metric src) [0..<metricCount src] (e\<lparr>metricCount := metricCount src\<rparr>)
     else if l = L_Meta then fold (store_meta src) [0..<metaCount src] (e\<lparr>metaCount := metaCount src\<rparr>)
     else if l = L_Stack_trace then
       fold (store_trace src) [0..<stackTraceCount src] (e\<lparr>stackTraceCount := stackTraceCount src\<rparr>)
     else if l = L_TTL_Entry then e\<lparr>ttlEntry := ttlEntry src\<rparr>
     else if l = L_TTL_Meta then e\<lparr>ttlMeta := ttlMeta src\<rparr>
     else e)"

definition wire_ok :: "Entry \<Rightarrow> bool" where
  \<comment> \<open>what the decoder needs of the entry that was encoded\<close>
  "wire_ok e \<longleftrightarrow> entry_shape e \<and> counts_ok e \<and> strings_ok e \<and>
     (\<forall>i < stackTraceCount e. length (stackTracePaths e ! i) \<le> 255) \<and>
     (level e = L_Meta \<longrightarrow> 0 < metaCount e \<longrightarrow> metaValues e ! (metaCount e - 1) \<noteq> [])"

lemma wire_okD:
  assumes "wire_ok e"
  shows "tagsCount e \<le> 8" "metricCount e \<le> 32" "metaCount e \<le> 32" "stackTraceCount e \<le> 16"
    "length (message e) < 256" "length (eid e) = 12"
    "i < tagsCount e \<Longrightarrow> length (tags e ! i) < 256"
    "i < metricCount e \<Longrightarrow> length (metricKeys e ! i) < 256"
    "i < metaCount e \<Longrightarrow> length (metaKeys e ! i) < 256 \<and> length (metaValues e ! i) < 65536"
    "i < stackTraceCount e \<Longrightarrow> length (stackTracePaths e ! i) < 256"
    "level e = L_Meta \<Longrightarrow> 0 < metaCount e \<Longrightarrow> metaValues e ! (metaCount e - 1) \<noteq> []"
  using assms unfolding wire_ok_def counts_ok_def strings_ok_def entry_shape_def
  by (auto simp: less_Suc_eq_le)

text \<open>The count byte of a section and the loop that reads its items.\<close>

lemma at_counted:
  assumes "at b n (counted items @ rest)" "length items < 256"
  shows "idx b (unat (word_of_nat n :: u16)) = Some (word_of_nat (length items))"
    "unat (word_of_nat (length items) :: byte) = length items"
    "at b (n + 1) (concat items @ rest)"
proof -
  have start: "at b n (word_of_nat (length items) # concat items @ rest)"
    using assms(1) by (simp add: counted_def)
  show "idx b (unat (word_of_nat n :: u16)) = Some (word_of_nat (length items))"
    using start by (rule at_idx)
  show "unat (word_of_nat (length items) :: byte) = length items"
    using assms(2) by (rule unat_byte_length)
  show "at b (n + 1) (concat items @ rest)"
    using at_Cons [OF start] by simp
qed

lemma last_upt [simp]: "0 < n \<Longrightarrow> last [0..<n] = n - (1::nat)"
  by (cases n) simp_all

lemma dec_level_tags:
  assumes "at b n (plain_level src L_Tags @ rest)" "wire_ok src"
  shows "dec_level f us b (word_of_nat (sl_len b)) L_Tags e (word_of_nat n) =
    Some (Continue (store_level src L_Tags e) (word_of_nat (n + length (plain_level src L_Tags))))"
proof -
  have bytes: "at b n (counted (map (\<lambda>i. lstr (tags src ! i)) [0..<tagsCount src]) @ rest)"
    using assms(1) by (simp add: plain_level_def)
  note head = at_counted [OF bytes]
  have "tagsCount src \<le> 8" using assms(2) by (rule wire_okD)
  with head wire_okD(7) [OF assms(2)] show ?thesis
    using tag_reader.loop_reads [OF head(3), of us "e\<lparr>tagsCount := tagsCount src\<rparr>"]
    by (simp add: dec_level_def store_level_def plain_level_def counted_def pos_simps
        del: of_nat_add of_nat_Suc)
qed

lemma dec_level_metrics:
  assumes "at b n (plain_level src L_Metric @ rest)" "wire_ok src"
  shows "dec_level f us b (word_of_nat (sl_len b)) L_Metric e (word_of_nat n) =
    Some (Continue (store_level src L_Metric e) (word_of_nat (n + length (plain_level src L_Metric))))"
proof -
  have bytes: "at b n (counted (map (metric_item src) [0..<metricCount src]) @ rest)"
    using assms(1) by (simp add: plain_level_def)
  note head = at_counted [OF bytes]
  have "metricCount src \<le> 32" using assms(2) by (rule wire_okD)
  with head wire_okD(8) [OF assms(2)] show ?thesis
    using metric_reader.loop_reads [OF head(3), of us "e\<lparr>metricCount := metricCount src\<rparr>"]
    by (simp add: dec_level_def store_level_def plain_level_def counted_def pos_simps
        del: of_nat_add of_nat_Suc)
qed

lemma dec_level_meta:
  assumes "at b n (plain_level src L_Meta @ rest)" "wire_ok src"
    and tail: "rest = [] \<Longrightarrow> level src = L_Meta"
  shows "dec_level f us b (word_of_nat (sl_len b)) L_Meta e (word_of_nat n) =
    Some (Continue (store_level src L_Meta e) (word_of_nat (n + length (plain_level src L_Meta))))"
proof -
  have bytes: "at b n (counted (map (meta_item src) [0..<metaCount src]) @ rest)"
    using assms(1) by (simp add: plain_level_def)
  note head = at_counted [OF bytes]
  have "0 < metaCount src \<Longrightarrow> metaValues src ! (metaCount src - 1) \<noteq> [] \<or> rest \<noteq> []"
    using wire_okD(11) [OF assms(2)] tail by blast
  moreover have "metaCount src \<le> 32" using assms(2) by (rule wire_okD)
  ultimately show ?thesis
    using meta_reader.loop_reads [OF head(3), of us "e\<lparr>metaCount := metaCount src\<rparr>"]
      head wire_okD(9) [OF assms(2)]
    by (simp add: dec_level_def store_level_def plain_level_def counted_def pos_simps
        del: of_nat_add of_nat_Suc)
qed

lemma dec_level_trace:
  assumes "at b n (plain_level src L_Stack_trace @ rest)" "wire_ok src"
  shows "dec_level f us b (word_of_nat (sl_len b)) L_Stack_trace e (word_of_nat n) =
    Some (Continue (store_level src L_Stack_trace e) (word_of_nat (n + length (plain_level src L_Stack_trace))))"
proof -
  have bytes: "at b n (counted (map (trace_item src) [0..<stackTraceCount src]) @ rest)"
    using assms(1) by (simp add: plain_level_def)
  note head = at_counted [OF bytes]
  have "stackTraceCount src \<le> 16" using assms(2) by (rule wire_okD)
  with head wire_okD(10) [OF assms(2)] show ?thesis
    using trace_reader.loop_reads [OF head(3), of us "e\<lparr>stackTraceCount := stackTraceCount src\<rparr>"]
    by (simp add: dec_level_def store_level_def plain_level_def counted_def pos_simps
        del: of_nat_add of_nat_Suc)
qed

lemma dec_level_fixed:
  assumes "at b n (plain_level src l @ rest)" "wire_ok src" "fromBytes_ok f"
    and "l \<in> {L_BucketId, L_EntryId, L_Severity, L_Message, L_CategoryId, L_TTL_Entry, L_TTL_Meta}"
  shows "dec_level f us b (word_of_nat (sl_len b)) l e (word_of_nat n) =
    Some (Continue (store_level src l e) (word_of_nat (n + length (plain_level src l))))"
proof -
  have bound: "n + length (plain_level src l @ rest) = sl_len b" "sl_len b < 65536"
    using assms(1) by (simp_all add: at_def)
  consider "l = L_BucketId" | "l = L_EntryId" | "l = L_Severity" | "l = L_Message"
    | "l = L_CategoryId" | "l = L_TTL_Entry" | "l = L_TTL_Meta" using assms(4) by blast
  then show ?thesis
  proof cases
    case 1
    with assms(1) show ?thesis
      by (simp add: dec_level_def store_level_def plain_level_def at_slice_from pos_num del: of_nat_add)
  next
    case 2
    moreover have "length (eid src) = 12" using assms(2) by (rule wire_okD)
    moreover note at_sub_slice [of b n "eid src" rest "n + 12"]
    ultimately show ?thesis
      using assms(1,3)
      by (simp add: dec_level_def store_level_def plain_level_def pos_num fromBytes_ok_def del: of_nat_add)
  next
    case 4
    with assms(1) have "at b n (lstr (message src) @ rest)" by (simp add: plain_level_def)
    note step = at_lstr [OF this wire_okD(5) [OF assms(2)]]
    with 4 bound show ?thesis
      by (simp add: dec_level_def store_level_def plain_level_def pos_simps Let_def del: of_nat_add of_nat_Suc)
  next
    case 6
    with assms(1) bound at_slice_from [OF assms(1)] show ?thesis
      by (simp add: dec_level_def store_level_def plain_level_def pos_simps del: of_nat_add of_nat_Suc)
  next
    case 7
    with assms(1) show ?thesis
      by (simp add: dec_level_def store_level_def plain_level_def at_slice_from pos_num del: of_nat_add)
  qed (use assms(1) in \<open>simp_all add: dec_level_def store_level_def plain_level_def at_idx pos_num del: of_nat_add\<close>)
qed

lemma dec_level_plain:
  assumes "at b n (plain_level src l @ rest)" "wire_ok src" "fromBytes_ok f" "l < End_Level"
    and "rest = [] \<Longrightarrow> level src = l"
  shows "dec_level f us b (word_of_nat (sl_len b)) l e (word_of_nat n) =
    Some (Continue (store_level src l e) (word_of_nat (n + length (plain_level src l))))"
proof -
  consider "l = L_Tags" | "l = L_Metric" | "l = L_Meta" | "l = L_Stack_trace"
    | "l \<in> {L_BucketId, L_EntryId, L_Severity, L_Message, L_CategoryId, L_TTL_Entry, L_TTL_Meta}"
    using assms(4) by atomize_elim (simp, presburger)
  then show ?thesis
  proof cases
    case 1
    with assms(1,2) show ?thesis by (simp only: dec_level_tags)
  next
    case 2
    with assms(1,2) show ?thesis by (simp only: dec_level_metrics)
  next
    case 3
    with assms(1,2,5) show ?thesis by (simp only: dec_level_meta)
  next
    case 4
    with assms(1,2) show ?thesis by (simp only: dec_level_trace)
  next
    case 5
    with assms(1-3) show ?thesis by (rule dec_level_fixed)
  qed
qed

subsection \<open>Decoding a whole entry\<close>

definition transfer :: "Entry \<Rightarrow> nat list \<Rightarrow> Entry \<Rightarrow> Entry" where
  "transfer src ls e = fold (\<lambda>l e. store_level src l (e\<lparr>level := l\<rparr>)) ls e"

lemma plain_level_nonempty: "wire_ok e \<Longrightarrow> l < End_Level \<Longrightarrow> plain_level e l \<noteq> []"
  using wire_okD(6) [of e]
  by (auto simp: plain_level_def counted_def lstr_def be16_def be32_def) presburger

lemma dec_loop_plain:
  assumes "at b n (concat (map (plain_level src) [l..<Suc (level src)]))" "l \<le> level src"
    "level src < End_Level" "wire_ok src" "fromBytes_ok f"
  shows "dec_loop f us b (word_of_nat (sl_len b)) [l..<End_Level] e (word_of_nat n) =
    Some (BreakLoop (transfer src [l..<Suc (level src)] e) (word_of_nat (sl_len b)))"
  using assms
proof (induction "level src - l" arbitrary: l n e)
  case 0
  then have l: "level src = l" by simp
  with "0.prems"(1) have here: "at b n (plain_level src l @ [])" by simp
  then have "sl_len b = n + length (plain_level src l)" by (simp add: at_def)
  moreover have "[l..<End_Level] = l # [Suc l..<End_Level]" using "0.prems"(3) l
    by (simp add: upt_conv_Cons del: upt_Suc)
  moreover note dec_level_plain [OF here \<open>wire_ok src\<close> \<open>fromBytes_ok f\<close>]
  ultimately show ?case
    using l "0.prems"(3) by (simp add: transfer_def del: of_nat_add upt_rec_numeral)
next
  case (Suc d)
  let ?rest = "concat (map (plain_level src) [Suc l..<Suc (level src)])"
  have l: "l < level src" using Suc.hyps(2) by simp
  then have split: "[l..<Suc (level src)] = l # [Suc l..<Suc (level src)]"
    by (simp add: upt_conv_Cons del: upt_Suc)
  have here: "at b n (plain_level src l @ ?rest)"
    using Suc.prems(1) unfolding split by simp
  have more: "?rest \<noteq> []"
    using l plain_level_nonempty [OF \<open>wire_ok src\<close>, of "level src"] Suc.prems(3) by simp
  have next_at: "at b (n + length (plain_level src l)) ?rest" using here by (rule at_append)
  then have "n + length (plain_level src l) < sl_len b" "sl_len b < 65536"
    using more at_less by blast+
  then have "\<not> (word_of_nat (sl_len b) :: u16) \<le> word_of_nat (n + length (plain_level src l))"
    by (simp add: pos_simps del: of_nat_add)
  moreover have "dec_level f us b (word_of_nat (sl_len b)) l (e\<lparr>level := l\<rparr>) (word_of_nat n) =
      Some (Continue (store_level src l (e\<lparr>level := l\<rparr>)) (word_of_nat (n + length (plain_level src l))))"
    by (rule dec_level_plain [OF here \<open>wire_ok src\<close> \<open>fromBytes_ok f\<close>]) (use more l Suc.prems(3) in auto)
  moreover have "dec_loop f us b (word_of_nat (sl_len b)) [Suc l..<End_Level] e'
        (word_of_nat (n + length (plain_level src l))) =
      Some (BreakLoop (transfer src [Suc l..<Suc (level src)] e') (word_of_nat (sl_len b)))" for e'
    using Suc.hyps(2) Suc.prems l next_at by (intro Suc.hyps(1)) simp_all
  moreover have "[l..<End_Level] = l # [Suc l..<End_Level]"
    using l Suc.prems(3) by (simp add: upt_conv_Cons del: upt_Suc)
  ultimately show ?case
    by (simp add: split transfer_def del: upt_Suc of_nat_add upt_rec_numeral)
qed

lemma at_wire:
  assumes "sl_bytes b = wire_bytes e" "slice_ok b" "length (wire_bytes e) < 65536"
  shows "at b 2 (wire_body e)" "sl_len b = length (wire_bytes e)"
proof -
  show "sl_len b = length (wire_bytes e)"
    using assms(1,2) by (metis length_sl_bytes)
  then show "at b 2 (wire_body e)"
    using assms by (simp add: at_def wire_bytes_def be16_def)
qed

lemma wire_body_min: "wire_ok e \<Longrightarrow> 1 \<le> level e \<Longrightarrow> 16 \<le> length (wire_body e)"
proof -
  assume "wire_ok e" "1 \<le> level e"
  then have "[0..<Suc (level e)] = 0 # 1 # [2..<Suc (level e)]"
    by (simp add: upt_conv_Cons numeral_2_eq_2 del: upt_Suc)
  with \<open>wire_ok e\<close> show ?thesis
    by (simp add: wire_body_def plain_level_def wire_okD(6))
qed

lemma Decode_wire:
  assumes "wire_ok src" "1 \<le> level src" "level src < End_Level" "fromBytes_ok f"
    and "slice_ok b" "sl_bytes b = wire_bytes src" "length (wire_bytes src) < 65536"
  shows "Entry_Decode f e0 b nc = Some (transfer src [0..<Suc (level src)] (Entry_Reset e0), None)"
proof -
  note pos = at_wire [OF assms(6,5,7)]
  have long: "18 \<le> sl_len b"
    using wire_body_min [OF assms(1,2)] pos(2) by (simp add: length_wire_bytes)
  have head: "slice_from b 0 = Some (wire_bytes src)"
    using assms(5,6) by (simp add: slice_from_sl_bytes)
  have size: "Uint16 (wire_bytes src) = Some (word_of_nat (sl_len b))"
    using pos(2) by (simp add: length_wire_bytes) (simp add: wire_bytes_def)
  have "dec_loop f us b (word_of_nat (sl_len b)) [0..<End_Level] e (word_of_nat 2) =
      Some (BreakLoop (transfer src [0..<Suc (level src)] e) (word_of_nat (sl_len b)))" for us e
    using pos(1) assms by (intro dec_loop_plain) (simp_all add: wire_body_def)
  then show ?thesis
    using long head size by (simp add: Entry_Decode_def dec_finish_def Let_def del: upt_Suc)
qed

subsection \<open>What the receiver sees\<close>

lemma fold_store_tag:
  "k \<le> length (tags src) \<Longrightarrow> length (tags e) = length (tags src) \<Longrightarrow>
    fold (store_tag src) [0..<k] e = e\<lparr>tags := take k (tags src) @ drop k (tags e)\<rparr>"
  by (induction k)
    (simp_all add: store_tag_def list_update_append take_Suc_conv_app_nth Cons_nth_drop_Suc [symmetric])

lemma fold_store_metric:
  "k \<le> n \<Longrightarrow> length (metricKeys src) = n \<Longrightarrow> length (metricKeys e) = n \<Longrightarrow>
    length (metricValues src) = n \<Longrightarrow> length (metricValues e) = n \<Longrightarrow>
    fold (store_metric src) [0..<k] e = e\<lparr>metricKeys := take k (metricKeys src) @ drop k (metricKeys e),
      metricValues := take k (metricValues src) @ drop k (metricValues e)\<rparr>"
  by (induction k)
    (simp_all add: store_metric_def list_update_append take_Suc_conv_app_nth Cons_nth_drop_Suc [symmetric])

lemma fold_store_meta:
  "k \<le> n \<Longrightarrow> length (metaKeys src) = n \<Longrightarrow> length (metaKeys e) = n \<Longrightarrow>
    length (metaValues src) = n \<Longrightarrow> length (metaValues e) = n \<Longrightarrow>
    fold (store_meta src) [0..<k] e = e\<lparr>metaKeys := take k (metaKeys src) @ drop k (metaKeys e),
      metaValues := take k (metaValues src) @ drop k (metaValues e)\<rparr>"
  by (induction k)
    (simp_all add: store_meta_def list_update_append take_Suc_conv_app_nth Cons_nth_drop_Suc [symmetric])

lemma fold_store_trace:
  "k \<le> n \<Longrightarrow> length (stackTracePaths src) = n \<Longrightarrow> length (stackTracePaths e) = n \<Longrightarrow>
    length (stackTraceLines src) = n \<Longrightarrow> length (stackTraceLines e) = n \<Longrightarrow>
    fold (store_trace src) [0..<k] e = e\<lparr>stackTracePaths := take k (stackTracePaths src) @ drop k (stackTracePaths e),
      stackTraceLines := take k (stackTraceLines src) @ drop k (stackTraceLines e)\<rparr>"
  by (induction k)
    (simp_all add: store_trace_def list_update_append take_Suc_conv_app_nth Cons_nth_drop_Suc [symmetric])

lemma store_level_eqs:
  assumes "entry_shape src" "counts_ok src" "entry_shape e"
  shows "store_level src L_Tags e =
      e\<lparr>tagsCount := tagsCount src, tags := take (tagsCount src) (tags src) @ drop (tagsCount src) (tags e)\<rparr>"
    "store_level src L_Metric e = e\<lparr>metricCount := metricCount src,
      metricKeys := take (metricCount src) (metricKeys src) @ drop (metricCount src) (metricKeys e),
      metricValues := take (metricCount src) (metricValues src) @ drop (metricCount src) (metricValues e)\<rparr>"
    "store_level src L_Meta e = e\<lparr>metaCount := metaCount src,
      metaKeys := take (metaCount src) (metaKeys src) @ drop (metaCount src) (metaKeys e),
      metaValues := take (metaCount src) (metaValues src) @ drop (metaCount src) (metaValues e)\<rparr>"
    "store_level src L_Stack_trace e = e\<lparr>stackTraceCount := stackTraceCount src,
      stackTracePaths := take (stackTraceCount src) (stackTracePaths src) @ drop (stackTraceCount src) (stackTracePaths e),
      stackTraceLines := take (stackTraceCount src) (stackTraceLines src) @ drop (stackTraceCount src) (stackTraceLines e)\<rparr>"
  using entry_shapeD [OF assms(1)] entry_shapeD [OF assms(3)] assms(2)
  by (simp_all add: store_level_def counts_ok_def fold_store_tag fold_store_metric [where n = 32]
      fold_store_meta [where n = 32] fold_store_trace [where n = 16])

lemma level_shape [simp]: "entry_shape (e\<lparr>level := l\<rparr>) = entry_shape e"
  by (simp add: entry_shape_def)

lemma store_level_shape:
  assumes "entry_shape src" "counts_ok src" "entry_shape e"
  shows "entry_shape (store_level src l e)"
proof (cases "l \<in> {L_Tags, L_Metric, L_Meta, L_Stack_trace}")
  case True
  with assms show ?thesis
    by (auto simp: store_level_eqs) (simp_all add: entry_shape_def counts_ok_def)
next
  case False
  with assms show ?thesis
    by (auto simp: store_level_def) (simp_all add: entry_shape_def)
qed

text \<open>A field that one level sets and the others leave alone, after all levels are stored.\<close>

lemma transfer_field:
  assumes "entry_shape src" "counts_ok src" "entry_shape e"
    and field: "\<And>l e. entry_shape e \<Longrightarrow> F (store_level src l (e\<lparr>level := l\<rparr>)) = (if l = k then v else F e)"
  shows "F (transfer src ls e) = (if k \<in> set ls then v else F e)"
  using assms(3)
proof (induction ls arbitrary: e)
  case (Cons l ls)
  have "entry_shape (store_level src l (e\<lparr>level := l\<rparr>))"
    using assms(1,2) Cons.prems by (intro store_level_shape) simp_all
  from Cons.IH [OF this] field [OF Cons.prems] show ?case
    by (auto simp: transfer_def)
qed (simp add: transfer_def)

lemma store_level_closed:
  assumes "entry_shape src" "counts_ok src" "entry_shape e"
  shows "store_level src l e =
    (if l = L_BucketId then e\<lparr>bucketId := bucketId src\<rparr>
     else if l = L_EntryId then e\<lparr>eid := eid src\<rparr>
     else if l = L_Severity then e\<lparr>severity := severity src\<rparr>
     else if l = L_Message then e\<lparr>message := message src\<rparr>
     else if l = L_CategoryId then e\<lparr>categoryId := categoryId src\<rparr>
     else if l = L_Tags then e\<lparr>tagsCount := tagsCount src,
       tags := take (tagsCount src) (tags src) @ drop (tagsCount src) (tags e)\<rparr>
     else if l = L_Metric then e\<lparr>metricCount := metricCount src,
       metricKeys := take (metricCount src) (metricKeys src) @ drop (metricCount src) (metricKeys e),
       metricValues := take (metricCount src) (metricValues src) @ drop (metricCount src) (metricValues e)\<rparr>
     else if l = L_Meta then e\<lparr>metaCount := metaCount src,
       metaKeys := take (metaCount src) (metaKeys src) @ drop (metaCount src) (metaKeys e),
       metaValues := take (metaCount src) (metaValues src) @ drop (metaCount src) (metaValues e)\<rparr>
     else if l = L_Stack_trace then e\<lparr>stackTraceCount := stackTraceCount src,
       stackTracePaths := take (stackTraceCount src) (stackTracePaths src) @ drop (stackTraceCount src) (stackTracePaths e),
       stackTraceLines := take (stackTraceCount src) (stackTraceLines src) @ drop (stackTraceCount src) (stackTraceLines e)\<rparr>
     else if l = L_TTL_Entry then e\<lparr>ttlEntry := ttlEntry src\<rparr>
     else if l = L_TTL_Meta then e\<lparr>ttlMeta := ttlMeta src\<rparr>
     else e)"
  using store_level_eqs [OF assms] by (auto simp: store_level_def)

lemma store_level_scalar:
  assumes "entry_shape src" "counts_ok src" "entry_shape e"
  shows "bucketId (store_level src l (e\<lparr>level := l\<rparr>)) = (if l = L_BucketId then bucketId src else bucketId e)"
    "eid (store_level src l (e\<lparr>level := l\<rparr>)) = (if l = L_EntryId then eid src else eid e)"
    "severity (store_level src l (e\<lparr>level := l\<rparr>)) = (if l = L_Severity then severity src else severity e)"
    "message (store_level src l (e\<lparr>level := l\<rparr>)) = (if l = L_Message then message src else message e)"
    "categoryId (store_level src l (e\<lparr>level := l\<rparr>)) = (if l = L_CategoryId then categoryId src else categoryId e)"
    "ttlEntry (store_level src l (e\<lparr>level := l\<rparr>)) = (if l = L_TTL_Entry then ttlEntry src else ttlEntry e)"
    "ttlMeta (store_level src l (e\<lparr>level := l\<rparr>)) = (if l = L_TTL_Meta then ttlMeta src else ttlMeta e)"
    "level (store_level src l (e\<lparr>level := l\<rparr>)) = l"
  using assms by (simp_all add: store_level_closed)

text \<open>The counted data as the reader shows it: a counter and what lies below it.\<close>

definition tags_view :: "nat \<Rightarrow> Entry \<Rightarrow> nat \<times> gostring list" where
  "tags_view k e = (tagsCount e, take k (tags e))"

definition metrics_view :: "nat \<Rightarrow> Entry \<Rightarrow> nat \<times> gostring list \<times> u32 list" where
  "metrics_view k e = (metricCount e, take k (metricKeys e), take k (metricValues e))"

definition meta_view :: "nat \<Rightarrow> Entry \<Rightarrow> nat \<times> gostring list \<times> gostring list" where
  "meta_view k e = (metaCount e, take k (metaKeys e), take k (metaValues e))"

definition trace_view :: "nat \<Rightarrow> Entry \<Rightarrow> nat \<times> gostring list \<times> u16 list" where
  "trace_view k e = (stackTraceCount e, take k (stackTracePaths e), take k (stackTraceLines e))"

lemmas view_defs = tags_view_def metrics_view_def meta_view_def trace_view_def

lemma store_level_view:
  assumes "entry_shape src" "counts_ok src" "entry_shape e"
  shows "tags_view (tagsCount src) (store_level src l (e\<lparr>level := l\<rparr>)) =
      (if l = L_Tags then tags_view (tagsCount src) src else tags_view (tagsCount src) e)"
    "metrics_view (metricCount src) (store_level src l (e\<lparr>level := l\<rparr>)) =
      (if l = L_Metric then metrics_view (metricCount src) src else metrics_view (metricCount src) e)"
    "meta_view (metaCount src) (store_level src l (e\<lparr>level := l\<rparr>)) =
      (if l = L_Meta then meta_view (metaCount src) src else meta_view (metaCount src) e)"
    "trace_view (stackTraceCount src) (store_level src l (e\<lparr>level := l\<rparr>)) =
      (if l = L_Stack_trace then trace_view (stackTraceCount src) src else trace_view (stackTraceCount src) e)"
proof -
  have counts: "tagsCount src \<le> length (tags src)" "metricCount src \<le> length (metricKeys src)"
    "metricCount src \<le> length (metricValues src)" "metaCount src \<le> length (metaKeys src)"
    "metaCount src \<le> length (metaValues src)" "stackTraceCount src \<le> length (stackTracePaths src)"
    "stackTraceCount src \<le> length (stackTraceLines src)"
    using entry_shapeD [OF assms(1)] assms(2) by (simp_all add: counts_ok_def)
  have "entry_shape (e\<lparr>level := l\<rparr>)" using assms(3) by simp
  note closed = store_level_closed [OF assms(1,2) this]
  show "tags_view (tagsCount src) (store_level src l (e\<lparr>level := l\<rparr>)) =
      (if l = L_Tags then tags_view (tagsCount src) src else tags_view (tagsCount src) e)"
    using counts(1) by (simp add: closed view_defs)
  show "metrics_view (metricCount src) (store_level src l (e\<lparr>level := l\<rparr>)) =
      (if l = L_Metric then metrics_view (metricCount src) src else metrics_view (metricCount src) e)"
    using counts(2,3) by (simp add: closed view_defs)
  show "meta_view (metaCount src) (store_level src l (e\<lparr>level := l\<rparr>)) =
      (if l = L_Meta then meta_view (metaCount src) src else meta_view (metaCount src) e)"
    using counts(4,5) by (simp add: closed view_defs)
  show "trace_view (stackTraceCount src) (store_level src l (e\<lparr>level := l\<rparr>)) =
      (if l = L_Stack_trace then trace_view (stackTraceCount src) src else trace_view (stackTraceCount src) e)"
    using counts(6,7) by (simp add: closed view_defs)
qed

lemma transfer_shape:
  assumes "entry_shape src" "counts_ok src" "entry_shape e"
  shows "entry_shape (transfer src ls e)"
  using assms(3)
  by (induction ls arbitrary: e) (simp_all add: transfer_def store_level_shape assms(1,2))

lemma transfer_level: "entry_shape src \<Longrightarrow> counts_ok src \<Longrightarrow> entry_shape e \<Longrightarrow> l \<le> k \<Longrightarrow>
    level (transfer src [l..<Suc k] e) = k"
  using store_level_scalar(8) [of src "transfer src [l..<k] e" k]
  by (simp add: transfer_shape) (simp add: transfer_def)

text \<open>
  \<open>same_content e e'\<close>: the reader of \<open>e'\<close> shows what was sent of \<open>e\<close>, which is everything up
  to \<open>level e\<close>; what lies above the level reads as absent.
\<close>

definition same_content :: "Entry \<Rightarrow> Entry \<Rightarrow> bool" where
  "same_content e e' \<longleftrightarrow> level e' = level e \<and> Reader_Bucket e' = Reader_Bucket e \<and> Reader_Id e' = Reader_Id e \<and>
     Reader_Sev e' = Reader_Sev e \<and> Reader_Msg e' = Reader_Msg e \<and>
     (L_CategoryId \<le> level e \<longrightarrow> Reader_Cat e' = Reader_Cat e) \<and>
     Reader_Tags e' = (if L_Tags \<le> level e then Reader_Tags e else Some []) \<and>
     Reader_Metrics e' = (if L_Metric \<le> level e then Reader_Metrics e else Some ([], [])) \<and>
     Reader_Meta e' = (if L_Meta \<le> level e then Reader_Meta e else Some ([], [])) \<and>
     Reader_Trace e' = (if L_Stack_trace \<le> level e then Reader_Trace e else Some ([], [])) \<and>
     Reader_TTL e' = (if L_TTL_Entry \<le> level e then Reader_TTL e else 0) \<and>
     Reader_MetaTTL e' = (if L_TTL_Meta \<le> level e then Reader_MetaTTL e else 0)"

lemma transfer_same_content:
  assumes "entry_shape src" "counts_ok src" "entry_shape e0" "L_Message \<le> level src"
  shows "same_content src (transfer src [0..<Suc (level src)] (Entry_Reset e0))"
proof -
  let ?e = "transfer src [0..<Suc (level src)] (Entry_Reset e0)"
  have R: "entry_shape (Entry_Reset e0)" using assms(3) by (rule Reset_shapeI)
  note scalar = store_level_scalar [OF assms(1,2)]
  note view = store_level_view [OF assms(1,2)]
  note field = transfer_field [OF assms(1,2) R]
  have scalars: "bucketId ?e = bucketId src" "eid ?e = eid src" "severity ?e = severity src"
      "message ?e = message src" "L_CategoryId \<le> level src \<Longrightarrow> categoryId ?e = categoryId src"
      "ttlEntry ?e = (if L_TTL_Entry \<le> level src then ttlEntry src else 0)"
      "ttlMeta ?e = (if L_TTL_Meta \<le> level src then ttlMeta src else 0)"
    using assms(4) field [of bucketId, OF scalar(1)] field [of eid, OF scalar(2)]
      field [of severity, OF scalar(3)] field [of message, OF scalar(4)]
      field [of categoryId, OF scalar(5)] field [of ttlEntry, OF scalar(6)] field [of ttlMeta, OF scalar(7)]
    by (auto simp: Entry_Reset_def simp del: upt_Suc)
  have views: "tags_view (tagsCount src) ?e = tags_view (tagsCount src) (if L_Tags \<le> level src then src else Entry_Reset e0)"
      "metrics_view (metricCount src) ?e = metrics_view (metricCount src) (if L_Metric \<le> level src then src else Entry_Reset e0)"
      "meta_view (metaCount src) ?e = meta_view (metaCount src) (if L_Meta \<le> level src then src else Entry_Reset e0)"
      "trace_view (stackTraceCount src) ?e =
        trace_view (stackTraceCount src) (if L_Stack_trace \<le> level src then src else Entry_Reset e0)"
    using field [of "tags_view (tagsCount src)", OF view(1)] field [of "metrics_view (metricCount src)", OF view(2)]
      field [of "meta_view (metaCount src)", OF view(3)] field [of "trace_view (stackTraceCount src)", OF view(4)]
    by (auto simp del: upt_Suc)
  have "counts_ok ?e"
    using views assms(2) by (auto simp: view_defs counts_ok_def Entry_Reset_def split: if_splits)
  note readers = readers_total [OF transfer_shape [OF assms(1,2) R] this] readers_total [OF assms(1,2)]
  show ?thesis
    using scalars views transfer_level [OF assms(1,2) R, of 0 "level src"]
    unfolding same_content_def readers
    by (auto simp: view_defs Reader_Bucket_def Reader_Id_def Reader_Msg_def Reader_Sev_def Reader_Cat_def
        Reader_TTL_def Reader_MetaTTL_def Entry_Reset_def split: if_splits)
qed

subsection \<open>Properties\<close>

lemma enc_ready_of_wire: "wire_ok e \<Longrightarrow> metric_sync e \<Longrightarrow> enc_ready e"
  by (simp add: wire_ok_def enc_ready_def)

text \<open>
  C2: an entry that is encoded into a large enough buffer and decoded from the bytes written, on
  any receiving entry, with or without copying, decodes without panic and without error, and the
  receiver's reader shows exactly the data sent up to the entry's level.
\<close>

theorem decode_encode_roundtrip:
  assumes "wire_ok e" and "metric_sync e" and "L_Message \<le> level e" and "level e \<le> L_TTL_Meta"
    and "length (wire_bytes e) \<le> MaxEntrySize" and "MaxEntrySize \<le> length b"
    and "entry_shape e0" and "fromBytes_ok f"
  shows "\<exists>b' n e'. Entry_Encode e b = Some (b', n) \<and>
    Entry_Decode f e0 \<lparr>sl_array = b', sl_len = n\<rparr> nc = Some (e', None) \<and> same_content e e'"
proof -
  let ?w = "wire_bytes e"
  let ?b = "\<lparr>sl_array = ?w @ drop (length ?w) b, sl_len = length ?w\<rparr>"
  have "Entry_Encode e b = Some (?w @ drop (length ?w) b, length ?w)"
    using assms by (intro Encode_wire enc_ready_of_wire) simp_all
  moreover have "Entry_Decode f e0 ?b nc = Some (transfer e [0..<Suc (level e)] (Entry_Reset e0), None)"
    using assms by (intro Decode_wire) (simp_all add: slice_ok_def sl_bytes_def)
  moreover have "same_content e (transfer e [0..<Suc (level e)] (Entry_Reset e0))"
    using assms by (intro transfer_same_content) (simp_all add: wire_ok_def)
  ultimately show ?thesis by blast
qed

definition sample_entry :: Entry where
  "sample_entry = zero_entry\<lparr>level := L_TTL_Meta, bucketId := 123, eid := replicate 12 7, severity := INFO,
     message := lit ''user %s'', categoryId := 4, tags := (tags zero_entry)[0 := lit ''bob''], tagsCount := 1,
     metaKeys := (metaKeys zero_entry)[0 := lit ''ip''], metaValues := (metaValues zero_entry)[0 := lit ''::1''],
     metaCount := 1, stackTracePaths := (stackTracePaths zero_entry)[0 := lit ''a.go''],
     stackTraceLines := (stackTraceLines zero_entry)[0 := 12], stackTraceCount := 1,
     ttlEntry := 30, ttlMeta := 5\<rparr>"

lemma sample_entry_ok:
  "wire_ok sample_entry" "metric_sync sample_entry" "level sample_entry = L_TTL_Meta"
  by (simp_all add: wire_ok_def sample_entry_def zero_entry_def entry_shape_def counts_ok_def strings_ok_def
      metric_sync_def)

lemma sample_entry_size: "length (wire_bytes sample_entry) = 55"
  by (simp add: sample_entry_def zero_entry_def wire_bytes_def wire_body_def upt_0_11)
    (simp add: plain_level_def counted_def lstr_def meta_item_def trace_item_def)

theorem decode_encode_roundtrip_witness:
  "\<exists>b' n e'. Entry_Encode sample_entry (replicate 65535 0) = Some (b', n) \<and>
    Entry_Decode (\<lambda>bs. (bs, None)) zero_entry \<lparr>sl_array = b', sl_len = n\<rparr> [] = Some (e', None) \<and>
    same_content sample_entry e'"
  by (rule decode_encode_roundtrip) (simp_all add: sample_entry_ok sample_entry_size fromBytes_ok_def)

end
