(* ===== verification/Entry_Safety.thy ===== *)
theory Entry_Safety
  imports Entry_Wire
begin

text \<open>
  The decoder on arbitrary bytes, and the limits of encoder and decoder: what every successful
  decode guarantees (\<open>entry_inv\<close> and its extension carry an invariant of the entry through
  the decoder's loops), how far the encoder stays within its buffer, and the inputs on which the
  code of \<^verbatim>\<open>entry.go\<close> panics or accepts what it should refuse.
\<close>

subsection \<open>Invariants through the decoder\<close>

definition flow_all :: "(Entry \<Rightarrow> bool) \<Rightarrow> flow \<Rightarrow> bool" where
  "flow_all P r = (case r of Continue e s \<Rightarrow> P e | BreakLoop e s \<Rightarrow> P e | Return e err \<Rightarrow> P e)"

lemma flow_all_simps [simp]:
  "flow_all P (Continue e s) = P e" "flow_all P (BreakLoop e s) = P e" "flow_all P (Return e err) = P e"
  by (simp_all add: flow_all_def)

lemma dec_finish_all: "dec_finish tot r = (e, err) \<Longrightarrow> flow_all P r \<Longrightarrow> P e"
  by (auto simp: dec_finish_def split: flow.splits)

lemma Decode_cases:
  assumes "Entry_Decode f e0 b nc = Some (e, err)"
  obtains "e = Entry_Reset e0" "err = Some ErrTooShort" "sl_len b < 18"
  | "e = Entry_Reset e0" "err = Some ErrCorruptEntry"
  | us r where "18 \<le> sl_len b"
      "dec_loop f us b (word_of_nat (sl_len b)) [0..<End_Level] (Entry_Reset e0) 2 = Some r"
      "dec_finish (word_of_nat (sl_len b)) r = (e, err)"
  using assms unfolding Entry_Decode_def Let_def
  by (auto simp: bind_eq_Some_conv split: if_splits)

lemma dec_level_id:
  assumes "dec_level f us b tot L_EntryId e s = Some r"
  obtains bs where "r = Continue (e\<lparr>eid := fst (f bs)\<rparr>) (s + 12)"
    | bs err where "r = Return (e\<lparr>eid := fst (f bs)\<rparr>) err"
proof -
  from assms obtain bs where bs: "(case f bs of (i, Some err) \<Rightarrow> Some (Return (e\<lparr>eid := i\<rparr>) err)
      | (i, None) \<Rightarrow> Some (Continue (e\<lparr>eid := i\<rparr>) (s + 12))) = Some r"
    by (auto simp: dec_level_def bind_eq_Some_conv)
  obtain i err where "f bs = (i, err)" by fastforce
  with bs that [of bs] show ?thesis by (cases err) auto
qed

locale entry_inv =
  fixes P :: "Entry \<Rightarrow> bool"
  assumes inv_severity: "P e \<Longrightarrow> P (e\<lparr>severity := c\<rparr>)"
    and inv_message: "P e \<Longrightarrow> P (e\<lparr>message := m\<rparr>)"
    and inv_categoryId: "P e \<Longrightarrow> P (e\<lparr>categoryId := c\<rparr>)"
    and inv_counts: "P e \<Longrightarrow> P (e\<lparr>tagsCount := k\<rparr>)" "P e \<Longrightarrow> P (e\<lparr>metricCount := k\<rparr>)"
      "P e \<Longrightarrow> P (e\<lparr>metaCount := k\<rparr>)" "P e \<Longrightarrow> P (e\<lparr>stackTraceCount := k\<rparr>)"
    and inv_ttl: "P e \<Longrightarrow> P (e\<lparr>ttlEntry := v\<rparr>)" "P e \<Longrightarrow> P (e\<lparr>ttlMeta := v\<rparr>)"
    and inv_tags: "P e \<Longrightarrow> P (e\<lparr>tags := (tags e)[i := t]\<rparr>)"
    and inv_metric: "P e \<Longrightarrow> P (e\<lparr>metricKeys := (metricKeys e)[i := t]\<rparr>)"
      "P e \<Longrightarrow> P (e\<lparr>metricValues := (metricValues e)[i := n]\<rparr>)"
    and inv_meta: "P e \<Longrightarrow> P (e\<lparr>metaKeys := (metaKeys e)[i := t]\<rparr>)"
      "P e \<Longrightarrow> P (e\<lparr>metaValues := (metaValues e)[i := t]\<rparr>)"
    and inv_trace: "P e \<Longrightarrow> P (e\<lparr>stackTracePaths := (stackTracePaths e)[i := t]\<rparr>)"
      "P e \<Longrightarrow> P (e\<lparr>stackTraceLines := (stackTraceLines e)[i := w]\<rparr>)"
begin

lemma dec_tags_inv: "dec_tags us b tot is e s = Some r \<Longrightarrow> P e \<Longrightarrow> flow_all P r"
  by (induction us b tot "is" e s rule: dec_tags.induct)
    (auto simp: Let_def bind_eq_Some_conv inv_tags split: if_splits)

lemma dec_metrics_inv: "dec_metrics us b tot is e s = Some r \<Longrightarrow> P e \<Longrightarrow> flow_all P r"
proof (induction us b tot "is" e s rule: dec_metrics.induct)
  case (2 us b tot i "is" e s)
  have step: "P (e\<lparr>metricKeys := (metricKeys e)[i := k], metricValues := (metricValues e)[i := v]\<rparr>)" for k v
    using inv_metric(2) [OF inv_metric(1) [OF "2.prems"(2)]] by simp
  show ?case
    using 2 step by (auto simp: Let_def bind_eq_Some_conv split: if_splits)
qed auto

lemma dec_meta_inv: "dec_meta us b tot is e s = Some r \<Longrightarrow> P e \<Longrightarrow> flow_all P r"
proof (induction us b tot "is" e s rule: dec_meta.induct)
  case (2 us b tot i "is" e s)
  have step: "P (e\<lparr>metaKeys := (metaKeys e)[i := k]\<rparr>)"
    "P (e\<lparr>metaKeys := (metaKeys e)[i := k], metaValues := (metaValues e)[i := v]\<rparr>)" for k v
    using inv_meta(1) [OF "2.prems"(2)] inv_meta(2) [OF inv_meta(1) [OF "2.prems"(2)]] by simp_all
  show ?case
    using 2 step by (auto simp: Let_def bind_eq_Some_conv split: if_splits)
qed auto

lemma dec_trace_inv: "dec_trace us b tot is e s = Some r \<Longrightarrow> P e \<Longrightarrow> flow_all P r"
proof (induction us b tot "is" e s rule: dec_trace.induct)
  case (2 us b tot i "is" e s)
  have step: "P (e\<lparr>stackTracePaths := (stackTracePaths e)[i := k], stackTraceLines := (stackTraceLines e)[i := v]\<rparr>)" for k v
    using inv_trace(2) [OF inv_trace(1) [OF "2.prems"(2)]] by simp
  show ?case
    using 2 step by (auto simp: Let_def bind_eq_Some_conv split: if_splits)
qed auto

lemma dec_level_inv:
  assumes "dec_level f us b tot l e s = Some r" "P e" "L_Severity \<le> l"
  shows "flow_all P r"
proof -
  have l: "l \<noteq> L_BucketId" "l \<noteq> L_EntryId" using assms(3) by auto
  note loops = dec_tags_inv dec_metrics_inv dec_meta_inv dec_trace_inv
  show ?thesis
    using assms(1,2) l unfolding dec_level_def Let_def
    by (auto simp: bind_eq_Some_conv inv_severity inv_message inv_categoryId inv_counts inv_ttl
        intro: loops split: if_splits)
qed

end

text \<open>The loop over the levels also sets the level.\<close>

locale entry_inv_level = entry_inv +
  assumes inv_level: "P e \<Longrightarrow> P (e\<lparr>level := l\<rparr>)"
begin

lemma dec_loop_inv:
  assumes "\<forall>l\<in>set ls. \<forall>e s r. dec_level f us b tot l e s = Some r \<longrightarrow> P e \<longrightarrow> flow_all P r"
    and "dec_loop f us b tot ls e s = Some r" "P e"
  shows "flow_all P r"
  using assms
proof (induction ls arbitrary: e s)
  case (Cons l ls)
  from Cons.prems(2) obtain r' where
    r': "dec_level f us b tot l (e\<lparr>level := l\<rparr>) s = Some r'" and
    r: "(case r' of Continue e s \<Rightarrow> if s \<ge> tot then Some (BreakLoop e s) else dec_loop f us b tot ls e s
      | BreakLoop e s \<Rightarrow> Some (BreakLoop e s) | Return e err \<Rightarrow> Some (Return e err)) = Some r"
    by (auto simp: bind_eq_Some_conv)
  have "flow_all P r'" using Cons.prems(1) r' inv_level [OF Cons.prems(3)] by auto
  moreover have "flow_all P r" if "dec_loop f us b tot ls e' s' = Some r" "P e'" for e' s'
    using Cons.IH [OF _ that] Cons.prems(1) by simp
  ultimately show ?case
    using r by (auto split: flow.splits if_splits)
qed (auto simp: inv_level)

end

text \<open>An invariant that the first two levels keep as well holds of whatever the loop ends with.\<close>

locale entry_inv_all = entry_inv_level +
  assumes inv_bucketId: "P e \<Longrightarrow> P (e\<lparr>bucketId := v\<rparr>)"
    and inv_eid: "P e \<Longrightarrow> length i = 12 \<Longrightarrow> P (e\<lparr>eid := i\<rparr>)"
begin

lemma dec_level_all:
  assumes "dec_level f us b tot l e s = Some r" "P e" "\<forall>bs. length (fst (f bs)) = 12"
  shows "flow_all P r"
proof (cases "L_Severity \<le> l")
  case False
  then consider "l = L_BucketId" | "l = L_EntryId" by linarith
  then show ?thesis
  proof cases
    case 1
    with assms show ?thesis by (auto simp: dec_level_def bind_eq_Some_conv inv_bucketId)
  next
    case 2
    with assms(1) have "dec_level f us b tot L_EntryId e s = Some r" by simp
    then show ?thesis
      by (rule dec_level_id) (use assms(2,3) in \<open>simp_all add: inv_eid\<close>)
  qed
qed (use assms dec_level_inv in blast)

lemma decode_inv:
  assumes "Entry_Decode f e0 b nc = Some (e, err)" "P (Entry_Reset e0)" "\<forall>bs. length (fst (f bs)) = 12"
  shows "P e"
proof -
  have "flow_all P r" if "dec_loop f us b tot ls (Entry_Reset e0) 2 = Some r" for us tot ls r
    by (rule dec_loop_inv [OF _ that assms(2)]) (use dec_level_all assms(3) in blast)
  then show ?thesis
    using assms(1,2) Decode_cases [OF assms(1)] by (metis dec_finish_all)
qed

end

interpretation shape_inv: entry_inv_all entry_shape
  by unfold_locales (auto simp: entry_shape_def)

interpretation header_inv: entry_inv_level "\<lambda>e. bucketId e = v \<and> eid e = i" for v i
  by unfold_locales auto

interpretation level_inv: entry_inv "\<lambda>e. level e = k" for k
  by unfold_locales auto

subsection \<open>What a successful decode guarantees\<close>

lemma Uint32_drop: "4 \<le> length bs \<Longrightarrow> \<exists>v. Uint32 bs = Some v"
  by (cases bs; cases "tl bs"; cases "tl (tl bs)"; cases "tl (tl (tl bs))") (auto simp: Uint32_def)

lemma dec_loop_header:
  assumes "dec_loop f us b tot [0..<End_Level] e s = Some r" "s = 2" "tot = word_of_nat (sl_len b)"
    and "slice_ok b" "18 \<le> sl_len b" "sl_len b < 65536" "fromBytes_ok f"
  shows "flow_all (\<lambda>e'. Uint32 (drop 2 (sl_bytes b)) = Some (bucketId e') \<and>
    eid e' = take 12 (drop 6 (sl_bytes b))) r"
proof -
  have len: "length (sl_bytes b) = sl_len b" using assms(4) by (rule length_sl_bytes)
  obtain v where v: "Uint32 (drop 2 (sl_bytes b)) = Some v"
    using Uint32_drop [of "drop 2 (sl_bytes b)"] assms(5) len by fastforce
  let ?i = "take 12 (drop 6 (sl_bytes b))"
  have reads: "slice_from b 2 = Some (drop 2 (sl_bytes b))" "sub_slice b 6 18 = Some ?i" "f ?i = (?i, None)"
    using assms(4-7) len by (simp_all add: slice_from_sl_bytes sub_slice_sl_bytes fromBytes_ok_def)
  have tot: "\<not> tot \<le> 6"
    using pos_le [of "sl_len b" 6] assms(3,5,6) by simp
  obtain ls where ls: "[0..<End_Level] = 0 # 1 # ls" "\<forall>l\<in>set ls. L_Severity \<le> l"
    by (simp add: upt_0_11)
  let ?e = "e\<lparr>level := 0, bucketId := v, level := 1, eid := ?i\<rparr>"
  have "(if tot \<le> 18 then Some (BreakLoop ?e 18) else dec_loop f us b tot ls ?e 18) = Some r"
    using assms(1,2) reads v tot unfolding ls(1) by (simp add: dec_level_def split: if_splits)
  then have "flow_all (\<lambda>e'. bucketId e' = v \<and> eid e' = ?i) r"
    using header_inv.dec_loop_inv [of ls f us b tot v ?i ?e 18 r] ls(2)
      header_inv.dec_level_inv [of f us b tot _ _ _ _ v ?i]
    by (auto split: if_splits)
  then show ?thesis using v by (cases r) auto
qed

text \<open>A loop that ends on the last byte ends on one of the levels it was given.\<close>

lemma dec_level_level:
  assumes "dec_level f us b tot l e s = Some r"
  shows "flow_all (\<lambda>e'. level e' = level e) r"
proof (cases "L_Severity \<le> l")
  case True
  with assms show ?thesis by (rule level_inv.dec_level_inv [OF _ refl])
next
  case False
  then consider "l = L_BucketId" | "l = L_EntryId" by linarith
  then show ?thesis
  proof cases
    case 1
    with assms show ?thesis by (auto simp: dec_level_def bind_eq_Some_conv)
  next
    case 2
    with assms have "dec_level f us b tot L_EntryId e s = Some r" by simp
    then show ?thesis by (rule dec_level_id) simp_all
  qed
qed

lemma dec_loop_end:
  "dec_loop f us b tot ls e s = Some r \<Longrightarrow> s < tot \<Longrightarrow> dec_finish tot r = (e', None) \<Longrightarrow> level e' \<in> set ls"
proof (induction ls arbitrary: e s)
  case Nil
  then show ?case by (auto simp: dec_finish_def split: if_splits)
next
  case (Cons l ls)
  from Cons.prems(1) obtain r' where
    r': "dec_level f us b tot l (e\<lparr>level := l\<rparr>) s = Some r'" and
    r: "(case r' of Continue e s \<Rightarrow> if s \<ge> tot then Some (BreakLoop e s) else dec_loop f us b tot ls e s
      | BreakLoop e s \<Rightarrow> Some (BreakLoop e s) | Return e err \<Rightarrow> Some (Return e err)) = Some r"
    by (auto simp: bind_eq_Some_conv)
  have "flow_all (\<lambda>e'. level e' = l) r'" using dec_level_level [OF r'] by simp
  then show ?case
    using r Cons.IH Cons.prems(3) by (auto simp: dec_finish_def split: flow.splits if_splits)
qed

lemma decode_header:
  assumes "Entry_Decode f e0 b nc = Some (e, None)" and "slice_ok b" and "sl_len b < 65536"
    and "entry_shape e0" and "fromBytes_ok f" and "\<forall>bs. length (fst (f bs)) = 12"
  shows "entry_shape e \<and> level e \<le> L_TTL_Meta \<and>
    Uint32 (drop 2 (sl_bytes b)) = Some (bucketId e) \<and> eid e = take 12 (drop 6 (sl_bytes b))"
proof -
  obtain us r where long: "18 \<le> sl_len b"
    and loop: "dec_loop f us b (word_of_nat (sl_len b)) [0..<End_Level] (Entry_Reset e0) 2 = Some r"
    and fin: "dec_finish (word_of_nat (sl_len b)) r = (e, None)"
    using assms(1) by (rule Decode_cases) simp_all
  have "(2 :: u16) < word_of_nat (sl_len b)"
    using pos_less [of 2 "sl_len b"] assms(3) long by simp
  then have "level e \<le> L_TTL_Meta"
    using dec_loop_end [OF loop _ fin] by auto
  moreover have "entry_shape e"
    using shape_inv.decode_inv [OF assms(1) Reset_shapeI [OF assms(4)] assms(6)] .
  moreover note dec_finish_all [OF fin dec_loop_header [OF loop refl refl assms(2) long assms(3,5)]]
  ultimately show ?thesis by blast
qed

text \<open>
  C21: whenever \<open>Decode\<close> reports success on a slice of at most 65535 bytes, the entry has the
  shape of its type, its level is one of the eleven levels, and its bucket and id are the ones in
  the bytes at the positions the protocol fixes for them, whatever the receiving entry held.
\<close>

theorem decode_success_header:
  assumes "Entry_Decode f e0 b nc = Some (e, None)" and "slice_ok b" and "sl_len b < 65536"
    and "entry_shape e0" and "fromBytes_ok f" and "\<forall>bs. length (fst (f bs)) = 12"
  shows "entry_shape e \<and> level e \<le> L_TTL_Meta \<and>
    Uint32 (drop 2 (sl_bytes b)) = Some (bucketId e) \<and> eid e = take 12 (drop 6 (sl_bytes b))"
  using decode_header [OF assms] .

lemmas dec_eval = Entry_Decode_def dec_finish_def slice_from_def sub_slice_def idx_def of_bytes_def
  Uint16_def Uint32_def dec_level_def upt_0_11 Let_def

lemma header_reads:
  assumes "fromBytes_ok f"
  shows "f [x1, x2, x3, x4, x5, x6, x7, x8, x9, x10, x11, x12] = ([x1, x2, x3, x4, x5, x6, x7, x8, x9, x10, x11, x12], None)"
  using assms by (simp add: fromBytes_ok_def)

definition small_entry :: "byte list" where
  "small_entry = [0, 21, 0, 0, 0, 123, 1, 2, 3, 4, 5, 6, 7, 8, 9, 10, 11, 12, 6, 0, 9]"

theorem decode_success_header_witness:
  "\<exists>e. Entry_Decode (\<lambda>bs. (if length bs = 12 then bs else nilId, None)) zero_entry (of_bytes small_entry) [] = Some (e, None) \<and>
     entry_shape e \<and> bucketId e = 123 \<and> eid e = [1, 2, 3, 4, 5, 6, 7, 8, 9, 10, 11, 12]"
proof -
  let ?f = "\<lambda>bs. (if length bs = 12 then bs else nilId, None) :: xid \<times> go_error option"
  have f: "fromBytes_ok ?f" by (simp add: fromBytes_ok_def)
  obtain e where e: "Entry_Decode ?f zero_entry (of_bytes small_entry) [] = Some (e, None)"
    using header_reads [OF f] by (simp add: dec_eval small_entry_def)
  have "entry_shape e \<and> level e \<le> L_TTL_Meta \<and>
    Uint32 (drop 2 (sl_bytes (of_bytes small_entry))) = Some (bucketId e) \<and>
    eid e = take 12 (drop 6 (sl_bytes (of_bytes small_entry)))"
    by (rule decode_success_header [OF e]) (use f in \<open>simp_all add: small_entry_def\<close>)
  with e show ?thesis by (auto simp: small_entry_def Uint32_def)
qed

subsection \<open>The encoder stays within its buffer\<close>

lemma fit_bound: "s \<le> MaxEntrySize \<Longrightarrow> s + length (concat (fit s xs)) \<le> MaxEntrySize"
  by (induction xs arbitrary: s) (auto simp: add.assoc [symmetric])

lemma capped_bound: "s < MaxEntrySize \<Longrightarrow> s + length (capped s xs) \<le> MaxEntrySize"
  using fit_bound [of "Suc s" xs] by (simp add: capped_def)

lemma fit_le: "length (concat (fit s xs)) \<le> length (concat xs)"
  by (induction xs arbitrary: s) auto

lemma length_concat_le:
  "\<forall>x\<in>set xs. length x \<le> k \<Longrightarrow> length (concat xs) \<le> length xs * k"
  by (induction xs) auto

lemma ref_level_bounds:
  assumes "entry_ok e" "metric_sync e"
  shows "length (ref_level e 0 s) = 4" "length (ref_level e 1 s) = 12" "length (ref_level e 2 s) = 1"
    "length (ref_level e 3 s) \<le> 256" "length (ref_level e 4 s) = 1" "length (ref_level e 5 s) \<le> 2049"
    "length (ref_level e 6 s) \<le> 4161"
proof -
  have shape: "entry_shape e" and counts: "counts_ok e" and strs: "strings_ok e"
    using assms(1) by (simp_all add: entry_ok_def)
  show "length (ref_level e 0 s) = 4" "length (ref_level e 1 s) = 12" "length (ref_level e 2 s) = 1"
    "length (ref_level e 4 s) = 1"
    using entry_shapeD(8) [OF shape] by (simp_all add: ref_level_def)
  show "length (ref_level e 3 s) \<le> 256"
    using strs by (simp add: ref_level_def strings_ok_def)
  have "length (concat (map (\<lambda>i. lstr (tags e ! i)) [0..<tagsCount e])) \<le> tagsCount e * 256"
    using length_concat_le [of "map (\<lambda>i. lstr (tags e ! i)) [0..<tagsCount e]" 256] strs
    by (simp add: strings_ok_def)
  moreover have "tagsCount e \<le> 8" using counts by (simp add: counts_ok_def)
  ultimately show "length (ref_level e 5 s) \<le> 2049"
    by (simp add: ref_level_def)
  have "length (concat (map (metric_item e) [0..<metricCount e])) \<le> metricCount e * 260"
    using length_concat_le [of "map (metric_item e) [0..<metricCount e]" 260] strs
    by (simp add: strings_ok_def metric_item_def)
  moreover have "metricCount e \<le> 16" using assms(2) by (simp add: metric_sync_def)
  ultimately show "length (ref_level e 6 s) \<le> 4161"
    using fit_le [of "Suc s" "map (metric_item e) [0..<metricCount e]"]
    by (simp add: ref_level_def capped_def)
qed

lemma ref_body_le:
  "(\<And>l s. l \<in> set ls \<Longrightarrow> length (ref_level e l s) \<le> k l) \<Longrightarrow> length (ref_body e ls s) \<le> sum_list (map k ls)"
  by (induction ls arbitrary: s) (auto intro: add_mono)

lemma ref_body_append:
  "ref_body e (xs @ ys) s = ref_body e xs s @ ref_body e ys (s + length (ref_body e xs s))"
  by (induction xs arbitrary: s) (simp_all add: add.assoc)

lemma ref_body_upto_meta:
  assumes "entry_ok e" "metric_sync e"
  shows "2 + length (ref_body e [0..<8] 2) \<le> MaxEntrySize"
proof -
  let ?p = "2 + length (ref_body e [0, 1, 2, 3, 4, 5, 6] 2)"
  have "length (ref_level e l s) \<le> [4, 12, 1, 256, 1, 2049, 4161] ! l" if "l \<in> set [0, 1, 2, 3, 4, 5, 6]" for l s
    using that ref_level_bounds [OF assms, of s] by auto
  then have "length (ref_body e [0, 1, 2, 3, 4, 5, 6] 2) \<le>
      sum_list (map ((!) [4, 12, 1, 256, 1, 2049, 4161]) [0, 1, 2, 3, 4, 5, 6])"
    by (rule ref_body_le)
  then have "?p \<le> 6486" by simp
  then have "?p + length (capped ?p (map (meta_item e) [0..<metaCount e])) \<le> MaxEntrySize"
    by (intro capped_bound) simp
  moreover have "[0..<8] = [0, 1, 2, 3, 4, 5, 6] @ [7 :: nat]" by (simp add: upt_rec)
  ultimately show ?thesis
    by (simp only: ref_body_append) (simp add: ref_level_def)
qed


definition big_meta_entry :: Entry where
  "big_meta_entry = zero_entry\<lparr>level := L_Meta, metaKeys := (metaKeys zero_entry)[0 := [1], 1 := [2]],
     metaValues := (metaValues zero_entry)[0 := replicate 60000 3, 1 := replicate 60000 4], metaCount := 2\<rparr>"


subsection \<open>Where the encoder fails\<close>

lemma enc_levels_append:
  "enc_levels e (xs @ ys) w = Option.bind (enc_levels e xs w) (enc_levels e ys)"
  by (induction xs arbitrary: w) (simp_all cong: Option.bind_cong)

text \<open>
  Above the meta level the size cap of the meta loop is not enough: when bucket to meta fill
  the 65535 bytes of the buffer, encoding a stack trace or a TTL after them panics.
\<close>

lemma encode_full_buffer_panics:
  assumes "enc_ready e" and "L_Stack_trace \<le> level e"
    and "length b = MaxEntrySize" and "2 + length (ref_body e [0..<8] 2) = MaxEntrySize"
  shows "Entry_Encode e b = None"
proof -
  let ?acc = "take 2 b @ ref_body e [0..<8] 2"
  have start: "(b, 2) = wrote b (take 2 b)" using assms(3) by (simp add: wrote_start)
  have "enc_levels e [0..<8] (b, 2) = Some (wrote b ?acc)"
    unfolding start using enc_levels_ref [OF assms(1), of "take 2 b" "[0..<8]" b] assms(3,4)
    by (simp add: min_absorb2)
  moreover have "length ?acc = length b" using assms(3,4) by simp
  then have "enc_level e 8 (wrote b ?acc) = None"
    by (simp add: enc_level_def wr_byte_def wrote_def put_def)
  moreover have "[0..<Suc (level e)] = [0..<8] @ 8 # [9..<Suc (level e)]"
    using assms(2) upt_split [of 0 8 "Suc (level e)"] upt_conv_Cons [of 8 "Suc (level e)"]
    by (simp del: upt_Suc)
  ultimately show ?thesis by (simp add: Entry_Encode_def enc_levels_append del: upt_Suc)
qed

definition full_meta_entry :: Entry where
  "full_meta_entry = zero_entry\<lparr>level := L_TTL_Entry, metaKeys := (metaKeys zero_entry)[0 := [1]],
     metaValues := (metaValues zero_entry)[0 := replicate 65507 3], metaCount := 1\<rparr>"

lemma encode_full_meta_panics: "Entry_Encode full_meta_entry (replicate 65535 0) = None"
proof -
  have upt8: "[0..<8] = [0, 1, 2, 3, 4, 5, 6, 7 :: nat]" by (simp add: upt_rec)
  have "2 + length (ref_body full_meta_entry [0..<8] 2) = MaxEntrySize"
    by (simp add: upt8 full_meta_entry_def zero_entry_def ref_level_def lstr_def capped_def meta_item_def)
  then show ?thesis
    by (intro encode_full_buffer_panics)
      (simp_all add: full_meta_entry_def zero_entry_def enc_ready_def entry_shape_def counts_ok_def metric_sync_def)
qed

text \<open>
  The metric loop indexes the sixteen stack trace paths with the index of a metric, of which
  there may be thirty-two.
\<close>

lemma wr_byte_len: "wr_byte v w = Some w' \<Longrightarrow> snd w' = snd w + 1 \<and> length (fst w') = length (fst w)"
  by (auto simp: wr_byte_def put_def split: prod.splits if_splits)

lemma wr_copy_len: "wr_copy t w = Some w' \<Longrightarrow> snd w' \<le> snd w + length t \<and> length (fst w') = length (fst w)"
  by (auto simp: wr_copy_def Let_def split: prod.splits if_splits)

lemma wr_fixed_len: "wr_fixed bs w = Some w' \<Longrightarrow> snd w' = snd w + length bs \<and> length (fst w') = length (fst w)"
  by (auto simp: wr_fixed_def split: prod.splits if_splits)

lemma enc_metrics_panics:
  assumes "length (stackTracePaths e) = 16" "\<forall>i<16. length (stackTracePaths e ! i) \<le> 255"
    "\<forall>i<n. length (metricKeys e ! i) \<le> 255" "i + d = 16" "16 < n" "snd w + d * 260 \<le> 65000"
  shows "enc_metrics e pos [i..<n] w = None"
  using assms
proof (induction d arbitrary: i w)
  case 0
  then have "[i..<n] = 16 # [17..<n]" by (simp add: upt_conv_Cons)
  with 0 show ?case by (simp add: nth_opt_out)
next
  case (Suc d)
  then have i: "i < 16" "[i..<n] = i # [Suc i..<n]" by (simp_all add: upt_conv_Cons)
  have path: "length (stackTracePaths e ! i) \<le> 255" and key: "length (metricKeys e ! i) \<le> 255"
    using Suc.prems i by simp_all
  with Suc.prems(6) have room: "\<not> snd w + length (stackTracePaths e ! i) + 5 > MaxEntrySize" by simp
  have rest: "enc_metrics e pos [Suc i..<n] w' = None" if "snd w' \<le> snd w + 260" for w'
    using Suc.prems that by (intro Suc.IH) simp_all
  show ?case
  proof (rule ccontr)
    assume "enc_metrics e pos [i..<n] w \<noteq> None"
    then obtain w1 w2 w3 where
        "wr_byte (word_of_nat (length (stackTracePaths e ! i))) w = Some w1"
        "wr_copy (metricKeys e ! i) w1 = Some w2" "wr_fixed (be32 (metricValues e ! i)) w2 = Some w3"
        "enc_metrics e pos [Suc i..<n] w3 \<noteq> None"
      using i room Suc.prems(1) by (auto simp: Let_def bind_eq_Some_conv nth_opt_Some_iff)
    with rest [of w3] key show False by (auto dest!: wr_byte_len wr_copy_len wr_fixed_len)
  qed
qed

lemma enc_tags_len:
  "enc_tags e is w = Some w' \<Longrightarrow> \<forall>i\<in>set is. length (tags e ! i) \<le> 255 \<Longrightarrow> snd w' \<le> snd w + 256 * length is"
proof (induction "is" arbitrary: w)
  case (Cons i "is")
  then obtain w1 w2 where "wr_byte (word_of_nat (length (tags e ! i))) w = Some w1"
      "wr_copy (tags e ! i) w1 = Some w2" "enc_tags e is w2 = Some w'"
    by (auto simp: bind_eq_Some_conv nth_opt_Some_iff)
  with Cons show ?case by (fastforce dest!: wr_byte_len wr_copy_len)
qed simp

lemma enc_levels_len:
  "enc_levels e ls w = Some w' \<Longrightarrow>
    \<forall>l\<in>set ls. \<forall>w w'. enc_level e l w = Some w' \<longrightarrow> snd w' \<le> snd w + k l \<Longrightarrow>
    snd w' \<le> snd w + sum_list (map k ls)"
  by (induction ls arbitrary: w) (fastforce simp: bind_eq_Some_conv)+

lemma enc_level_len:
  assumes "entry_shape e" "counts_ok e" "strings_ok e" "enc_level e l w = Some w'" "l < L_Metric"
  shows "snd w' \<le> snd w + [4, 12, 1, 256, 1, 2049] ! l"
proof -
  have ok: "length (eid e) = 12" "length (message e) \<le> 255" "tagsCount e \<le> 8"
    "\<forall>i\<in>set [0..<tagsCount e]. length (tags e ! i) \<le> 255"
    using assms(1-3) by (simp_all add: counts_ok_def strings_ok_def entry_shapeD)
  consider "l = 0" | "l = 1" | "l = 2" | "l = 3" | "l = 4" | "l = 5"
    using assms(5) by linarith
  then show ?thesis
  proof cases
    case 4
    with assms(4) obtain w1 where "wr_byte (word_of_nat (length (message e))) w = Some w1"
        "wr_copy (message e) w1 = Some w'" by (auto simp: enc_level_def bind_eq_Some_conv)
    with 4 ok(2) show ?thesis using wr_byte_len wr_copy_len by fastforce
  next
    case 6
    with assms(4) obtain w1 where "wr_byte (word_of_nat (tagsCount e)) w = Some w1"
        "enc_tags e [0..<tagsCount e] w1 = Some w'" by (auto simp: enc_level_def bind_eq_Some_conv)
    with 6 ok(3) enc_tags_len [OF _ ok(4)] wr_byte_len show ?thesis by fastforce
  qed (use assms(4) ok(1) in \<open>auto simp: enc_level_def dest!: wr_byte_len wr_copy_len wr_fixed_len\<close>)
qed

lemma enc_levels_upto_tags:
  assumes "entry_shape e" "counts_ok e" "strings_ok e" "enc_levels e [0..<6] w = Some w'"
  shows "snd w' \<le> snd w + 2323"
proof -
  have "\<forall>l\<in>set [0..<6]. \<forall>w w'. enc_level e l w = Some w' \<longrightarrow> snd w' \<le> snd w + [4, 12, 1, 256, 1, 2049] ! l"
    using enc_level_len [OF assms(1-3)] by (metis atLeastLessThan_iff set_upt)
  from enc_levels_len [OF assms(4) this] show ?thesis by (simp add: upt_rec)
qed

text \<open>
  An entry with more than sixteen metrics, all within the limits of the type, cannot be
  encoded: \<open>Encode\<close> panics, whatever the buffer.
\<close>

lemma encode_many_metrics_panics:
  assumes "entry_ok e" and "L_Metric \<le> level e" and "MaxStackTraceCount < metricCount e"
    and "\<forall>i<16. length (stackTracePaths e ! i) \<le> 255"
  shows "Entry_Encode e b = None"
proof -
  have ok: "entry_shape e" "counts_ok e" "strings_ok e" using assms(1) by (simp_all add: entry_ok_def)
  have metric_level: "enc_level e L_Metric w = None" if "snd w \<le> 2325" for w
  proof (cases "wr_byte (word_of_nat (metricCount e)) w")
    case (Some w1)
    then have "snd w1 \<le> 2326" using that wr_byte_len by fastforce
    then have "enc_metrics e (snd w) [0..<metricCount e] w1 = None"
      using ok(1,3) assms(3,4)
      by (intro enc_metrics_panics [where d = 16]) (simp_all add: strings_ok_def entry_shapeD)
    with Some show ?thesis by (simp add: enc_level_def Let_def)
  qed (simp add: enc_level_def Let_def)
  have "snd w \<le> 2325" if "enc_levels e [0..<6] (b, 2) = Some w" for w
    using enc_levels_upto_tags [OF ok that] by simp
  moreover have "[0..<Suc (level e)] = [0..<6] @ 6 # [7..<Suc (level e)]"
    using assms(2) upt_split [of 0 6 "Suc (level e)"] upt_conv_Cons [of 6 "Suc (level e)"]
    by (simp del: upt_Suc)
  ultimately show ?thesis
    using metric_level
    by (cases "enc_levels e [0..<6] (b, 2)") (simp_all add: Entry_Encode_def enc_levels_append del: upt_Suc)
qed

definition many_metrics_entry :: Entry where
  "many_metrics_entry = zero_entry\<lparr>level := L_Metric, metricCount := 17\<rparr>"

lemma encode_many_metrics_panics_witness:
  "entry_ok many_metrics_entry \<and> Entry_Encode many_metrics_entry (replicate 65535 0) = None"
proof -
  have "entry_ok many_metrics_entry"
    by (simp add: many_metrics_entry_def zero_entry_def entry_ok_def entry_shape_def counts_ok_def strings_ok_def)
  then show ?thesis
    by (auto intro!: encode_many_metrics_panics simp: many_metrics_entry_def zero_entry_def)
qed

subsection \<open>Where the decoder fails\<close>

definition wrap_entry :: "u32 \<Rightarrow> byte list" where
  "wrap_entry v = [0, 28] @ be32 v @ [1, 2, 3, 4, 5, 6, 7, 8, 9, 10, 11, 12, 6, 0, 0, 0, 0, 1, 0, 255, 255, 0]"

text \<open>
  The range check of a meta value adds its 16-bit length to the 16-bit position and wraps: on 28
  bytes of input with a value length of 65535 the decoder panics, on every receiving entry.
\<close>

lemma decode_meta_length_wraps:
  assumes "fromBytes_ok f"
  shows "Entry_Decode f e0 \<lparr>sl_array = wrap_entry v @ rest, sl_len = 28\<rparr> nc = None"
  using header_reads [OF assms] by (simp add: dec_eval wrap_entry_def be32_def)

definition ttl_tail_entry :: "byte list" where
  "ttl_tail_entry = [0, 28, 0, 0, 0, 123, 1, 2, 3, 4, 5, 6, 7, 8, 9, 10, 11, 12, 6, 0, 0, 0, 0, 0, 0, 0, 30, 7]"

text \<open>
  The meta TTL is read without a range check: an entry with one byte after its entry TTL
  makes the decoder panic.
\<close>

lemma decode_short_meta_ttl_panics:
  assumes "fromBytes_ok f"
  shows "Entry_Decode f e0 (of_bytes ttl_tail_entry) nc = None"
  using header_reads [OF assms] by (simp add: dec_eval ttl_tail_entry_def)

lemma decode_short_meta_ttl_panics_witness:
  "Entry_Decode (\<lambda>bs. (bs, None)) zero_entry (of_bytes ttl_tail_entry) [] = None"
  by (rule decode_short_meta_ttl_panics) (simp add: fromBytes_ok_def)

definition cut_entry :: "byte \<Rightarrow> byte list" where
  "cut_entry c = [0, 22, 0, 0, 0, 123, 1, 2, 3, 4, 5, 6, 7, 8, 9, 10, 11, 12, 6, 0, 0, c]"

text \<open>
  An entry cut off right after its tag count is accepted without error whatever the count is.
  The count is taken over, the tags are those the receiving entry held before, and for a count
  above eight reading the tags panics.
\<close>

lemma decode_accepts_cut_tags:
  assumes "fromBytes_ok f" and "entry_shape e0" and "0 < c"
  shows "\<exists>e. Entry_Decode f e0 (of_bytes (cut_entry c)) nc = Some (e, None) \<and> tagsCount e = unat c \<and>
    tags e = tags e0 \<and> (8 < c \<longrightarrow> Reader_Tags e = None)"
proof -
  have "0 < unat c" using assms(3) by (simp add: word_less_nat_alt)
  then have upt: "[0..<unat c] = 0 # [1..<unat c]" by (simp add: upt_conv_Cons)
  obtain e where e: "Entry_Decode f e0 (of_bytes (cut_entry c)) nc = Some (e, None)"
      "tagsCount e = unat c" "tags e = tags e0"
    using header_reads [OF assms(1)] by (simp add: dec_eval cut_entry_def upt Entry_Reset_def split: if_splits)
  moreover have "8 < c \<Longrightarrow> Reader_Tags e = None"
    using e entry_shapeD(7) [OF assms(2)] by (simp add: Reader_Tags_def array_upto_def word_less_nat_alt)
  ultimately show ?thesis by blast
qed

lemma decode_accepts_cut_tags_witness:
  "\<exists>e. Entry_Decode (\<lambda>bs. (bs, None)) zero_entry (of_bytes (cut_entry 200)) [] = Some (e, None)
     \<and> tagsCount e = 200 \<and> Reader_Tags e = None"
  using decode_accepts_cut_tags [of "\<lambda>bs. (bs, None)" zero_entry 200 "[]"] by (auto simp: fromBytes_ok_def)

definition cut_message :: "byte list" where
  "cut_message = [0, 20, 0, 0, 0, 123, 1, 2, 3, 4, 5, 6, 7, 8, 9, 10, 11, 12, 6, 5]"

text \<open>
  C36: an entry cut off right after its message length is accepted without error, and its message
  is the one of the entry decoded before it: \<open>Reset\<close> does not clear the message.
\<close>

theorem decode_keeps_stale_message:
  assumes "fromBytes_ok f"
  shows "\<exists>e. Entry_Decode f e0 (of_bytes cut_message) nc = Some (e, None) \<and> Reader_Msg e = Reader_Msg e0"
  using header_reads [OF assms] by (simp add: dec_eval cut_message_def Entry_Reset_def Reader_Msg_def)

theorem decode_keeps_stale_message_witness:
  "\<exists>e. Entry_Decode (\<lambda>bs. (bs, None)) (zero_entry\<lparr>message := lit ''secret''\<rparr>) (of_bytes cut_message) [] = Some (e, None)
     \<and> Reader_Msg e = lit ''secret''"
  using decode_keeps_stale_message [of "\<lambda>bs. (bs, None)" "zero_entry\<lparr>message := lit ''secret''\<rparr>" "[]"]
  by (simp add: fromBytes_ok_def Reader_Msg_def)

subsection \<open>A metric without a stack trace\<close>

definition metric_entry :: "byte \<Rightarrow> u32 \<Rightarrow> Entry" where
  "metric_entry c v = zero_entry\<lparr>level := L_Metric, metricCount := 1,
     metricKeys := (metricKeys zero_entry)[0 := [c]], metricValues := (metricValues zero_entry)[0 := v]\<rparr>"

definition metric_bytes :: "byte \<Rightarrow> u32 \<Rightarrow> byte list" where
  "metric_bytes c v = [0, 0, 0, 0, 0, 0, 0, 0, 0, 0, 0, 0, 0, 0, 0, 0, 0, 0, 0, 0, 1, 0, c] @ be32 v"

lemma nilId_bytes: "nilId = [0, 0, 0, 0, 0, 0, 0, 0, 0, 0, 0, 0]"
  by (simp add: nilId_def numeral_eq_Suc)

lemma metric_entry_encodes:
  assumes "29 \<le> length b"
  shows "Entry_Encode (metric_entry c v) b = Some (be16 29 @ metric_bytes c v @ drop 29 b, 29)"
proof -
  have upt7: "[0..<7] = [0, 1, 2, 3, 4, 5, 6 :: nat]" by (simp add: upt_rec)
  have start: "(b, 2) = wrote b (take 2 b)" using assms by (simp add: wrote_start)
  have "enc_levels (metric_entry c v) [0..<7] (wrote b (take 2 b)) = Some (wrote b (take 2 b @ metric_bytes c v))"
    unfolding upt7 using assms
    by (simp add: metric_entry_def zero_entry_def enc_level_def buf_simps min_absorb2 metric_bytes_def
      be32_def nilId_bytes)
  moreover have "min (length b) 2 = 2" using assms by simp
  moreover have "Suc (level (metric_entry c v)) = 7" by (simp add: metric_entry_def)
  moreover have "wr_fixed (be16 29) (take 2 b @ metric_bytes c v @ drop 29 b, 0)
      = Some (be16 29 @ metric_bytes c v @ drop 29 b, 2)"
    using assms by (simp add: wr_fixed_def)
  ultimately show ?thesis
    unfolding Entry_Encode_def start by (simp add: wrote_def metric_bytes_def min_absorb2 del: upt_Suc)
qed

lemma take_one_update: "xs \<noteq> [] \<Longrightarrow> take (Suc 0) (xs[0 := y]) = [y]"
  by (cases xs) simp_all



end
