(* ===== verification/Utils.thy ===== *)
theory Utils
  imports Entry_Data
begin

text \<open>
  \<^verbatim>\<open>utils.go\<close>: truncation, the textual form of a value of type \<^verbatim>\<open>any\<close>, and the split of an
  error string into a message with placeholders and tags. The parts of \<^verbatim>\<open>strconv\<close>,
  \<^verbatim>\<open>strings\<close> and \<^verbatim>\<open>regexp\<close> the source uses are written out: decimal integers, fixed-point
  floats with six digits (rounded half to even on the exact value), \<^verbatim>\<open>Trim\<close>, and the one
  pattern of the source. What a \<^verbatim>\<open>String()\<close> or \<^verbatim>\<open>Error()\<close> method of a caller's type returns
  is part of the value.
\<close>

subsection \<open>Truncation\<close>

definition truncate :: "gostring \<Rightarrow> nat \<Rightarrow> gostring" where
  "truncate str n = (if length str > n then take n str else str)"

lemma truncate_take: "truncate str n = take n str"
  by (simp add: truncate_def)

lemma length_truncate: "length (truncate str n) \<le> n"
  by (simp add: truncate_take)

definition go_max :: "'a::linorder \<Rightarrow> 'a \<Rightarrow> 'a" where
  "go_max a b = (if a > b then a else b)"

definition go_min :: "'a::linorder \<Rightarrow> 'a \<Rightarrow> 'a" where
  "go_min a b = (if a < b then a else b)"

lemma go_max_eq [simp]: "go_max a b = max a b"
  by (auto simp: go_max_def max_def)

lemma go_min_eq [simp]: "go_min a b = min a b"
  by (auto simp: go_min_def min_def)

subsection \<open>Decimal numbers\<close>

definition digit :: "nat \<Rightarrow> byte" where
  "digit d = word_of_nat (48 + d)"

fun FormatUint :: "nat \<Rightarrow> gostring" where
  "FormatUint n = (if n < 10 then [digit n] else FormatUint (n div 10) @ [digit (n mod 10)])"

declare FormatUint.simps [simp del]

definition FormatInt :: "int \<Rightarrow> gostring" where
  "FormatInt v = (if v < 0 then lit ''-'' @ FormatUint (nat (- v)) else FormatUint (nat v))"

definition pad6 :: "nat \<Rightarrow> gostring" where
  "pad6 n = map (\<lambda>k. digit (n div 10 ^ k mod 10)) [5, 4, 3, 2, 1, 0]"

definition round_even :: "nat \<Rightarrow> nat \<Rightarrow> nat" where
  \<comment> \<open>\<open>num / den\<close> rounded to the nearest integer, ties to even\<close>
  "round_even num den = (let q = num div den; r = num mod den in
     if 2 * r > den \<or> (2 * r = den \<and> odd q) then q + 1 else q)"

definition FormatFloat6 :: "nat \<Rightarrow> nat \<Rightarrow> int \<Rightarrow> nat \<Rightarrow> gostring" where
  \<comment> \<open>\<^verbatim>\<open>strconv.FormatFloat(v, 'f', 6, bits)\<close> on the bits of \<open>v\<close>: widths of mantissa and exponent, bias\<close>
  "FormatFloat6 mantbits expbits bias bits =
    (let neg = odd (bits div 2 ^ (mantbits + expbits));
         ex = bits div 2 ^ mantbits mod 2 ^ expbits;
         mant = bits mod 2 ^ mantbits
     in if ex = 2 ^ expbits - 1 then
          (if mant \<noteq> 0 then lit ''NaN'' else if neg then lit ''-Inf'' else lit ''+Inf'')
        else
          (let e = (if ex = 0 then 1 else int ex) + bias - int mantbits;
               m = (if ex = 0 then mant else mant + 2 ^ mantbits);
               q = (if 0 \<le> e then m * 10 ^ 6 * 2 ^ nat e else round_even (m * 10 ^ 6) (2 ^ nat (- e)))
           in (if neg then lit ''-'' else []) @ FormatUint (q div 10 ^ 6) @ lit ''.'' @ pad6 (q mod 10 ^ 6)))"

subsection \<open>Values of type any\<close>

datatype go_any =
    AString gostring
  | AStringer gostring \<comment> \<open>a value with a method \<^verbatim>\<open>String()\<close>, and what it returns\<close>
  | AError gostring    \<comment> \<open>a value with a method \<^verbatim>\<open>Error()\<close> and none \<^verbatim>\<open>String()\<close>\<close>
  | ABool bool
  | ABytes "byte list"
  | AInt u64           \<comment> \<open>\<^verbatim>\<open>int\<close> to \<^verbatim>\<open>int64\<close>, sign-extended to 64 bits\<close>
  | AUint u64          \<comment> \<open>\<^verbatim>\<open>uint\<close> to \<^verbatim>\<open>uint64\<close>\<close>
  | AFloat32 u32       \<comment> \<open>its IEEE bits\<close>
  | AFloat64 u64
  | AOther             \<comment> \<open>every other type\<close>

fun stringify :: "go_any \<Rightarrow> gostring" where
  "stringify (AString v) = v"
| "stringify (AStringer v) = v"
| "stringify (AError v) = v"
| "stringify (ABool v) = (if v then lit ''true'' else lit ''false'')"
| "stringify (ABytes v) = v"
| "stringify (AInt v) = FormatInt (sint v)"
| "stringify (AUint v) = FormatUint (unat v)"
| "stringify (AFloat32 v) = FormatFloat6 23 8 (-127) (unat v)"
| "stringify (AFloat64 v) = FormatFloat6 52 11 (-1023) (unat v)"
| "stringify AOther = []"

subsection \<open>The pattern of error strings\<close>

abbreviation (input) quote :: byte where "quote \<equiv> 39"
abbreviation (input) percent :: byte where "percent \<equiv> 37"

definition is_digit :: "byte \<Rightarrow> bool" where
  "is_digit c \<longleftrightarrow> 48 \<le> c \<and> c \<le> 57"

definition match_quoted :: "gostring \<Rightarrow> nat option" where
  \<comment> \<open>the length of a match of \<^verbatim>\<open>'[^']+'\<close> at the start\<close>
  "match_quoted s = (case s of [] \<Rightarrow> None
     | c # rest \<Rightarrow>
         let body = takeWhile (\<lambda>x. x \<noteq> quote) rest in
         if c = quote \<and> body \<noteq> [] \<and> length body < length rest then Some (length body + 2) else None)"

definition match_number :: "gostring \<Rightarrow> nat option" where
  \<comment> \<open>the length of a match of \<^verbatim>\<open>[0-9]+\.?[0-9]*\<close> at the start\<close>
  "match_number s = (let ds = takeWhile is_digit s; rest = dropWhile is_digit s in
     if ds = [] then None
     else case rest of [] \<Rightarrow> Some (length ds)
       | c # cs \<Rightarrow> Some (if c = 46 then length ds + 1 + length (takeWhile is_digit cs) else length ds))"

definition match_at :: "gostring \<Rightarrow> nat option" where
  "match_at s = (case match_quoted s of Some n \<Rightarrow> Some n | None \<Rightarrow> match_number s)"

lemma match_at_bounds:
  assumes "match_at s = Some n"
  shows "0 < n" "n \<le> length s"
proof -
  have q: "0 < k \<and> k \<le> length s" if "match_quoted s = Some k" for k
    using that by (auto simp: match_quoted_def Let_def split: list.splits if_splits)
  have m: "0 < k \<and> k \<le> length s" if "match_number s = Some k" for k
  proof -
    have len: "length (takeWhile is_digit s) + length (dropWhile is_digit s) = length s"
      by (metis length_append takeWhile_dropWhile_id)
    have "length (takeWhile is_digit cs) \<le> length cs" for cs by (rule length_takeWhile_le)
    with that len show ?thesis
      by (auto simp: match_number_def Let_def split: list.splits if_splits) (metis add_Suc_right nat_add_left_cancel_le Suc_le_mono)
  qed
  show "0 < n" "n \<le> length s"
    using assms q m by (auto simp: match_at_def split: option.splits)
qed

text \<open>\<^verbatim>\<open>ReplaceAllStringFunc\<close>: leftmost matches, one after the other, through a stateful callback.\<close>

function (sequential) ReplaceAll :: "(gostring \<Rightarrow> 's \<Rightarrow> gostring \<times> 's) \<Rightarrow> gostring \<Rightarrow> 's \<Rightarrow> gostring \<times> 's" where
  "ReplaceAll f [] s = ([], s)"
| "ReplaceAll f (c # cs) s = (case match_at (c # cs) of
     None \<Rightarrow> (case ReplaceAll f cs s of (r, s') \<Rightarrow> (c # r, s'))
   | Some n \<Rightarrow> (case f (take n (c # cs)) s of (t, s1) \<Rightarrow>
       (case ReplaceAll f (drop n (c # cs)) s1 of (r, s2) \<Rightarrow> (t @ r, s2))))"
  by pat_completeness auto

termination
  by (relation "measure (\<lambda>(f, xs, s). length xs)") (auto dest: match_at_bounds)

definition Trim :: "byte list \<Rightarrow> gostring \<Rightarrow> gostring" where
  \<comment> \<open>\<^verbatim>\<open>strings.Trim\<close> with an ASCII cut set\<close>
  "Trim cutset s = (let inner = dropWhile (\<lambda>c. c \<in> set cutset) s
     in rev (dropWhile (\<lambda>c. c \<in> set cutset) (rev inner)))"

definition take_tag :: "gostring \<Rightarrow> Entry \<Rightarrow> gostring \<times> Entry" where
  "take_tag s e = (if length s > 32 \<or> tagsCount e \<ge> 8 then (s, e)
     else (lit ''%s'', e\<lparr>tags := (tags e)[tagsCount e := Trim (lit (CHR 0x27 # ''. '')) s], tagsCount := tagsCount e + 1\<rparr>))"

definition parseErrorString :: "Entry \<Rightarrow> gostring \<Rightarrow> Entry" where
  "parseErrorString e str =
    (case ReplaceAll take_tag str (e\<lparr>tagsCount := 0\<rparr>) of (m, e') \<Rightarrow> e'\<lparr>message := truncate m MaxMessageSize\<rparr>)"

subsection \<open>Decimal numbers read back\<close>

definition read_uint :: "gostring \<Rightarrow> nat" where
  "read_uint s = foldl (\<lambda>n c. 10 * n + (unat c - 48)) 0 s"

definition read_int :: "gostring \<Rightarrow> int" where
  "read_int s = (case s of [] \<Rightarrow> 0 | c # cs \<Rightarrow> if c = 45 then - int (read_uint cs) else int (read_uint s))"

lemma unat_digit: "d < 10 \<Longrightarrow> unat (digit d) = 48 + d"
  using unat_byte_length [of "48 + d"] by (simp add: digit_def)

lemma read_FormatUint: "read_uint (FormatUint n) = n"
proof (induction n rule: FormatUint.induct)
  case (1 n)
  show ?case
  proof (cases "n < 10")
    case True
    then show ?thesis by (subst FormatUint.simps) (simp add: read_uint_def unat_digit)
  next
    case False
    with 1 have "read_uint (FormatUint (n div 10)) = n div 10" by simp
    with False show ?thesis
      by (subst FormatUint.simps) (simp add: read_uint_def unat_digit)
  qed
qed

lemma FormatUint_starts_with_digit: "\<exists>d ds. FormatUint n = digit d # ds \<and> d < 10"
proof (induction n rule: FormatUint.induct)
  case (1 n)
  then show ?case by (subst FormatUint.simps) (auto split: if_splits, blast)
qed

text \<open>
  An integer of any Go type has a textual form that determines it: read back as a decimal
  number, what \<open>stringify\<close> returns for a signed or an unsigned value is that value.
\<close>

lemma stringify_int_roundtrip:
  "read_int (stringify (AInt v)) = sint v \<and> read_int (stringify (AUint w)) = int (unat w)"
proof -
  have "read_int (FormatUint n) = int n" for n
  proof -
    obtain d ds where d: "FormatUint n = digit d # ds" "d < 10" using FormatUint_starts_with_digit by blast
    have "unat (digit d) \<noteq> unat (45 :: byte)" using unat_digit [OF d(2)] by simp
    then have "digit d \<noteq> 45" by metis
    then show ?thesis using read_FormatUint [of n] by (simp add: read_int_def d(1))
  qed
  moreover have "read_int (lit ''-'' @ FormatUint n) = - int n" for n
    by (simp add: read_int_def lit_def read_FormatUint)
  ultimately show ?thesis by (simp add: FormatInt_def)
qed

end
