(* ===== verification/Entry_Build.thy ===== *)
theory Entry_Build
  imports Utils Entry_Reader
begin

text \<open>
  The chainable setters of an entry and its textual form (\<^verbatim>\<open>entry.go\<close>). A counter is tested
  against the length of its array before every store, so no store of a setter is out of range on an
  entry of the right shape. \<^verbatim>\<open>runtime.Callers\<close> and \<^verbatim>\<open>runtime.CallersFrames\<close> are the
  parameter \<open>callers\<close>: the number of program counters found and the frames they give, and
  \<^verbatim>\<open>xid.NewWithTime\<close> is the parameter \<open>newWithTime\<close>.
\<close>

subsection \<open>Setters\<close>

definition incLevel :: "Entry \<Rightarrow> nat \<Rightarrow> Entry" where
  "incLevel e lvl = e\<lparr>level := go_max (level e) lvl\<rparr>"

definition Entry_Bucket :: "u32 \<Rightarrow> Entry \<Rightarrow> Entry" where "Entry_Bucket b e = e\<lparr>bucketId := b\<rparr>"
definition Entry_Id :: "xid \<Rightarrow> Entry \<Rightarrow> Entry" where "Entry_Id i e = e\<lparr>eid := i\<rparr>"
definition Entry_Time :: "('t \<Rightarrow> xid) \<Rightarrow> 't \<Rightarrow> Entry \<Rightarrow> Entry" where
  "Entry_Time newWithTime t e = e\<lparr>eid := newWithTime t\<rparr>"
definition Entry_Msg :: "gostring \<Rightarrow> Entry \<Rightarrow> Entry" where "Entry_Msg msg e = e\<lparr>message := msg\<rparr>"
definition Entry_Sev :: "Severity \<Rightarrow> Entry \<Rightarrow> Entry" where "Entry_Sev s e = e\<lparr>severity := s\<rparr>"
definition Entry_Cat :: "byte \<Rightarrow> Entry \<Rightarrow> Entry" where
  "Entry_Cat c e = (incLevel e L_CategoryId)\<lparr>categoryId := c\<rparr>"

fun tag_loop :: "go_any list \<Rightarrow> Entry \<Rightarrow> Entry" where
  "tag_loop [] e = e"
| "tag_loop (a # as) e =
    (if tagsCount e \<ge> MaxTagsCount then e
     else if a = AString [] then tag_loop as e
     else tag_loop as (e\<lparr>tags := (tags e)[tagsCount e := truncate (stringify a) MaxTagSize],
                         tagsCount := tagsCount e + 1\<rparr>))"

definition Entry_Tag :: "go_any list \<Rightarrow> Entry \<Rightarrow> Entry" where
  "Entry_Tag as e = tag_loop as (incLevel e L_Tags)"

fun prepend_loop :: "nat \<Rightarrow> go_any list \<Rightarrow> Entry \<Rightarrow> Entry" where
  "prepend_loop i [] e = e"
| "prepend_loop i (a # as) e =
    (let e = e\<lparr>tags := (tags e)[i := truncate (stringify a) MaxTagSize]\<rparr>;
         e = (if tagsCount e < MaxTagsCount then e\<lparr>tagsCount := tagsCount e + 1\<rparr> else e)
     in prepend_loop (Suc i) as e)"

definition shift_tags :: "nat \<Rightarrow> nat \<Rightarrow> gostring list \<Rightarrow> gostring list" where
  \<comment> \<open>\<^verbatim>\<open>copy(tags[k:], tags[:c])\<close>, which moves as \<^verbatim>\<open>memmove\<close> does\<close>
  "shift_tags k c ts = (let n = min (length ts - k) c in take k ts @ take n ts @ drop (k + n) ts)"

definition Entry_PrependTag :: "go_any list \<Rightarrow> Entry \<Rightarrow> Entry" where
  "Entry_PrependTag tag e =
    (let e = incLevel e L_Tags in
     if tagsCount e = 0 \<or> length tag \<ge> MaxTagsCount then Entry_Tag tag (e\<lparr>tagsCount := 0\<rparr>)
     else if tag \<noteq> [] then prepend_loop 0 tag (e\<lparr>tags := shift_tags (length tag) (tagsCount e) (tags e)\<rparr>)
     else e)"

definition Entry_Meta :: "gostring \<Rightarrow> go_any \<Rightarrow> Entry \<Rightarrow> Entry" where
  "Entry_Meta key v e =
    (let e = incLevel e L_Meta in
     if metaCount e \<ge> MaxMetaCount then e
     else if key = [] \<or> v = AString [] then e
     else e\<lparr>metaKeys := (metaKeys e)[metaCount e := truncate key MaxMetaKeySize],
            metaValues := (metaValues e)[metaCount e := truncate (stringify v) MaxMetaValueSize],
            metaCount := metaCount e + 1\<rparr>)"

definition Entry_MetaBlob :: "go_any \<Rightarrow> Entry \<Rightarrow> Entry" where
  "Entry_MetaBlob v e = Entry_Meta (lit ''_'') v e"

datatype meta_map =
    MapAny "(gostring \<times> go_any) list"       \<comment> \<open>\<^verbatim>\<open>map[string]any\<close>, in the order the run time ranges over it\<close>
  | MapString "(gostring \<times> gostring) list"  \<comment> \<open>\<^verbatim>\<open>map[string]string\<close>\<close>
  | MapOther

fun Entry_MetaFromMap :: "meta_map \<Rightarrow> Entry \<Rightarrow> Entry" where
  "Entry_MetaFromMap (MapAny kvs) e = fold (\<lambda>(k, v). Entry_Meta k v) kvs e"
| "Entry_MetaFromMap (MapString kvs) e = fold (\<lambda>(k, v). Entry_Meta k (AString v)) kvs e"
| "Entry_MetaFromMap MapOther e = e"

definition Entry_Metric :: "gostring \<Rightarrow> u32 \<Rightarrow> Entry \<Rightarrow> Entry" where
  "Entry_Metric key v e =
    (let e = incLevel e L_Metric in
     if metricCount e \<ge> MaxMetricCount then e
     else if key = [] then e
     else e\<lparr>metricKeys := (metricKeys e)[metricCount e := truncate key MaxMetaKeySize],
            metricValues := (metricValues e)[metricCount e := v],
            metricCount := metricCount e + 1\<rparr>)"

type_synonym frame = "gostring \<times> nat" \<comment> \<open>file and line\<close>

fun frame_loop :: "nat list \<Rightarrow> frame list \<Rightarrow> Entry \<Rightarrow> Entry" where
  \<comment> \<open>\<^verbatim>\<open>frames.Next()\<close> returns a frame and whether more follow; past the last one, the zero frame\<close>
  "frame_loop [] fs e = e"
| "frame_loop (i # is) fs e =
    (let frame = (case fs of [] \<Rightarrow> ([], 0) | f # _ \<Rightarrow> f);
         e = e\<lparr>stackTracePaths := (stackTracePaths e)[i := fst frame],
               stackTraceLines := (stackTraceLines e)[i := word_of_nat (snd frame)]\<rparr>
     in if tl fs = [] then e else frame_loop is (tl fs) e)"

definition addStackTrace :: "(int \<Rightarrow> nat \<times> frame list) \<Rightarrow> int \<Rightarrow> Entry \<Rightarrow> Entry" where
  "addStackTrace callers skip e =
    (case callers skip of (n, fs) \<Rightarrow>
       if n = 0 then e
       else frame_loop [0..<n] fs (e\<lparr>stackTraceCount := n mod 256, level := L_Stack_trace\<rparr>))"

definition Entry_Trace :: "(int \<Rightarrow> nat \<times> frame list) \<Rightarrow> int list \<Rightarrow> Entry \<Rightarrow> Entry" where
  "Entry_Trace callers skipLevels e =
    (let e = incLevel e L_Stack_trace in
     if skipLevels \<noteq> [] then addStackTrace callers (1 + hd skipLevels) e
     else addStackTrace callers 1 e)"

definition Entry_ManualTrace :: "gostring \<Rightarrow> u16 \<Rightarrow> Entry \<Rightarrow> Entry" where
  "Entry_ManualTrace path line e =
    (let e = incLevel e L_Stack_trace in
     if stackTraceCount e < MaxStackTraceCount
     then e\<lparr>stackTracePaths := (stackTracePaths e)[stackTraceCount e := path],
            stackTraceLines := (stackTraceLines e)[stackTraceCount e := line],
            stackTraceCount := stackTraceCount e + 1\<rparr>
     else e)"

definition Entry_TTL :: "u16 \<Rightarrow> Entry \<Rightarrow> Entry" where
  "Entry_TTL days e = (incLevel e L_TTL_Entry)\<lparr>ttlEntry := days\<rparr>"

definition Entry_MetaTTL :: "u16 \<Rightarrow> Entry \<Rightarrow> Entry" where
  "Entry_MetaTTL days e = (incLevel e L_TTL_Meta)\<lparr>ttlMeta := days\<rparr>"

subsection \<open>The textual form\<close>

text \<open>
  \<^verbatim>\<open>String\<close> loops with an index of type \<^verbatim>\<open>uint8\<close>, so the loop has fuel: \<open>OutOfFuel\<close> is a loop
  that has not ended yet, \<open>Panic\<close> an index out of range.
\<close>

datatype 'a outcome = Ret 'a | Panic | OutOfFuel

fun string_loop :: "nat \<Rightarrow> Entry \<Rightarrow> byte \<Rightarrow> byte \<Rightarrow> byte \<Rightarrow> gostring \<Rightarrow> gostring outcome" where
  "string_loop 0 e strLen i tagIdx acc = OutOfFuel"
| "string_loop (Suc n) e strLen i tagIdx acc =
    (if i < strLen then
       case nth_opt (message e) (unat i) of None \<Rightarrow> Panic
       | Some c \<Rightarrow>
         if c = percent \<and> unat (i + 1) < length (message e) then
           case nth_opt (message e) (unat (i + 1)) of None \<Rightarrow> Panic
           | Some d \<Rightarrow>
             if d = percent then string_loop n e strLen (i + 1 + 1) tagIdx (acc @ [percent])
             else if unat tagIdx < tagsCount e then
               case nth_opt (tags e) (unat tagIdx) of None \<Rightarrow> Panic
               | Some t \<Rightarrow> string_loop n e strLen (i + 1 + 1) (tagIdx + 1) (acc @ t)
             else string_loop n e strLen (i + 1) tagIdx (acc @ [percent])
         else string_loop n e strLen (i + 1) tagIdx (acc @ [c])
     else Ret acc)"

definition Entry_String :: "nat \<Rightarrow> Entry \<Rightarrow> gostring outcome" where
  "Entry_String fuel e = string_loop fuel e (word_of_nat (length (message e))) 0 0 []"

definition Entry_Error :: "nat \<Rightarrow> Entry \<Rightarrow> gostring outcome" where
  "Entry_Error fuel e = Entry_String fuel e"

text \<open>The reference: a placeholder takes the next tag, \<^verbatim>\<open>%%\<close> is a percent sign.\<close>

fun render :: "gostring \<Rightarrow> gostring list \<Rightarrow> gostring" where
  "render [] ts = []"
| "render [c] ts = [c]"
| "render (c # d # cs) ts =
    (if c \<noteq> percent then c # render (d # cs) ts
     else if d = percent then percent # render cs ts
     else case ts of [] \<Rightarrow> percent # render (d # cs) [] | t # ts' \<Rightarrow> t @ render cs ts')"

lemma string_loop_render:
  assumes "length (message e) \<le> 255" "tagsCount e \<le> length (tags e)" "length (tags e) \<le> 8"
    "j \<le> length (message e)" "k \<le> tagsCount e" "length (message e) < j + n"
  shows "string_loop n e (word_of_nat (length (message e))) (word_of_nat j) (word_of_nat k) acc =
    Ret (acc @ render (drop j (message e)) (drop k (take (tagsCount e) (tags e))))"
  using assms
proof (induction n arbitrary: j k acc)
  case (Suc n)
  let ?m = "message e" and ?ts = "take (tagsCount e) (tags e)"
  have nat_i: "unat (word_of_nat i :: byte) = i" if "i \<le> 255" for i
    using that by (simp add: unat_byte_length)
  have less: "(word_of_nat j :: byte) < word_of_nat (length ?m) \<longleftrightarrow> j < length ?m"
    using Suc.prems by (simp add: word_less_nat_alt nat_i)
  have k: "k \<le> 255" "k < tagsCount e \<Longrightarrow> k < length (tags e)" using Suc.prems by simp_all
  have step: "(word_of_nat x :: byte) + 1 = word_of_nat (Suc x)" for x by simp
  show ?case
  proof (cases "j < length ?m")
    case False
    then show ?thesis using Suc.prems less by simp
  next
    case True
    have dj: "drop j ?m = ?m ! j # drop (Suc j) ?m" using True by (simp add: Cons_nth_drop_Suc)
    have ji: "unat (word_of_nat j :: byte) = j" "unat (word_of_nat (Suc j) :: byte) = Suc j"
      by (rule nat_i, use True Suc.prems(1) in linarith)+
    have ki: "unat (word_of_nat k :: byte) = k" using k(1) by (simp add: nat_i)
    show ?thesis
    proof (cases "Suc j < length ?m")
      case False
      then have "drop (Suc j) ?m = []" by simp
      then show ?thesis
        using True False Suc.IH [of "Suc j" k "acc @ [?m ! j]"] Suc.prems
        by (simp only: string_loop.simps less step ji dj) simp
    next
      case succ: True
      have ds: "drop (Suc j) ?m = ?m ! Suc j # drop (Suc (Suc j)) ?m" using succ by (simp add: Cons_nth_drop_Suc)
      have tk: "k < tagsCount e \<Longrightarrow> drop k ?ts = tags e ! k # drop (Suc k) ?ts"
        using Suc.prems by (simp add: Cons_nth_drop_Suc [symmetric])
      show ?thesis
        using True succ Suc.prems k
          Suc.IH [of "Suc j" k "acc @ [?m ! j]"] Suc.IH [of "Suc (Suc j)" k "acc @ [percent]"]
          Suc.IH [of "Suc (Suc j)" "Suc k" "acc @ tags e ! k"] Suc.IH [of "Suc j" k "acc @ [percent]"]
        by (cases "k < tagsCount e")
          (simp_all only: string_loop.simps less step ji ki dj ds tk, simp_all add: tk)
    qed
  qed
qed simp


definition greeting :: Entry where
  "greeting = zero_entry\<lparr>message := lit ''Hi %s, %d%% of %s'', tagsCount := 2,
     tags := (tags zero_entry)[0 := lit ''Bo'', 1 := lit ''9'']\<rparr>"


lemma byte_bound: "unat (i :: byte) < 256"
  using unsigned_less [of i] by simp

text \<open>
  C38: a message set by \<open>Msg\<close>, which does not truncate, can make \<open>String\<close> loop forever: with 511
  percent signs the index runs past its 8 bits and starts again, whatever the fuel.
\<close>

theorem String_of_long_message_diverges:
  "Entry_String fuel (Entry_Msg (replicate 511 percent) e) = OutOfFuel"
proof -
  let ?e = "Entry_Msg (replicate 511 percent) e"
  have m: "message ?e = replicate 511 percent" by (simp add: Entry_Msg_def)
  have "string_loop fuel ?e 255 i 0 acc = OutOfFuel" if "even (unat i)" for i acc
    using that
  proof (induction fuel arbitrary: i acc)
    case (Suc n)
    have "unat i \<noteq> 255" using Suc.prems by auto
    then have "i < 255" using byte_bound [of i] by (simp add: word_less_nat_alt)
    moreover have "unat i < 511" "unat (i + 1) < 511"
      using byte_bound [of i] byte_bound [of "i + 1"] by simp_all
    moreover have "even (unat (i + 2))"
    proof -
      have "unat (i + 2) = (unat i + 2) mod 256" by (simp add: unat_word_ariths)
      moreover have "even ((unat i + 2) mod 256)" using Suc.prems by (subst dvd_mod_iff) simp_all
      ultimately show ?thesis by (simp only:)
    qed
    ultimately show ?case using Suc.IH [of "i + 2" "acc @ [percent]"] by (simp add: m add.commute)
  qed simp
  moreover have "(word_of_nat 511 :: byte) = 255" by simp
  ultimately show ?thesis by (simp only: Entry_String_def m length_replicate) simp
qed

subsection \<open>What the setters keep\<close>

datatype build_op =
    BBucket u32 | BId xid | BMsg gostring | BSev Severity | BCat byte | BTag "go_any list"
  | BPrependTag "go_any list" | BMeta gostring go_any | BMetaBlob go_any | BMetaFromMap meta_map
  | BMetric gostring u32 | BTrace "int list" | BManualTrace gostring u16 | BTTL u16 | BMetaTTL u16

fun build :: "(int \<Rightarrow> nat \<times> frame list) \<Rightarrow> build_op \<Rightarrow> Entry \<Rightarrow> Entry" where
  "build callers (BBucket b) = Entry_Bucket b"
| "build callers (BId i) = Entry_Id i"
| "build callers (BMsg m) = Entry_Msg m"
| "build callers (BSev s) = Entry_Sev s"
| "build callers (BCat c) = Entry_Cat c"
| "build callers (BTag as) = Entry_Tag as"
| "build callers (BPrependTag as) = Entry_PrependTag as"
| "build callers (BMeta k v) = Entry_Meta k v"
| "build callers (BMetaBlob v) = Entry_MetaBlob v"
| "build callers (BMetaFromMap m) = Entry_MetaFromMap m"
| "build callers (BMetric k v) = Entry_Metric k v"
| "build callers (BTrace skip) = Entry_Trace callers skip"
| "build callers (BManualTrace p l) = Entry_ManualTrace p l"
| "build callers (BTTL d) = Entry_TTL d"
| "build callers (BMetaTTL d) = Entry_MetaTTL d"

text \<open>\<open>Msg\<close> does not truncate and an ID is an array of twelve bytes; nothing else is asked of a caller.\<close>

fun build_arg_ok :: "build_op \<Rightarrow> bool" where
  "build_arg_ok (BMsg m) = (length m \<le> MaxMessageSize)"
| "build_arg_ok (BId i) = (length i = 12)"
| "build_arg_ok _ = True"

definition callers_ok :: "(int \<Rightarrow> nat \<times> frame list) \<Rightarrow> bool" where
  \<comment> \<open>\<^verbatim>\<open>runtime.Callers\<close> fills no more than the slice of sixteen it is given\<close>
  "callers_ok callers \<longleftrightarrow> (\<forall>skip. fst (callers skip) \<le> 16)"

lemma incLevel_ok: "entry_ok e \<Longrightarrow> l \<le> L_TTL_Meta \<Longrightarrow> entry_ok (incLevel e l)"
  by (simp add: entry_ok_def incLevel_def entry_shape_def counts_ok_def strings_ok_def le_max_iff_disj)

lemma nth_update_all: "c < length xs \<Longrightarrow> \<forall>i<c. P (xs ! i) \<Longrightarrow> P v \<Longrightarrow> \<forall>i<Suc c. P (xs[c := v] ! i)"
  by (simp add: nth_list_update less_Suc_eq)

lemma tag_loop_ok: "entry_ok e \<Longrightarrow> entry_ok (tag_loop as e)"
proof (induction as arbitrary: e)
  case (Cons a as)
  have "entry_ok (e\<lparr>tags := (tags e)[tagsCount e := truncate s 255], tagsCount := tagsCount e + 1\<rparr>)"
    if "tagsCount e < 8" for s
    using Cons.prems that nth_update_all [of "tagsCount e" "tags e" "\<lambda>t. length t \<le> 255" "truncate s 255"]
    by (simp add: entry_ok_def entry_shape_def counts_ok_def strings_ok_def length_truncate)
  with Cons show ?case by auto
qed simp

lemma Tag_ok: "entry_ok e \<Longrightarrow> entry_ok (Entry_Tag as e)"
  by (simp add: Entry_Tag_def tag_loop_ok incLevel_ok)

lemma length_shift_tags [simp]: "k \<le> length ts \<Longrightarrow> c \<le> length ts \<Longrightarrow> length (shift_tags k c ts) = length ts"
  by (simp add: shift_tags_def Let_def)

lemma shift_tags_nth:
  "length ts = 8 \<Longrightarrow> k < 8 \<Longrightarrow> c \<le> 8 \<Longrightarrow> i < min 8 (k + c) \<Longrightarrow> k \<le> i \<Longrightarrow> shift_tags k c ts ! i = ts ! (i - k)"
proof -
  assume a: "length ts = 8" "k < 8" "c \<le> 8" "i < min 8 (k + c)" "k \<le> i"
  then have "i - k < 8 - k" "i - k < c" by auto
  with a show ?thesis by (simp add: shift_tags_def Let_def nth_append)
qed

text \<open>
  The loop that stores the new tags in front, from index \<open>i\<close> on: the tags stored and those behind
  them.
\<close>

lemma prepend_loop_eq:
  assumes "i + length as \<le> length (tags e)"
  shows "prepend_loop i as e = e\<lparr>
      tags := take i (tags e) @ map (\<lambda>a. truncate (stringify a) MaxTagSize) as @ drop (i + length as) (tags e),
      tagsCount := (if tagsCount e \<le> 8 then min 8 (tagsCount e + length as) else tagsCount e)\<rparr>"
  using assms
proof (induction as arbitrary: i e)
  case Nil
  then show ?case by (simp add: min_def)
next
  case (Cons a as)
  let ?t = "truncate (stringify a) 255"
  let ?e = "e\<lparr>tags := (tags e)[i := ?t]\<rparr>"
  let ?e' = "if tagsCount ?e < 8 then ?e\<lparr>tagsCount := tagsCount ?e + 1\<rparr> else ?e"
  have t: "tags ?e' = (tags e)[i := ?t]" by simp
  have "take (Suc i) ((tags e)[i := ?t]) = take i (tags e) @ [?t]"
    using Cons.prems by (simp add: take_Suc_conv_app_nth)
  moreover have "drop (Suc i + length as) ((tags e)[i := ?t]) = drop (Suc (i + length as)) (tags e)" by simp
  ultimately have "prepend_loop (Suc i) as ?e' = ?e'\<lparr>
      tags := take i (tags e) @ ?t # map (\<lambda>a. truncate (stringify a) MaxTagSize) as @ drop (i + length (a # as)) (tags e),
      tagsCount := (if tagsCount ?e' \<le> 8 then min 8 (tagsCount ?e' + length as) else tagsCount ?e')\<rparr>"
    using Cons.IH [of "Suc i" ?e'] Cons.prems unfolding t by simp
  then show ?case by (auto simp: Let_def min_def)
qed

definition tag_text :: "go_any \<Rightarrow> gostring" where
  "tag_text a = truncate (stringify a) MaxTagSize"

lemma PrependTag_eq:
  assumes "entry_shape e" "counts_ok e" "tagsCount e \<noteq> 0" "length tag < 8"
  shows "entry_shape (Entry_PrependTag tag e)"
    "Reader_Tags (Entry_PrependTag tag e) = Some (take 8 (map tag_text tag @ take (tagsCount e) (tags e)))"
    "Entry_PrependTag tag e = (incLevel e L_Tags)\<lparr>tags := tags (Entry_PrependTag tag e),
       tagsCount := min 8 (tagsCount e + length tag)\<rparr>"
proof -
  let ?k = "length tag" and ?c = "tagsCount e"
  let ?sh = "shift_tags ?k ?c (tags e)"
  have len: "length (tags e) = 8" "?c \<le> 8" using assms(1,2) by (simp_all add: entry_shapeD counts_ok_def)
  have eq: "Entry_PrependTag tag e = (incLevel e L_Tags)\<lparr>tags := map tag_text tag @ drop ?k ?sh, tagsCount := min 8 (?c + ?k)\<rparr>"
  proof (cases "tag = []")
    case True
    then show ?thesis
      using assms(3) len by (simp add: Entry_PrependTag_def Let_def incLevel_def shift_tags_def min_absorb2)
  next
    case False
    then show ?thesis
      using assms(3,4) len prepend_loop_eq [of 0 tag "(incLevel e L_Tags)\<lparr>tags := ?sh\<rparr>"]
      by (simp add: Entry_PrependTag_def Let_def incLevel_def tag_text_def [abs_def])
  qed
  show "Entry_PrependTag tag e = (incLevel e L_Tags)\<lparr>tags := tags (Entry_PrependTag tag e),
       tagsCount := min 8 (?c + ?k)\<rparr>" by (simp add: eq)
  show "entry_shape (Entry_PrependTag tag e)"
    using assms(1,4) len by (simp add: eq entry_shape_def incLevel_def)
  have "take (min 8 (?c + ?k)) (map tag_text tag @ drop ?k ?sh) = take 8 (map tag_text tag @ take ?c (tags e))"
  proof (rule nth_equalityI)
    show "length (take (min 8 (?c + ?k)) (map tag_text tag @ drop ?k ?sh)) = length (take 8 (map tag_text tag @ take ?c (tags e)))"
      using len assms(4) by simp
    fix i assume "i < length (take (min 8 (?c + ?k)) (map tag_text tag @ drop ?k ?sh))"
    then have i: "i < min 8 (?k + ?c)" using len assms(4) by (simp add: add.commute)
    show "take (min 8 (?c + ?k)) (map tag_text tag @ drop ?k ?sh) ! i = take 8 (map tag_text tag @ take ?c (tags e)) ! i"
    proof (cases "i < ?k")
      case False
      then have "i - ?k < min (8 - ?k) ?c" "i - ?k < min 8 (?c + ?k) - ?k" using i by auto
      then show ?thesis using False i len assms(4) shift_tags_nth [of "tags e" ?k ?c i] by (simp add: nth_append)
    qed (use i in \<open>simp add: nth_append\<close>)
  qed
  then show "Reader_Tags (Entry_PrependTag tag e) = Some (take 8 (map tag_text tag @ take ?c (tags e)))"
    using len assms(4) by (simp add: Reader_Tags_def array_upto_def eq incLevel_def)
qed

lemma Prepend_ok:
  assumes "entry_ok e"
  shows "entry_ok (Entry_PrependTag tag e)"
proof (cases "tagsCount e = 0 \<or> 8 \<le> length tag")
  case True
  have "entry_ok ((incLevel e L_Tags)\<lparr>tagsCount := 0\<rparr>)"
    using incLevel_ok [OF assms, of 5] by (simp add: entry_ok_def entry_shape_def counts_ok_def strings_ok_def)
  with True show ?thesis by (auto simp: Entry_PrependTag_def Let_def incLevel_def intro: Tag_ok)
next
  case False
  let ?e = "Entry_PrependTag tag e"
  have ok: "entry_shape e" "counts_ok e" "strings_ok e" using assms by (simp_all add: entry_ok_def)
  note eq = PrependTag_eq [OF ok(1,2)]
  have upd: "?e = (incLevel e L_Tags)\<lparr>tags := tags ?e, tagsCount := min 8 (tagsCount e + length tag)\<rparr>"
    and sh: "entry_shape ?e" using False eq by simp_all
  have "\<forall>t\<in>set (take (tagsCount e) (tags e)). length t \<le> 255"
    using ok by (auto simp: in_set_conv_nth strings_ok_def)
  then have "\<forall>t\<in>set (map tag_text tag @ take (tagsCount e) (tags e)). length t \<le> 255"
    by (auto simp: tag_text_def length_truncate)
  then have all: "\<forall>t\<in>set (take 8 (map tag_text tag @ take (tagsCount e) (tags e))). length t \<le> 255"
    by (meson in_set_takeD)
  have cnt: "tagsCount ?e = min 8 (tagsCount e + length tag)" by (subst upd) simp
  have "take (tagsCount ?e) (tags ?e) = take 8 (map tag_text tag @ take (tagsCount e) (tags e))"
    using False eq(2) [of tag] by (simp add: Reader_Tags_def array_upto_def split: if_splits)
  then have "\<forall>t\<in>set (take (tagsCount ?e) (tags ?e)). length t \<le> 255" using all by simp
  moreover have "tagsCount ?e \<le> length (tags ?e)" using sh cnt by (simp add: entry_shapeD)
  ultimately have "\<forall>i<tagsCount ?e. length (tags ?e ! i) \<le> 255"
    by (metis length_take min_absorb2 nth_mem nth_take)
  moreover have "entry_ok (incLevel e L_Tags)" by (rule incLevel_ok [OF assms]) simp
  ultimately show ?thesis using sh cnt
    by (subst upd) (simp add: entry_ok_def entry_shape_def counts_ok_def strings_ok_def)
qed

lemma Meta_ok:
  assumes "entry_ok e"
  shows "entry_ok (Entry_Meta k v e)"
proof -
  have "entry_ok (incLevel e L_Meta)" by (rule incLevel_ok [OF assms]) simp
  moreover have "entry_ok (e'\<lparr>metaKeys := (metaKeys e')[metaCount e' := truncate k 255],
      metaValues := (metaValues e')[metaCount e' := truncate t 65535], metaCount := metaCount e' + 1\<rparr>)"
    if "entry_ok e'" "metaCount e' < 32" for e' t
    using that nth_update_all [of "metaCount e'" "metaKeys e'" "\<lambda>x. length x \<le> 255" "truncate k 255"]
      nth_update_all [of "metaCount e'" "metaValues e'" "\<lambda>x. length x \<le> 65535" "truncate t 65535"]
    by (simp add: entry_ok_def entry_shape_def counts_ok_def strings_ok_def length_truncate)
  ultimately show ?thesis by (simp add: Entry_Meta_def Let_def not_le)
qed

lemma Metric_ok:
  assumes "entry_ok e"
  shows "entry_ok (Entry_Metric k v e)"
proof -
  have "entry_ok (incLevel e L_Metric)" by (rule incLevel_ok [OF assms]) simp
  moreover have "entry_ok (e'\<lparr>metricKeys := (metricKeys e')[metricCount e' := truncate k 255],
      metricValues := (metricValues e')[metricCount e' := v], metricCount := metricCount e' + 1\<rparr>)"
    if "entry_ok e'" "metricCount e' < 32" for e'
    using that nth_update_all [of "metricCount e'" "metricKeys e'" "\<lambda>x. length x \<le> 255" "truncate k 255"]
    by (simp add: entry_ok_def entry_shape_def counts_ok_def strings_ok_def length_truncate)
  ultimately show ?thesis by (simp add: Entry_Metric_def Let_def not_le)
qed

lemma MetaFromMap_ok:
  assumes "entry_ok e"
  shows "entry_ok (Entry_MetaFromMap m e)"
proof -
  have "entry_ok (fold (\<lambda>(k, v). Entry_Meta k (g v)) kvs e)" if "entry_ok e" for kvs e and g :: "'x \<Rightarrow> go_any"
    using that by (induction kvs arbitrary: e) (auto simp: Meta_ok)
  from this [of _ "\<lambda>v. v"] this [of _ AString] assms show ?thesis by (cases m) simp_all
qed

lemma frame_loop_ok: "entry_ok e \<Longrightarrow> entry_ok (frame_loop is fs e)"
proof (induction "is" arbitrary: e fs)
  case (Cons i "is")
  have "entry_ok (e\<lparr>stackTracePaths := (stackTracePaths e)[i := p], stackTraceLines := (stackTraceLines e)[i := n]\<rparr>)" for p n
    using Cons.prems by (simp add: entry_ok_def entry_shape_def counts_ok_def strings_ok_def)
  with Cons.IH show ?case by (simp add: Let_def)
qed simp

lemma Trace_ok:
  assumes "entry_ok e" "callers_ok callers"
  shows "entry_ok (Entry_Trace callers skip e)"
proof -
  have add: "entry_ok (addStackTrace callers s e')" if "entry_ok e'" for s e'
  proof -
    have "fst (callers s) \<le> 16" using assms(2) by (simp add: callers_ok_def)
    with that have "entry_ok (e'\<lparr>stackTraceCount := fst (callers s) mod 256, level := 8\<rparr>)"
      by (simp add: entry_ok_def entry_shape_def counts_ok_def strings_ok_def)
    with that show ?thesis by (cases "callers s") (simp add: addStackTrace_def frame_loop_ok)
  qed
  have "entry_ok (incLevel e L_Stack_trace)" by (rule incLevel_ok [OF assms(1)]) simp
  with add show ?thesis by (simp add: Entry_Trace_def Let_def)
qed

lemma scalar_ok:
  assumes "entry_ok e"
  shows "entry_ok (Entry_Bucket b e)" "entry_ok (Entry_Sev s e)" "entry_ok (Entry_Cat c e)"
    "entry_ok (Entry_TTL d e)" "entry_ok (Entry_MetaTTL d e)" "entry_ok (Entry_ManualTrace p l e)"
    "length m \<le> 255 \<Longrightarrow> entry_ok (Entry_Msg m e)" "length i = 12 \<Longrightarrow> entry_ok (Entry_Id i e)"
  using assms
  by (simp_all add: entry_ok_def incLevel_def entry_shape_def counts_ok_def strings_ok_def le_max_iff_disj Let_def
      Entry_Bucket_def Entry_Sev_def Entry_Cat_def Entry_TTL_def Entry_MetaTTL_def Entry_ManualTrace_def
      Entry_Msg_def Entry_Id_def)

lemma build_step_ok:
  "callers_ok callers \<Longrightarrow> build_arg_ok op \<Longrightarrow> entry_ok e \<Longrightarrow> entry_ok (build callers op e)"
  by (cases op) (simp_all add: scalar_ok Tag_ok Prepend_ok Meta_ok Metric_ok MetaFromMap_ok Trace_ok Entry_MetaBlob_def)



subsection \<open>What the setters add\<close>

lemma take_update_Suc: "c < length xs \<Longrightarrow> take (Suc c) (xs[c := v]) = take c xs @ [v]"
  by (simp add: take_Suc_conv_app_nth)

lemma tag_loop_view:
  assumes "length (tags e) = 8" "tagsCount e \<le> 8"
  shows "take (tagsCount (tag_loop as e)) (tags (tag_loop as e)) =
      take 8 (take (tagsCount e) (tags e) @ map tag_text (filter (\<lambda>a. a \<noteq> AString []) as)) \<and>
    length (tags (tag_loop as e)) = 8 \<and> tagsCount (tag_loop as e) \<le> 8"
  using assms
proof (induction as arbitrary: e)
  case (Cons a as)
  let ?e = "e\<lparr>tags := (tags e)[tagsCount e := tag_text a], tagsCount := tagsCount e + 1\<rparr>"
  show ?case
  proof (cases "tagsCount e < 8")
    case True
    then have "take (tagsCount ?e) (tags ?e) = take (tagsCount e) (tags e) @ [tag_text a]"
      using Cons.prems by (simp add: take_update_Suc)
    with True show ?thesis using Cons.IH [of ?e] Cons.IH [of e] Cons.prems by (simp add: tag_text_def)
  next
    case False
    with Cons.prems show ?thesis by simp
  qed
qed simp

text \<open>
  C27: \<open>Tag\<close> appends the text of its arguments, empty strings apart and each cut to 255 bytes, to the
  tags of the entry, and drops what is past the eighth tag; the entry is then encoded with its tags.
\<close>

theorem Tag_appends:
  assumes "entry_shape e" and "counts_ok e"
  shows "Reader_Tags (Entry_Tag as e) =
      Some (take 8 (take (tagsCount e) (tags e) @ map tag_text (filter (\<lambda>a. a \<noteq> AString []) as))) \<and>
    L_Tags \<le> level (Entry_Tag as e)"
proof -
  have "level (tag_loop as e') = level e'" for e' by (induction as arbitrary: e') simp_all
  moreover have "length (tags (incLevel e 5)) = 8" "tagsCount (incLevel e 5) \<le> 8"
    using assms by (simp_all add: incLevel_def entry_shapeD counts_ok_def)
  from tag_loop_view [OF this, of as] have "Reader_Tags (Entry_Tag as e) =
      Some (take 8 (take (tagsCount e) (tags e) @ map tag_text (filter (\<lambda>a. a \<noteq> AString []) as)))"
    by (simp add: Reader_Tags_def array_upto_def Entry_Tag_def) (simp add: incLevel_def)
  ultimately show ?thesis by (simp add: Entry_Tag_def incLevel_def)
qed

theorem Tag_appends_witness:
  "Reader_Tags (Entry_Tag [AString (lit ''a''), AString [], AInt (-5)] zero_entry) = Some [lit ''a'', lit ''-5'']"
proof -
  have "map tag_text (filter (\<lambda>a. a \<noteq> AString []) [AString (lit ''a''), AString [], AInt (-5)]) = [lit ''a'', lit ''-5'']"
    by code_simp
  moreover have "counts_ok zero_entry" "tagsCount zero_entry = 0" by (simp_all add: counts_ok_def zero_entry_def)
  ultimately show ?thesis
    using Tag_appends [OF zero_entry_shape, of "[AString (lit ''a''), AString [], AInt (-5)]"]
    by (simp del: filter.simps list.map)
qed

text \<open>
  \<open>Trace\<close> after \<open>TTL\<close> or \<open>MetaTTL\<close> lowers the level of the entry again when it finds a
  caller, so the time to live that was set is not encoded.
\<close>

lemma Trace_drops_TTL:
  assumes "0 < fst (callers (1 + skip))"
  shows "level (Entry_Trace callers [skip] (Entry_MetaTTL d (Entry_TTL d' e))) = L_Stack_trace"
proof -
  have "level (frame_loop is fs e') = level e'" for "is" fs e'
    by (induction "is" arbitrary: fs e') (simp_all add: Let_def)
  then show ?thesis using assms
    by (cases "callers (1 + skip)") (simp add: Entry_Trace_def addStackTrace_def)
qed

lemma Trace_drops_TTL_witness:
  "level (Entry_MetaTTL 7 (Entry_TTL 30 zero_entry)) = L_TTL_Meta \<and>
    level (Entry_Trace (\<lambda>s. (1, [(lit ''a.go'', 3)])) [0] (Entry_MetaTTL 7 (Entry_TTL 30 zero_entry))) = L_Stack_trace"
  using Trace_drops_TTL [of "\<lambda>s. (1, [(lit ''a.go'', 3)])" 0 7 30 zero_entry]
  by (simp add: Entry_MetaTTL_def Entry_TTL_def incLevel_def zero_entry_def)

subsection \<open>Error strings\<close>

definition strip_tag :: "gostring \<Rightarrow> nat \<Rightarrow> gostring \<times> nat" where
  \<comment> \<open>a match as \<open>take_tag\<close> treats it, with its text in place of the placeholder\<close>
  "strip_tag s n = (if length s > 32 \<or> n \<ge> 8 then (s, n) else (Trim (lit (CHR 0x27 # ''. '')) s, n + 1))"

lemma render_plain: "percent \<notin> set s \<Longrightarrow> render (s @ m) ts = s @ render m ts"
proof (induction s)
  case (Cons c s)
  then show ?case by (cases "s @ m") auto
qed simp

lemma render_placeholder: "render (lit ''%s'' @ m) (t # ts) = t @ render m ts"
  by (simp add: lit_def)

lemma ReplaceAll_take_tag:
  assumes "length (tags e) = 8" "tagsCount e \<le> 8" "percent \<notin> set str" "ReplaceAll take_tag str e = (m, e')"
  shows "tagsCount e \<le> tagsCount e' \<and> tagsCount e' \<le> 8 \<and> length (tags e') = 8 \<and>
    take (tagsCount e) (tags e') = take (tagsCount e) (tags e) \<and>
    ReplaceAll strip_tag str (tagsCount e) = (render m (drop (tagsCount e) (take (tagsCount e') (tags e'))), tagsCount e')"
  using assms
proof (induction "take_tag" str e arbitrary: m e' rule: ReplaceAll.induct)
  case (2 c cs e)
  show ?case
  proof (cases "match_at (c # cs)")
    case None
    then obtain r where r: "ReplaceAll take_tag cs e = (r, e')" "m = c # r"
      using "2.prems"(4) by (auto split: prod.splits)
    have "percent \<notin> set cs" "c \<noteq> percent" using "2.prems"(3) by auto
    with "2.hyps"(1) [OF None "2.prems"(1,2) _ r(1)] None r(2) render_plain [of "[c]" r] show ?thesis by auto
  next
    case (Some n)
    let ?s = "take n (c # cs)" and ?rest = "drop n (c # cs)"
    have no: "percent \<notin> set ?s" "percent \<notin> set ?rest"
      using "2.prems"(3) by (auto dest: in_set_takeD in_set_dropD)
    obtain t e1 where t: "take_tag ?s e = (t, e1)" by force
    obtain r where r: "ReplaceAll take_tag ?rest e1 = (r, e')" "m = t @ r"
      using "2.prems"(4) Some t by (auto split: prod.splits)
    show ?thesis
    proof (cases "length ?s > 32 \<or> tagsCount e \<ge> 8")
      case True
      then have te: "t = ?s" "e1 = e" using t by (auto simp: take_tag_def)
      with "2.hyps"(2) [OF Some t [symmetric]] "2.prems"(1,2) no(2) r(1)
      have IH: "tagsCount e \<le> tagsCount e' \<and> tagsCount e' \<le> 8 \<and> length (tags e') = 8 \<and>
        take (tagsCount e) (tags e') = take (tagsCount e) (tags e) \<and>
        ReplaceAll strip_tag ?rest (tagsCount e) = (render r (drop (tagsCount e) (take (tagsCount e') (tags e'))), tagsCount e')"
        by blast
      then show ?thesis
        using True Some r(2) te(1) render_plain [OF no(1)] by (auto simp: strip_tag_def)
    next
      case False
      let ?x = "Trim (lit (CHR 0x27 # ''. '')) ?s"
      have te: "t = lit ''%s''" "e1 = e\<lparr>tags := (tags e)[tagsCount e := ?x], tagsCount := tagsCount e + 1\<rparr>"
        using t False by (auto simp: take_tag_def)
      have c1: "tagsCount e1 = Suc (tagsCount e)" "length (tags e1) = 8" "Suc (tagsCount e) \<le> 8"
        using te(2) False "2.prems"(1) by auto
      with "2.hyps"(2) [OF Some t [symmetric]] no(2) r(1)
      have IH: "Suc (tagsCount e) \<le> tagsCount e' \<and> tagsCount e' \<le> 8 \<and> length (tags e') = 8 \<and>
        take (Suc (tagsCount e)) (tags e') = take (Suc (tagsCount e)) (tags e1) \<and>
        ReplaceAll strip_tag ?rest (Suc (tagsCount e)) = (render r (drop (Suc (tagsCount e)) (take (tagsCount e') (tags e'))), tagsCount e')"
        by force
      have tk: "take (Suc (tagsCount e)) (tags e1) = take (tagsCount e) (tags e) @ [?x]"
        using te(2) "2.prems"(1) c1 by (simp add: take_update_Suc)
      have "take (tagsCount e) (tags e') = take (tagsCount e) (take (Suc (tagsCount e)) (tags e'))" by (simp add: min_def)
      also have "\<dots> = take (tagsCount e) (tags e)" using IH tk "2.prems"(1,2) by simp
      finally have pre: "take (tagsCount e) (tags e') = take (tagsCount e) (tags e)" .
      have "tags e' ! tagsCount e = take (Suc (tagsCount e)) (tags e') ! tagsCount e" by simp
      also have "\<dots> = ?x" using IH tk "2.prems"(1) c1(3) by (simp add: nth_append)
      finally have "tags e' ! tagsCount e = ?x" .
      then have "drop (tagsCount e) (take (tagsCount e') (tags e')) = ?x # drop (Suc (tagsCount e)) (take (tagsCount e') (tags e'))"
        using IH by (subst Cons_nth_drop_Suc [symmetric]) simp_all
      then show ?thesis
        using False Some r(2) te(1) IH pre render_placeholder by (auto simp: strip_tag_def)
    qed
  qed
qed simp



end
