(* ===== verification/Peripherals.thy ===== *)
theory Peripherals
  imports Entry_Build Entry_Safety
begin

text \<open>
  The small parts around the core: the processor that prints entries (\<^verbatim>\<open>peer/entry_echoer.go\<close>), the
  client that drops them (\<^verbatim>\<open>dummy.go\<close>), the address of a peer (\<^verbatim>\<open>peer/peer_utils.go\<close>), error strings
  (\<^verbatim>\<open>logerror\<close>) and the debug socket (\<^verbatim>\<open>debug\<close>), which sends text over UDP and prints it elsewhere.
  Results of the network are arguments; \<open>None\<close> is a panic.
\<close>

subsection \<open>The echoing processor\<close>

definition entryEchoer_line :: "nat \<Rightarrow> (xid \<Rightarrow> 't) \<Rightarrow> Entry \<Rightarrow> 't \<times> gostring outcome" where
  \<comment> \<open>the time and the text that are printed\<close>
  "entryEchoer_line fuel idTime e = (Reader_Time idTime e, Entry_String fuel e)"

text \<open>On an entry with its counts in range the processor prints and returns.\<close>

lemma echo_returns:
  assumes "entry_shape e" "counts_ok e" "length (message e) \<le> MaxMessageSize"
  shows "snd (entryEchoer_line 256 idTime e) = Ret (render (message e) (take (tagsCount e) (tags e)))"
  using string_loop_render [of e 0 0 256 "[]"] assms
  by (simp add: entryEchoer_line_def Entry_String_def counts_ok_def entry_shapeD)

definition nine_tags :: gostring where
  "nine_tags = concat (replicate 9 [percent, 115])"

text \<open>
  The decoder accepts a tag count above eight in an input that ends after it, and a message with
  nine placeholders then makes the printing of the entry panic.
\<close>

lemma nth_pairs: "i < n \<Longrightarrow> concat (replicate n [a, b]) ! (2 * i) = a \<and> concat (replicate n [a, b]) ! (2 * i + 1) = b"
proof (induction n arbitrary: i)
  case (Suc n)
  then show ?case by (cases i) simp_all
qed simp

lemma string_loop_tag:
  assumes "length (message e) \<le> 255" "i + 1 < length (message e)" "message e ! i = percent" "message e ! (i + 1) \<noteq> percent"
    "k < 8" "k < tagsCount e" "k < length (tags e)"
  shows "\<exists>acc'. string_loop (Suc n) e (word_of_nat (length (message e))) (word_of_nat i) (word_of_nat k) acc =
    string_loop n e (word_of_nat (length (message e))) (word_of_nat (i + 2)) (word_of_nat (Suc k)) acc'"
proof -
  have u: "unat (word_of_nat m :: byte) = m" if "m < 256" for m using that by (simp add: unsigned_of_nat take_bit_eq_mod)
  have s: "(word_of_nat i :: byte) + 1 = word_of_nat (i + 1)" "(word_of_nat i :: byte) + 1 + 1 = word_of_nat (i + 2)"
    "(word_of_nat k :: byte) + 1 = word_of_nat (Suc k)" by (simp_all add: algebra_simps)
  have "(word_of_nat i :: byte) < word_of_nat (length (message e))" using assms(1,2) by (simp add: word_less_nat_alt u)
  then show ?thesis using assms u [of i] u [of "i + 1"] u [of k] by (intro exI [of _ "acc @ tags e ! k"]) (simp add: s)
qed

lemma echo_panics:
  assumes "entry_shape e" "message e = nine_tags" "8 < tagsCount e"
  shows "snd (entryEchoer_line 256 idTime e) = Panic"
proof -
  have m: "length (message e) = 18" "\<And>i. i < 9 \<Longrightarrow> message e ! (2 * i) = percent \<and> message e ! (2 * i + 1) \<noteq> percent"
    using assms(2) nth_pairs [of _ 9 percent 115] by (simp_all add: nine_tags_def length_concat sum_list_replicate)
  have tg: "length (tags e) = 8" using assms(1) by (simp add: entry_shapeD)
  have "\<exists>acc. string_loop 256 e (word_of_nat (length (message e))) 0 0 [] =
      string_loop (256 - k) e (word_of_nat (length (message e))) (word_of_nat (2 * k)) (word_of_nat k) acc" if "k \<le> 8" for k
    using that
  proof (induction k)
    case (Suc k)
    have f: "256 - k = Suc (255 - k)" using Suc.prems by simp
    from Suc obtain acc where "string_loop 256 e (word_of_nat (length (message e))) 0 0 [] =
        string_loop (Suc (255 - k)) e (word_of_nat (length (message e))) (word_of_nat (2 * k)) (word_of_nat k) acc"
      unfolding f by (meson Suc_leD)
    moreover obtain acc' where "string_loop (Suc (255 - k)) e (word_of_nat (length (message e))) (word_of_nat (2 * k)) (word_of_nat k) acc =
        string_loop (255 - k) e (word_of_nat (length (message e))) (word_of_nat (2 * k + 2)) (word_of_nat (Suc k)) acc'"
      using string_loop_tag [of e "2 * k" k "255 - k" acc] m tg assms(3) Suc.prems by auto
    ultimately show ?case by (intro exI [of _ acc']) simp
  qed (intro exI [of _ "[]"], simp)
  from this [of 8] obtain acc where "string_loop 256 e (word_of_nat (length (message e))) 0 0 [] =
      string_loop (Suc 247) e (word_of_nat (length (message e))) (word_of_nat 16) (word_of_nat 8) acc" by auto
  moreover have "message e ! 16 = percent" "message e ! 17 \<noteq> percent" using m(2) [of 8] by simp_all
  then have "string_loop (Suc 247) e (word_of_nat (length (message e))) (word_of_nat 16) (word_of_nat 8) acc = Panic"
    using m(1) tg assms(3) by (subst string_loop.simps(2)) (simp add: nth_opt_def)
  ultimately show ?thesis by (simp add: entryEchoer_line_def Entry_String_def)
qed

subsection \<open>The client that drops everything\<close>

definition dummy_ProcessEntry :: "Entry \<Rightarrow> gostring option" where
  "dummy_ProcessEntry e = None"

definition dummy_BucketId :: u32 where
  "dummy_BucketId = 0"

subsection \<open>Addresses and error strings\<close>

datatype net_addr = UDPAddr "byte list" | TCPAddr "byte list" | OtherAddr

fun addrIp :: "net_addr \<Rightarrow> byte list" where
  "addrIp (UDPAddr ip) = ip"
| "addrIp (TCPAddr ip) = ip"
| "addrIp OtherAddr = []"

definition logerror_Error :: "gostring \<Rightarrow> gostring" where
  "logerror_Error err = err"

subsection \<open>The debug socket\<close>

datatype sock_err = SockEof | SockErr gostring
datatype udp_read = Datagram "byte list" | ReadFails sock_err

datatype 'a progress = Reading 'a | Returned 'a "sock_err option"

fun debug_loop :: "udp_read list \<Rightarrow> byte list \<Rightarrow> byte list progress" where
  \<comment> \<open>the reads so far and what was written to \<^verbatim>\<open>dst\<close>; a datagram is cut to the buffer\<close>
  "debug_loop [] dst = Reading dst"
| "debug_loop (Datagram d # rs) dst = debug_loop rs (dst @ take 1024 d)"
| "debug_loop (ReadFails err # rs) dst = Returned dst (if err = SockEof then None else Some err)"

definition debug_Read :: "sock_err option \<Rightarrow> sock_err option \<Rightarrow> udp_read list \<Rightarrow> byte list \<Rightarrow> byte list progress" where
  \<comment> \<open>the results of resolving the address and of listening\<close>
  "debug_Read resolve listenErr rs dst = (case resolve of
     Some err \<Rightarrow> Returned dst (Some err)
   | None \<Rightarrow> (case listenErr of Some err \<Rightarrow> Returned dst (Some err) | None \<Rightarrow> debug_loop rs dst))"

record debug_writer =
  w_conn :: bool \<comment> \<open>whether the connection is set\<close>
  w_sent :: "gostring list"

definition debug_NewWriter :: "sock_err option \<Rightarrow> sock_err option \<Rightarrow> debug_writer option" where
  \<comment> \<open>\<open>None\<close> is the nil pointer it returns on an error\<close>
  "debug_NewWriter resolve dial = (if resolve = None \<and> dial = None then Some \<lparr>w_conn = True, w_sent = []\<rparr> else None)"

definition debug_Write :: "gostring \<Rightarrow> debug_writer option \<Rightarrow> debug_writer option option" where
  \<comment> \<open>with the formatted text; a nil writer and a nil connection panic\<close>
  "debug_Write s w = (case w of None \<Rightarrow> None
     | Some w \<Rightarrow> if w_conn w then Some (Some (w\<lparr>w_sent := w_sent w @ [s]\<rparr>)) else None)"

definition debug_Close :: "sock_err option \<Rightarrow> debug_writer option \<Rightarrow> (debug_writer option \<times> sock_err option) option" where
  "debug_Close r w = (case w of None \<Rightarrow> None
     | Some w \<Rightarrow> if w_conn w then Some (Some (w\<lparr>w_conn := False\<rparr>), r) else None)"

lemma debug_loop_forwards:
  "debug_loop (map Datagram ds @ rs) dst = debug_loop rs (dst @ concat (map (take 1024) ds))"
  by (induction ds arbitrary: dst) simp_all

text \<open>What is read is what was sent, in order, while no text is longer than the buffer.\<close>

lemma debug_read_prints:
  "list_all (\<lambda>d. length d \<le> 1024) ds \<Longrightarrow> debug_Read None None (map Datagram ds @ [ReadFails err]) [] =
    Returned (concat ds) (if err = SockEof then None else Some err)"
proof -
  assume "list_all (\<lambda>d. length d \<le> 1024) ds"
  then have "map (take 1024) ds = ds" by (induction ds) simp_all
  then show ?thesis by (simp add: debug_Read_def debug_loop_forwards)
qed

text \<open>Writing after \<^verbatim>\<open>Close\<close>, or to the nil writer that \<^verbatim>\<open>NewWriter\<close> returns on an error, panics.\<close>

lemma debug_write_panics:
  "debug_Close r w = Some (w', e) \<Longrightarrow> debug_Write s w' = None" "debug_NewWriter (Some err) dial = w \<Longrightarrow> debug_Write s w = None"
  by (auto simp: debug_Close_def debug_Write_def debug_NewWriter_def split: option.splits if_splits)

end
