(* ===== verification/Server_Conn.thy ===== *)
theory Server_Conn
  imports Entry_Safety "HOL-Library.Sublist"
begin

text \<open>
  The server's side of a connection: \<^verbatim>\<open>peer/tls_server_conn.go\<close>, \<^verbatim>\<open>peer/peer_responses.go\<close> and
  the verification, acquisition and release of a connection in \<^verbatim>\<open>peer/tls_server.go\<close>.

  The TLS connection is part of the state: the bytes the client has sent and will send
  (\<open>inp\<close>), the error a read meets after them (\<open>inp_end\<close>), the bytes written (\<open>out\<close>). The code
  outside the repository is in the record \<open>env\<close>: \<^verbatim>\<open>xid.FromBytes\<close>, the result of a write of one byte
  at the point of the output it stands at, and the clock. What the entry
  processor returns for an entry is in it too, as the text of its error. The entries handed to the
  processor and the errors logged are recorded in \<open>delivered\<close> and \<open>logged\<close>. Times and the
  addresses in log messages are not modelled.
\<close>

subsection \<open>Connection state\<close>

datatype respType = respAckNOK | respAckOK | respClose

fun resp_byte :: "respType \<Rightarrow> byte" where
  "resp_byte respAckNOK = 0"
| "resp_byte respAckOK = 1"
| "resp_byte respClose = 2"

datatype conn_error =
    IoErr io_error
  | LogErr go_error
  | ErrPonged
  | ProcFailed xid gostring \<comment> \<open>the entry logged for an error of the processor: the ID and the error's text\<close>

record env =
  fromBytes :: "byte list \<Rightarrow> xid \<times> go_error option"
  write_result :: "byte list \<Rightarrow> io_error option"
  now :: "byte list \<Rightarrow> int"
  process :: "Entry \<Rightarrow> gostring option"

record tlsServerConn =
  buf :: "byte list"
  validBucketIds :: "go_slice option"
  sc_entry :: Entry
  timeConnected :: int
  timeLastActive :: int
  pingsReceived :: u32
  pongsSent :: u32
  entriesReceived :: u32
  entriesSucceeded :: u32
  noCopy :: bool
  ack :: bool
  inp :: "byte list"
  inp_end :: io_error
  out :: "byte list"
  delivered :: "Entry list"
  logged :: "conn_error list"

definition ReadFull :: "nat \<Rightarrow> nat \<Rightarrow> tlsServerConn \<Rightarrow> tlsServerConn \<times> io_error option" where
  \<comment> \<open>\<^verbatim>\<open>io.ReadFull(conn.conn, conn.buf[lo:hi])\<close>\<close>
  "ReadFull lo hi c =
    (let want = hi - lo; got = take want (inp c);
         c = c\<lparr>buf := take lo (buf c) @ got @ drop (lo + length got) (buf c), inp := drop want (inp c)\<rparr>
     in if length got = want then (c, None)
        else (c, Some (if inp_end c = EOF \<and> got \<noteq> [] then ErrUnexpectedEOF else inp_end c)))"

definition conn_Write :: "env \<Rightarrow> byte \<Rightarrow> tlsServerConn \<Rightarrow> tlsServerConn \<times> io_error option" where
  \<comment> \<open>\<^verbatim>\<open>conn.conn.Write([]byte{v})\<close>\<close>
  "conn_Write env v c = (case write_result env (out c) of
     None \<Rightarrow> (c\<lparr>out := out c @ [v]\<rparr>, None)
   | Some err \<Rightarrow> (c, Some err))"

subsection \<open>One entry\<close>

function bucket_loop :: "byte list \<Rightarrow> go_slice \<Rightarrow> nat \<Rightarrow> bool option" where
  "bucket_loop want ids i =
    (if i < sl_len ids then do {
       b \<leftarrow> sub_slice ids i (i + 4);
       if want = b then Some True else bucket_loop want ids (i + 4) }
     else Some False)"
  by pat_completeness auto

termination
  by (relation "measure (\<lambda>(want, ids, i). sl_len ids - i)") auto

declare bucket_loop.simps [simp del]

definition validBucketId :: "tlsServerConn \<Rightarrow> bool option" where
  "validBucketId c = (case validBucketIds c of None \<Rightarrow> Some True
     | Some ids \<Rightarrow> do { want \<leftarrow> sub_slice (of_bytes (buf c)) 2 6; bucket_loop want ids 0 })"

text \<open>\<^verbatim>\<open>handleEntry\<close> in the order of its parts: processing, the rest of an entry, the ping, the size.\<close>

definition process_entry :: "env \<Rightarrow> Entry \<Rightarrow> tlsServerConn \<Rightarrow> tlsServerConn \<times> conn_error option" where
  "process_entry env e c =
    (let c = c\<lparr>delivered := delivered c @ [e]\<rparr> in
     case process env e of
       Some txt \<Rightarrow> (c, Some (ProcFailed (Reader_Id e) txt))
     | None \<Rightarrow> (c\<lparr>entriesSucceeded := entriesSucceeded c + 1\<rparr>, None))"

definition receive_entry :: "env \<Rightarrow> u16 \<Rightarrow> tlsServerConn \<Rightarrow> (tlsServerConn \<times> conn_error option) option" where
  "receive_entry env sz c =
    (let c = c\<lparr>entriesReceived := entriesReceived c + 1\<rparr> in
     if sz < 6 then Some (c, Some (LogErr ErrTooShort))
     else case ReadFull 2 (unat sz) c of
       (c, Some err) \<Rightarrow> Some (c, Some (IoErr err))
     | (c, None) \<Rightarrow> do {
         valid \<leftarrow> validBucketId c;
         if \<not> valid then Some (c, Some (LogErr ErrForbiddenBucket))
         else do {
           (e, err) \<leftarrow> Entry_Decode (fromBytes env) (sc_entry c) \<lparr>sl_array = buf c, sl_len = unat sz\<rparr> [noCopy c];
           let c = c\<lparr>sc_entry := e\<rparr>;
           (case err of
              Some err \<Rightarrow> Some (c, Some (LogErr err))
            | None \<Rightarrow> Some (process_entry env e c)) } })"

definition answer_ping :: "env \<Rightarrow> tlsServerConn \<Rightarrow> tlsServerConn \<times> bool" where
  \<comment> \<open>whether the pong was sent; a failed write falls through to the size check\<close>
  "answer_ping env c =
    (case conn_Write env 1 (c\<lparr>pingsReceived := pingsReceived c + 1\<rparr>) of
       (c, None) \<Rightarrow> (c\<lparr>pongsSent := pongsSent c + 1\<rparr>, True)
     | (c, Some _) \<Rightarrow> (c, False))"

definition handleEntry :: "env \<Rightarrow> tlsServerConn \<Rightarrow> (tlsServerConn \<times> conn_error option) option" where
  "handleEntry env c =
    (case ReadFull 0 2 c of
       (c, Some err) \<Rightarrow> Some (c, Some (IoErr err))
     | (c, None) \<Rightarrow> do {
         let c = c\<lparr>timeLastActive := now env (inp c)\<rparr>;
         h \<leftarrow> sub_slice (of_bytes (buf c)) 0 2;
         sz \<leftarrow> Uint16 h;
         if sz = 0 then
           (case answer_ping env c of
              (c, True) \<Rightarrow> Some (c, Some ErrPonged)
            | (c, False) \<Rightarrow> receive_entry env sz c)
         else receive_entry env sz c })"

definition sendAck :: "env \<Rightarrow> respType \<Rightarrow> tlsServerConn \<Rightarrow> tlsServerConn \<times> io_error option" where
  "sendAck env a c = conn_Write env (resp_byte a) c"

definition logged_ack :: "env \<Rightarrow> respType \<Rightarrow> tlsServerConn \<Rightarrow> tlsServerConn" where
  \<comment> \<open>\<^verbatim>\<open>if err := conn.sendAck(a); err != nil { conn.log.Send(err) }\<close>\<close>
  "logged_ack env a c = (case sendAck env a c of
     (c, None) \<Rightarrow> c | (c, Some err) \<Rightarrow> c\<lparr>logged := logged c @ [IoErr err]\<rparr>)"

subsection \<open>What a round of the loop consumes\<close>

lemma ReadFull_frame:
  assumes "ReadFull lo hi c = (c', r)"
  shows "validBucketIds c' = validBucketIds c" "sc_entry c' = sc_entry c" "noCopy c' = noCopy c" "ack c' = ack c"
    "inp_end c' = inp_end c" "out c' = out c" "delivered c' = delivered c" "logged c' = logged c"
    "inp c' = drop (hi - lo) (inp c)" "entriesReceived c' = entriesReceived c" "entriesSucceeded c' = entriesSucceeded c"
    "pingsReceived c' = pingsReceived c" "pongsSent c' = pongsSent c"
  using assms by (auto simp: ReadFull_def Let_def split: if_splits)

lemma ReadFull_None:
  assumes "ReadFull lo hi c = (c', None)" "lo \<le> hi"
  shows "hi - lo \<le> length (inp c)" "buf c' = take lo (buf c) @ take (hi - lo) (inp c) @ drop hi (buf c)"
  using assms by (auto simp: ReadFull_def Let_def split: if_splits)

lemma ReadFull_ok:
  assumes "lo \<le> hi" "inp c = xs @ ys" "length xs = hi - lo"
  shows "ReadFull lo hi c = (c\<lparr>buf := take lo (buf c) @ xs @ drop hi (buf c), inp := ys\<rparr>, None)"
  using assms by (simp add: ReadFull_def Let_def)

subsection \<open>The loop\<close>

lemma conn_Write_inp: "conn_Write env v c = (c', r) \<Longrightarrow> inp c' = inp c"
  by (auto simp: conn_Write_def split: option.splits)

lemma process_entry_inp: "process_entry env e c = (c', err) \<Longrightarrow> inp c' = inp c"
  by (auto simp: process_entry_def Let_def split: option.splits)

lemma receive_cases:
  assumes "receive_entry env sz c = Some (c', err)"
  obtains (short) "sz < 6" "c' = c\<lparr>entriesReceived := entriesReceived c + 1\<rparr>" "err = Some (LogErr ErrTooShort)"
  | (cut) x where "6 \<le> sz" "ReadFull 2 (unat sz) (c\<lparr>entriesReceived := entriesReceived c + 1\<rparr>) = (c', Some x)"
      "err = Some (IoErr x)"
  | (forbidden) "6 \<le> sz" "ReadFull 2 (unat sz) (c\<lparr>entriesReceived := entriesReceived c + 1\<rparr>) = (c', None)"
      "validBucketId c' = Some False" "err = Some (LogErr ErrForbiddenBucket)"
  | (corrupt) c2 e x where "6 \<le> sz" "ReadFull 2 (unat sz) (c\<lparr>entriesReceived := entriesReceived c + 1\<rparr>) = (c2, None)"
      "validBucketId c2 = Some True" "c' = c2\<lparr>sc_entry := e\<rparr>" "err = Some (LogErr x)"
      "Entry_Decode (fromBytes env) (sc_entry c2) \<lparr>sl_array = buf c2, sl_len = unat sz\<rparr> [noCopy c2] = Some (e, Some x)"
  | (processed) c2 e where "6 \<le> sz" "ReadFull 2 (unat sz) (c\<lparr>entriesReceived := entriesReceived c + 1\<rparr>) = (c2, None)"
      "validBucketId c2 = Some True" "process_entry env e (c2\<lparr>sc_entry := e\<rparr>) = (c', err)"
      "Entry_Decode (fromBytes env) (sc_entry c2) \<lparr>sl_array = buf c2, sl_len = unat sz\<rparr> [noCopy c2] = Some (e, None)"
proof (cases "sz < 6")
  case True
  with assms show thesis by (intro short) (simp_all add: receive_entry_def)
next
  case False
  then have six: "6 \<le> sz" by simp
  obtain c2 r where rd: "ReadFull 2 (unat sz) (c\<lparr>entriesReceived := entriesReceived c + 1\<rparr>) = (c2, r)" by force
  note R = assms [unfolded receive_entry_def Let_def, simplified False if_False rd prod.case]
  show thesis
  proof (cases r)
    case (Some x)
    with R rd six show thesis by (intro cut) auto
  next
    case None
    with R obtain v where v: "validBucketId c2 = Some v" by (auto simp: bind_eq_Some_conv)
    show thesis
    proof (cases v)
      case False
      with R rd six None v show thesis by (intro forbidden) auto
    next
      case True
      with R None v obtain e de where
        de: "Entry_Decode (fromBytes env) (sc_entry c2) \<lparr>sl_array = buf c2, sl_len = unat sz\<rparr> [noCopy c2] = Some (e, de)"
        by (auto simp: bind_eq_Some_conv)
      show thesis
      proof (cases de)
        case Some
        with R rd six None v True de show thesis by (intro corrupt) auto
      next
        case deN: None
        with R rd six None v True de show thesis by (intro processed) auto
      qed
    qed
  qed
qed

lemma receive_consumes:
  assumes "receive_entry env sz c = Some (c', err)"
  shows "length (inp c') \<le> length (inp c)"
  using assms by (rule receive_cases) (auto dest!: ReadFull_frame(9) process_entry_inp)

lemma ping_consumes: "answer_ping env c = (c', p) \<Longrightarrow> inp c' = inp c"
  by (cases "write_result env (out c)") (auto simp: answer_ping_def conn_Write_def)

lemma handle_consumes:
  assumes "handleEntry env c = Some (c', None)"
  shows "length (inp c') < length (inp c)"
proof -
  obtain c1 where c1: "ReadFull 0 2 c = (c1, None)"
    using assms by (cases "ReadFull 0 2 c"; cases "snd (ReadFull 0 2 c)") (auto simp: handleEntry_def)
  let ?c = "c1\<lparr>timeLastActive := now env (inp c1)\<rparr>"
  have "\<exists>sz c2. receive_entry env sz c2 = Some (c', None) \<and> inp c2 = inp c1"
    using assms c1
    by (auto simp: handleEntry_def Let_def bind_eq_Some_conv split: if_splits prod.splits bool.splits
        dest!: ping_consumes) (fastforce+)
  then have "length (inp c') \<le> length (inp c1)" using receive_consumes by metis
  moreover have "length (inp c1) < length (inp c)"
    using ReadFull_frame(9) [OF c1] ReadFull_None(1) [OF c1] by simp
  ultimately show ?thesis by simp
qed

lemma logged_ack_inp [simp]: "inp (logged_ack env a c) = inp c"
  by (auto simp: logged_ack_def sendAck_def conn_Write_def split: option.splits prod.splits)

function listen :: "env \<Rightarrow> tlsServerConn \<Rightarrow> (tlsServerConn \<times> conn_error) option" where
  "listen env c =
    (case handleEntry env c of
       None \<Rightarrow> None
     | Some (c', Some err) \<Rightarrow>
         Some (if ack c' \<and> err \<noteq> IoErr NetTimeout then logged_ack env respAckNOK c' else c', err)
     | Some (c', None) \<Rightarrow> listen env (if ack c' then logged_ack env respAckOK c' else c'))"
  by pat_completeness auto

termination
  by (relation "measure (\<lambda>(env, c). length (inp c))") (auto dest: handle_consumes)

declare listen.simps [simp del]

subsection \<open>What is handed to the processor\<close>

definition env_ok :: "env \<Rightarrow> bool" where
  \<comment> \<open>\<^verbatim>\<open>xid.FromBytes\<close> copies twelve bytes, and an ID always has twelve\<close>
  "env_ok env \<longleftrightarrow> fromBytes_ok (fromBytes env) \<and> (\<forall>bs. length (fst (fromBytes env bs)) = 12)"

definition conn_ok :: "tlsServerConn \<Rightarrow> bool" where
  "conn_ok c \<longleftrightarrow> length (buf c) = MaxEntrySize \<and> entry_shape (sc_entry c)"

definition allowed :: "tlsServerConn \<Rightarrow> Entry \<Rightarrow> bool" where
  \<comment> \<open>the entry's bucket is one of the big-endian integers of the certificate's key ID\<close>
  "allowed c e \<longleftrightarrow> (case validBucketIds c of None \<Rightarrow> True
     | Some ids \<Rightarrow> \<exists>k. 4 * k < sl_len ids \<and> Uint32 (drop (4 * k) (sl_array ids)) = Some (bucketId e))"

text \<open>What stays the same on a connection.\<close>

definition same_conn :: "tlsServerConn \<Rightarrow> tlsServerConn \<Rightarrow> bool" where
  "same_conn c c' \<longleftrightarrow> validBucketIds c' = validBucketIds c \<and> noCopy c' = noCopy c \<and> ack c' = ack c \<and> inp_end c' = inp_end c"

lemma same_conn_refl [simp]: "same_conn c c" and same_conn_trans: "same_conn c c1 \<Longrightarrow> same_conn c1 c2 \<Longrightarrow> same_conn c c2"
  by (simp_all add: same_conn_def)

lemma allowed_same: "same_conn c c' \<Longrightarrow> allowed c' e = allowed c e"
  by (simp add: same_conn_def allowed_def)

lemma bucket_loop_found:
  assumes "bucket_loop want ids i = Some True" "i = 4 * j"
  shows "\<exists>k. 4 * k < sl_len ids \<and> sub_slice ids (4 * k) (4 * k + 4) = Some want"
  using assms
proof (induction want ids i arbitrary: j rule: bucket_loop.induct)
  case (1 want ids i)
  show ?case
  proof (cases "i < sl_len ids")
    case True
    then obtain b where b: "sub_slice ids i (i + 4) = Some b" "want = b \<or> bucket_loop want ids (i + 4) = Some True"
      using "1.prems"(1) by (subst (asm) bucket_loop.simps) (auto simp: bind_eq_Some_conv split: if_splits)
    show ?thesis
    proof (cases "want = b")
      case True
      with b(1) \<open>i < sl_len ids\<close> "1.prems"(2) show ?thesis by blast
    next
      case False
      with b "1.IH" [OF True b(1) False, of "Suc j"] "1.prems"(2) show ?thesis by simp
    qed
  next
    case False
    with "1.prems"(1) show ?thesis by (subst (asm) bucket_loop.simps) simp
  qed
qed

lemma Uint32_take: "Uint32 (take 4 bs) = Uint32 bs"
  by (cases bs; cases "tl bs"; cases "tl (tl bs)"; cases "tl (tl (tl bs))") (auto simp: Uint32_def)

lemma validBucketId_allowed:
  assumes "validBucketId c = Some True" "Uint32 (drop 2 (buf c)) = Some (bucketId e)" "6 \<le> length (buf c)"
  shows "allowed c e"
proof (cases "validBucketIds c")
  case (Some ids)
  have "sub_slice (of_bytes (buf c)) 2 6 = Some (take 4 (drop 2 (buf c)))"
    using assms(3) by (simp add: sub_slice_def of_bytes_def)
  then have "bucket_loop (take 4 (drop 2 (buf c))) ids 0 = Some True"
    using assms(1) Some by (simp add: validBucketId_def)
  from bucket_loop_found [OF this, of 0] obtain k where
    k: "4 * k < sl_len ids" "sub_slice ids (4 * k) (4 * k + 4) = Some (take 4 (drop 2 (buf c)))" by auto
  then have "take 4 (drop (4 * k) (sl_array ids)) = take 4 (drop 2 (buf c))"
    by (simp add: sub_slice_def split: if_splits)
  then have "Uint32 (drop (4 * k) (sl_array ids)) = Some (bucketId e)"
    using assms(2) by (metis Uint32_take)
  with k(1) Some show ?thesis by (auto simp: allowed_def)
qed (simp add: allowed_def)

lemma process_entry_step:
  assumes "process_entry env e c = (c', err)"
  shows "same_conn c c'" "delivered c' = delivered c @ [e]" "buf c' = buf c" "sc_entry c' = sc_entry c" "out c' = out c"
  using assms by (auto simp: process_entry_def Let_def same_conn_def split: option.splits)

lemma ReadFull_len: "ReadFull lo hi c = (c', r) \<Longrightarrow> lo \<le> hi \<Longrightarrow> hi \<le> length (buf c) \<Longrightarrow> length (buf c') = length (buf c)"
  by (auto simp: ReadFull_def Let_def split: if_splits)

lemma u16_bound: "unat (w :: u16) < 65536"
  using unsigned_less [of w] by simp

lemma receive_step:
  assumes "receive_entry env sz c = Some (c', err)" "conn_ok c" "env_ok env"
  shows "conn_ok c' \<and> same_conn c c' \<and> (\<exists>es. delivered c' = delivered c @ es \<and> list_all (allowed c) es)"
proof -
  have read: "conn_ok c2 \<and> same_conn c c2 \<and> delivered c2 = delivered c \<and> 6 \<le> unat sz \<and> unat sz \<le> 65535"
    if "ReadFull 2 (unat sz) (c\<lparr>entriesReceived := entriesReceived c + 1\<rparr>) = (c2, r)" "6 \<le> sz" for c2 r
  proof -
    have "6 \<le> unat sz" "unat sz \<le> 65535"
      using that(2) u16_bound [of sz] by (simp_all add: word_le_nat_alt)
    with ReadFull_frame [OF that(1)] ReadFull_len [OF that(1)] assms(2) show ?thesis
      by (simp add: conn_ok_def same_conn_def)
  qed
  show ?thesis
    using assms(1)
  proof (cases rule: receive_cases)
    case short
    with assms(2) show ?thesis by (auto simp: conn_ok_def same_conn_def)
  next
    case (cut x)
    with read [OF cut(2,1)] show ?thesis by simp
  next
    case forbidden
    with read [OF forbidden(2,1)] show ?thesis by simp
  next
    case (corrupt c2 e x)
    have "entry_shape e"
      using shape_inv.decode_inv [OF corrupt(6) Reset_shapeI] read [OF corrupt(2,1)] assms(3)
      by (simp add: conn_ok_def env_ok_def)
    with read [OF corrupt(2,1)] corrupt(4) show ?thesis by (auto simp: conn_ok_def same_conn_def)
  next
    case (processed c2 e)
    note ok2 = read [OF processed(2,1)]
    let ?sl = "\<lparr>sl_array = buf c2, sl_len = unat sz\<rparr>"
    have "slice_ok ?sl" "sl_bytes ?sl = take (unat sz) (buf c2)"
      using ok2 by (simp_all add: slice_ok_def conn_ok_def sl_bytes_def)
    with decode_header [OF processed(5)] ok2 assms(3)
    have "entry_shape e" and hd: "Uint32 (drop 2 (take (unat sz) (buf c2))) = Some (bucketId e)"
      by (simp_all add: conn_ok_def env_ok_def)
    have "Uint32 (drop 2 (buf c2)) = Some (bucketId e)"
    proof -
      have "take 4 (drop 2 (take (unat sz) (buf c2))) = take 4 (drop 2 (buf c2))"
      proof -
        have "min 4 (unat sz - 2) = 4" using ok2 by auto
        then show ?thesis by (simp add: drop_take)
      qed
      with hd show ?thesis by (metis Uint32_take)
    qed
    then have "allowed c2 e"
      using validBucketId_allowed [of c2 e] processed(3) ok2 by (simp add: conn_ok_def)
    with process_entry_step [OF processed(4)] ok2 \<open>entry_shape e\<close> allowed_same [of c c2 e] show ?thesis
      by (auto simp: conn_ok_def same_conn_def)
  qed
qed

lemma handle_cases:
  assumes "handleEntry env c = Some (c', err)"
  obtains (read) x where "ReadFull 0 2 c = (c', Some x)" "err = Some (IoErr x)"
  | (ping) c1 where "ReadFull 0 2 c = (c1, None)" "Uint16 (take 2 (buf c1)) = Some 0"
      "answer_ping env (c1\<lparr>timeLastActive := now env (inp c1)\<rparr>) = (c', True)" "err = Some ErrPonged"
  | (noping) c1 c2 where "ReadFull 0 2 c = (c1, None)" "Uint16 (take 2 (buf c1)) = Some 0"
      "answer_ping env (c1\<lparr>timeLastActive := now env (inp c1)\<rparr>) = (c2, False)" "receive_entry env 0 c2 = Some (c', err)"
  | (entry) c1 sz where "ReadFull 0 2 c = (c1, None)" "Uint16 (take 2 (buf c1)) = Some sz" "sz \<noteq> 0"
      "receive_entry env sz (c1\<lparr>timeLastActive := now env (inp c1)\<rparr>) = Some (c', err)"
proof -
  obtain c1 r where rd: "ReadFull 0 2 c = (c1, r)" by force
  note H = assms [unfolded handleEntry_def Let_def, simplified rd prod.case]
  show thesis
  proof (cases r)
    case (Some x)
    with H rd show thesis by (intro read) auto
  next
    case None
    have sub: "sub_slice (of_bytes bs) 0 2 = Some h \<Longrightarrow> h = take 2 bs" for bs h
      by (simp add: sub_slice_def of_bytes_def split: if_splits)
    from H None obtain sz where sz: "Uint16 (take 2 (buf c1)) = Some sz" and
      rest: "(if sz = 0 then (case answer_ping env (c1\<lparr>timeLastActive := now env (inp c1)\<rparr>) of
          (c, True) \<Rightarrow> Some (c, Some ErrPonged) | (c, False) \<Rightarrow> receive_entry env sz c)
        else receive_entry env sz (c1\<lparr>timeLastActive := now env (inp c1)\<rparr>)) = Some (c', err)"
      by (auto simp: bind_eq_Some_conv dest!: sub)
    obtain c2 p where ap: "answer_ping env (c1\<lparr>timeLastActive := now env (inp c1)\<rparr>) = (c2, p)" by force
    show thesis
    proof (cases "sz = 0")
      case True
      then show thesis using rest sz ap rd None ping noping by (cases p) auto
    next
      case False
      then show thesis using rest sz rd None entry by auto
    qed
  qed
qed

lemma ping_step:
  assumes "answer_ping env c = (c', p)"
  shows "same_conn c c'" "delivered c' = delivered c" "buf c' = buf c" "sc_entry c' = sc_entry c"
  using assms by (cases "write_result env (out c)"; auto simp: answer_ping_def conn_Write_def same_conn_def)+

lemma handle_step:
  assumes "handleEntry env c = Some (c', err)" "conn_ok c" "env_ok env"
  shows "conn_ok c' \<and> same_conn c c' \<and> (\<exists>es. delivered c' = delivered c @ es \<and> list_all (allowed c) es)"
proof -
  have first: "conn_ok (c1\<lparr>timeLastActive := t\<rparr>) \<and> same_conn c (c1\<lparr>timeLastActive := t\<rparr>) \<and> delivered c1 = delivered c
      \<and> conn_ok c1 \<and> same_conn c c1"
    if "ReadFull 0 2 c = (c1, r)" for c1 r t
    using ReadFull_frame [OF that] ReadFull_len [OF that] assms(2) by (simp add: conn_ok_def same_conn_def)
  have rcv: ?thesis if "receive_entry env sz c2 = Some (c', err)" "conn_ok c2" "same_conn c c2" "delivered c2 = delivered c"
    for sz c2
    using receive_step [OF that(1,2) assms(3)] that(3,4) allowed_same [OF that(3)]
    by (auto simp: list_all_iff intro: same_conn_trans)
  show ?thesis
    using assms(1)
  proof (cases rule: handle_cases)
    case (read x)
    with first [OF read(1)] show ?thesis by simp
  next
    case (ping c1)
    with first [OF ping(1)] ping_step [OF ping(3)] show ?thesis
      by (auto simp: conn_ok_def intro: same_conn_trans)
  next
    case (noping c1 c2)
    with first [OF noping(1)] ping_step [OF noping(3)] show ?thesis
      by (intro rcv [OF noping(4)]) (auto simp: conn_ok_def intro: same_conn_trans)
  next
    case (entry c1 sz)
    with first [OF entry(1)] show ?thesis by (intro rcv [OF entry(4)]) simp_all
  qed
qed

lemma logged_ack_step:
  "conn_ok (logged_ack env a c) = conn_ok c" "same_conn c (logged_ack env a c)" "delivered (logged_ack env a c) = delivered c"
  "buf (logged_ack env a c) = buf c" "sc_entry (logged_ack env a c) = sc_entry c"
  by (auto simp: logged_ack_def sendAck_def conn_Write_def conn_ok_def same_conn_def split: option.splits)

lemma listen_allowed:
  assumes "listen env c = Some (c', err)" and "conn_ok c" and "env_ok env"
  shows "\<exists>es. delivered c' = delivered c @ es \<and> list_all (allowed c) es"
  using assms
proof (induction env c arbitrary: c' err rule: listen.induct)
  case (1 env c)
  from "1.prems"(1) obtain c1 r where h: "handleEntry env c = Some (c1, r)"
    by (subst (asm) listen.simps) (auto split: option.splits)
  from handle_step [OF h "1.prems"(2,3)] obtain es where
    c1: "conn_ok c1" "same_conn c c1" "delivered c1 = delivered c @ es" "list_all (allowed c) es" by blast
  show ?case
  proof (cases r)
    case (Some x)
    then have "c' = c1 \<or> c' = logged_ack env respAckNOK c1"
      using "1.prems"(1) h by (subst (asm) listen.simps) (auto split: if_splits)
    with c1 show ?thesis by (auto simp: logged_ack_step)
  next
    case None
    let ?c = "if ack c1 then logged_ack env respAckOK c1 else c1"
    have "listen env ?c = Some (c', err)"
      using "1.prems"(1) h None by (subst (asm) listen.simps) simp
    moreover have ok: "conn_ok ?c" "same_conn c ?c" "delivered ?c = delivered c1"
      using c1 logged_ack_step(2) [of c1 env respAckOK] by (auto simp: logged_ack_step intro: same_conn_trans)
    ultimately obtain es' where "delivered c' = delivered c1 @ es'" "list_all (allowed ?c) es'"
      using "1.IH" [OF h refl None] "1.prems"(3) by auto
    with c1 allowed_same [OF ok(2)] show ?thesis by (auto simp: list_all_iff)
  qed
qed


text \<open>
  C37: a ping, two zero bytes, is answered with one byte 1 and ends the connection: the server stops
  reading, and on a connection with acknowledgements sends a NOK after the pong.
\<close>

theorem ping_closes_connection:
  assumes "inp c = 0 # 0 # rest" and "ack c" and "\<forall>w. write_result env w = None" and "2 \<le> length (buf c)"
  shows "\<exists>c'. listen env c = Some (c', ErrPonged) \<and> out c' = out c @ [1, 0] \<and> inp c' = rest \<and>
    delivered c' = delivered c"
proof -
  have r: "ReadFull 0 2 c = (c\<lparr>buf := [0, 0] @ drop 2 (buf c), inp := rest\<rparr>, None)"
    using assms(1) by (simp add: ReadFull_def Let_def numeral_2_eq_2)
  have "handleEntry env c = Some (c\<lparr>buf := [0, 0] @ drop 2 (buf c), inp := rest, timeLastActive := now env rest,
      pingsReceived := pingsReceived c + 1, out := out c @ [1], pongsSent := pongsSent c + 1\<rparr>, Some ErrPonged)"
    using assms(3,4) by (simp add: handleEntry_def r Let_def sub_slice_def of_bytes_def Uint16_def answer_ping_def conn_Write_def)
  then show ?thesis using assms(2,3)
    by (subst listen.simps) (simp add: logged_ack_def sendAck_def conn_Write_def)
qed

definition demo_env :: env where
  "demo_env = \<lparr>fromBytes = (\<lambda>bs. (if length bs = 12 then bs else nilId, None)), write_result = (\<lambda>_. None),
     now = (\<lambda>_. 0), process = (\<lambda>_. None)\<rparr>"

definition fresh_conn :: tlsServerConn where
  "fresh_conn = \<lparr>buf = replicate MaxEntrySize 0, validBucketIds = None, sc_entry = zero_entry, timeConnected = 0,
     timeLastActive = 0, pingsReceived = 0, pongsSent = 0, entriesReceived = 0, entriesSucceeded = 0,
     noCopy = False, ack = False, inp = [], inp_end = EOF, out = [], delivered = [], logged = []\<rparr>"

lemma demo_env_ok: "env_ok demo_env"
  by (simp add: env_ok_def demo_env_def fromBytes_ok_def)

lemma fresh_conn_ok: "conn_ok (fresh_conn\<lparr>validBucketIds := v, inp := i, ack := a\<rparr>)"
  by (simp add: conn_ok_def fresh_conn_def)

theorem ping_closes_connection_witness:
  "\<exists>c'. listen demo_env (fresh_conn\<lparr>inp := [0, 0, 9], ack := True\<rparr>) = Some (c', ErrPonged) \<and> out c' = [1, 0] \<and>
    inp c' = [9] \<and> delivered c' = []"
  using ping_closes_connection [of "fresh_conn\<lparr>inp := [0, 0, 9], ack := True\<rparr>" "[9]" demo_env]
  by (simp add: demo_env_def fresh_conn_def)

subsection \<open>A stream of entries\<close>

lemma Uint32_be32_inv:
  assumes "Uint32 bs = Some v"
  shows "take 4 bs = be32 v"
proof -
  obtain x y z w rest where bs: "bs = x # y # z # w # rest"
    using assms by (auto simp: Uint32_def split: list.splits)
  let ?v = "ucast w OR push_bit 8 (ucast z) OR push_bit 16 (ucast y) OR push_bit 24 (ucast x) :: u32"
  have "v = ?v" using assms by (simp add: bs Uint32_def)
  moreover have "(ucast (drop_bit 24 ?v) :: byte) = x" "(ucast (drop_bit 16 ?v) :: byte) = y"
    "(ucast (drop_bit 8 ?v) :: byte) = z" "(ucast ?v :: byte) = w"
    by (rule bit_eqI; auto simp: bit_simps dest: bit_imp_le_length)+
  ultimately show ?thesis by (simp add: bs be32_def)
qed

definition ids_ok :: "tlsServerConn \<Rightarrow> bool" where
  \<comment> \<open>what the verification of the certificate ensures of the bucket IDs\<close>
  "ids_ok c \<longleftrightarrow> (case validBucketIds c of None \<Rightarrow> True | Some ids \<Rightarrow> slice_ok ids \<and> sl_len ids mod 4 = 0)"

lemma bucket_loop_complete:
  assumes "slice_ok ids" "sl_len ids mod 4 = 0" "i = 4 * j"
  shows "bucket_loop want ids i =
    Some (\<exists>k. j \<le> k \<and> 4 * k < sl_len ids \<and> take 4 (drop (4 * k) (sl_array ids)) = want)"
  using assms
proof (induction want ids i arbitrary: j rule: bucket_loop.induct)
  case (1 want ids i)
  show ?case
  proof (cases "i < sl_len ids")
    case True
    then have "4 * Suc j \<le> sl_len ids" using "1.prems"(2,3) by presburger
    then have sub: "sub_slice ids i (i + 4) = Some (take 4 (drop i (sl_array ids)))"
      using "1.prems"(1,3) by (simp add: sub_slice_def slice_ok_def)
    have split: "(\<exists>k\<ge>j. Q k) \<longleftrightarrow> Q j \<or> (\<exists>k\<ge>Suc j. Q k)" for Q
      by (metis Suc_leD le_antisym not_less_eq_eq order_refl)
    show ?thesis
    proof (cases "want = take 4 (drop i (sl_array ids))")
      case True
      with \<open>i < sl_len ids\<close> sub "1.prems"(3) show ?thesis
        by (subst bucket_loop.simps) (auto intro!: exI [of _ j])
    next
      case False
      with \<open>i < sl_len ids\<close> sub "1.IH" [OF True sub False, of "Suc j"] "1.prems"
      show ?thesis by (subst bucket_loop.simps) (auto simp: split [of "\<lambda>k. 4 * k < sl_len ids \<and> _ k"] le_Suc_eq)
    qed
  next
    case False
    with "1.prems"(3) show ?thesis by (subst bucket_loop.simps) auto
  qed
qed

lemma validBucketId_complete:
  assumes "ids_ok c" "6 \<le> length (buf c)" "take 4 (drop 2 (buf c)) = be32 (bucketId e)"
  shows "validBucketId c = Some (allowed c e)"
proof (cases "validBucketIds c")
  case (Some ids)
  have want: "sub_slice (of_bytes (buf c)) 2 6 = Some (be32 (bucketId e))"
    using assms(2,3) by (simp add: sub_slice_def of_bytes_def)
  have "take 4 bs = be32 (bucketId e) \<longleftrightarrow> Uint32 bs = Some (bucketId e)" for bs
    using Uint32_be32_inv [of bs "bucketId e"] Uint32_take [of bs] Uint32_be32 [of "bucketId e" "[]"] by auto
  then show ?thesis
    using Some want assms(1) bucket_loop_complete [of ids 0 0 "be32 (bucketId e)"]
    by (auto simp: validBucketId_def ids_ok_def allowed_def)
qed (simp add: validBucketId_def allowed_def)

definition sendable :: "tlsServerConn \<Rightarrow> Entry \<Rightarrow> bool" where
  "sendable c e \<longleftrightarrow> wire_ok e \<and> L_Message \<le> level e \<and> level e \<le> L_TTL_Meta \<and>
     length (wire_bytes e) \<le> MaxEntrySize \<and> allowed c e"

lemma wire_header: "1 \<le> level e \<Longrightarrow> take 4 (drop 2 (wire_bytes e)) = be32 (bucketId e)"
proof -
  assume "1 \<le> level e"
  then have "[0..<Suc (level e)] = 0 # [1..<Suc (level e)]" by (simp add: upt_conv_Cons del: upt_Suc)
  then show ?thesis by (simp add: wire_bytes_def wire_body_def plain_level_def be16_def del: upt_Suc)
qed

lemma handle_wire:
  assumes "conn_ok c" "env_ok env" "ids_ok c" "sendable c e" "inp c = wire_bytes e @ rest" "process env = (\<lambda>_. None)"
  shows "\<exists>c' d. handleEntry env c = Some (c', None) \<and> same_content e d \<and> delivered c' = delivered c @ [d] \<and>
    inp c' = rest \<and> out c' = out c"
proof -
  let ?w = "wire_bytes e" and ?n = "length (wire_bytes e)"
  have w: "wire_ok e" "3 \<le> level e" "level e \<le> 10" "?n \<le> 65535" "allowed c e"
    using assms(4) by (simp_all add: sendable_def)
  have n: "18 \<le> ?n" using wire_body_min [OF w(1)] w(2) by (simp add: length_wire_bytes)
  have buf: "length (buf c) = 65535" "entry_shape (sc_entry c)" using assms(1) by (simp_all add: conn_ok_def)
  let ?sz = "word_of_nat ?n :: u16"
  have sz: "unat ?sz = ?n" "Uint16 (take 2 ?w) = Some ?sz" "?sz \<noteq> 0" "\<not> ?sz < 6"
    using n w(4) unat_pos [of ?n] pos_less [of ?n 6] Uint16_be16 [of ?sz "[]"] length_wire_bytes [of e]
    by (auto simp: wire_bytes_def)
  let ?c1 = "c\<lparr>buf := take 2 ?w @ drop 2 (buf c), inp := drop 2 ?w @ rest\<rparr>"
  have r1: "ReadFull 0 2 c = (?c1, None)"
    using assms(5) n by (simp add: ReadFull_def Let_def)
  let ?c2 = "?c1\<lparr>timeLastActive := now env (inp ?c1), entriesReceived := entriesReceived c + 1\<rparr>"
  let ?c3 = "?c2\<lparr>buf := ?w @ drop ?n (buf c), inp := rest\<rparr>"
  have "take 2 (buf ?c2) @ drop 2 ?w @ drop ?n (buf ?c2) = (take 2 ?w @ drop 2 ?w) @ drop ?n (buf c)"
  proof -
    have "drop ?n (buf ?c2) = drop ?n (buf c)" using n by (simp add: min_absorb2) (metis add_2_eq_Suc' le_add_diff_inverse2 le_trans numeral_le_iff semiring_norm(68,71))
    then show ?thesis using n by (simp add: min_absorb2)
  qed
  then have r2: "ReadFull 2 ?n ?c2 = (?c3, None)"
    using n ReadFull_ok [of 2 ?n ?c2 "drop 2 ?w" rest] by simp
  have valid: "validBucketId ?c3 = Some True"
    using validBucketId_complete [of ?c3 e] assms(3) n w(2,5) wire_header [of e]
    by (simp add: ids_ok_def allowed_def)
  let ?d = "transfer e [0..<Suc (level e)] (Entry_Reset (sc_entry c))"
  have dec: "Entry_Decode (fromBytes env) (sc_entry c) \<lparr>sl_array = ?w @ drop ?n (buf c), sl_len = ?n\<rparr> [noCopy c] = Some (?d, None)"
    using w assms(2) buf by (intro Decode_wire) (simp_all add: slice_ok_def sl_bytes_def env_ok_def)
  have same: "same_content e ?d"
    using w buf(2) by (intro transfer_same_content) (simp_all add: wire_ok_def)
  have "receive_entry env ?sz (?c1\<lparr>timeLastActive := now env (inp ?c1)\<rparr>) =
      Some (process_entry env ?d (?c3\<lparr>sc_entry := ?d\<rparr>))"
    using r2 valid dec sz by (simp add: receive_entry_def del: upt_Suc)
  moreover have "sub_slice (of_bytes (buf ?c1)) 0 2 = Some (take 2 ?w)"
    using n by (simp add: sub_slice_def of_bytes_def)
  ultimately have "handleEntry env c = Some (process_entry env ?d (?c3\<lparr>sc_entry := ?d\<rparr>))"
    using r1 sz by (simp add: handleEntry_def del: upt_Suc)
  with same assms(6) show ?thesis by (simp add: process_entry_def Let_def del: upt_Suc)
qed

lemma logged_ack_written:
  "\<forall>w. write_result env w = None \<Longrightarrow> logged_ack env a c = c\<lparr>out := out c @ [resp_byte a]\<rparr>"
  by (simp add: logged_ack_def sendAck_def conn_Write_def)

lemma ids_ok_same: "same_conn c c' \<Longrightarrow> ids_ok c' = ids_ok c"
  by (simp add: ids_ok_def same_conn_def)

lemma sendable_same: "same_conn c c' \<Longrightarrow> sendable c' e = sendable c e"
  by (simp add: sendable_def allowed_same)

text \<open>The loop gets through the entries at the front of the stream, whatever follows them.\<close>

lemma listen_frames:
  assumes "conn_ok c" "env_ok env" "ids_ok c" "\<forall>e\<in>set es. sendable c e" "inp c = concat (map wire_bytes es) @ rest"
    "process env = (\<lambda>_. None)"
  shows "\<exists>c1 ds. listen env c = listen env c1 \<and> conn_ok c1 \<and> same_conn c c1 \<and> inp c1 = rest \<and> delivered c1 = delivered c @ ds \<and>
    list_all2 same_content es ds \<and>
    (ack c \<longrightarrow> (\<forall>w. write_result env w = None) \<longrightarrow> out c1 = out c @ replicate (length es) 1)"
  using assms(1,3-5)
proof (induction es arbitrary: c)
  case Nil
  then show ?case by (intro exI [of _ c] exI [of _ "[]"]) simp
next
  case (Cons e es)
  have "sendable c e" "inp c = wire_bytes e @ (concat (map wire_bytes es) @ rest)" using Cons.prems(3,4) by simp_all
  from handle_wire [OF Cons.prems(1) assms(2) Cons.prems(2) this assms(6)] obtain c1 d where
    h: "handleEntry env c = Some (c1, None)" "same_content e d" "delivered c1 = delivered c @ [d]"
      "inp c1 = concat (map wire_bytes es) @ rest" "out c1 = out c"
    by blast
  let ?c = "if ack c1 then logged_ack env respAckOK c1 else c1"
  have l: "listen env c = listen env ?c" by (subst listen.simps) (simp add: h(1))
  have ok: "conn_ok ?c" "same_conn c ?c" "delivered ?c = delivered c @ [d]" "inp ?c = concat (map wire_bytes es) @ rest"
    "same_conn c c1"
    using handle_step [OF h(1) Cons.prems(1) assms(2)] same_conn_trans [OF _ logged_ack_step(2)] h(3,4)
    by (auto simp: logged_ack_step)
  from Cons.IH [OF ok(1)] ok(2,4) Cons.prems(2,3) obtain c2 ds where
    c2: "listen env ?c = listen env c2" "conn_ok c2" "same_conn ?c c2" "inp c2 = rest" "delivered c2 = delivered ?c @ ds"
      "list_all2 same_content es ds"
      "ack ?c \<longrightarrow> (\<forall>w. write_result env w = None) \<longrightarrow> out c2 = out ?c @ replicate (length es) 1"
    by (auto simp: ids_ok_same [OF ok(2)] sendable_same [OF ok(2)])
  have "out c2 = out c @ replicate (length (e # es)) 1" if "ack c" "\<forall>w. write_result env w = None"
    using that c2(7) h(5) ok(2,5) logged_ack_written [OF that(2)] by (simp add: same_conn_def)
  with c2 l ok(2,3) h(2) show ?case
    by (intro exI [of _ c2] exI [of _ "d # ds"]) (auto intro: same_conn_trans)
qed

lemma listen_end: "inp c = p \<Longrightarrow> p = [] \<Longrightarrow> \<exists>c' err. listen env c = Some (c', err) \<and> delivered c' = delivered c"
  by (subst listen.simps) (auto simp: handleEntry_def ReadFull_def Let_def logged_ack_step)

text \<open>A part of an entry at the end of the stream ends the loop and is not processed.\<close>

lemma listen_part:
  assumes "conn_ok c" "sendable c e" "strict_prefix (inp c) (wire_bytes e)"
  shows "\<exists>c' err. listen env c = Some (c', IoErr err) \<and> delivered c' = delivered c"
proof -
  let ?w = "wire_bytes e" and ?m = "length (inp c)"
  have w: "wire_ok e" "3 \<le> level e" "length ?w \<le> 65535" using assms(2) by (simp_all add: sendable_def)
  have n: "18 \<le> length ?w" using wire_body_min [OF w(1)] w(2) by (simp add: length_wire_bytes)
  have m: "?m < length ?w" "take ?m ?w = inp c" using assms(3) prefix_length_less [OF assms(3)] by (auto simp: strict_prefix_def prefix_def)
  have "\<exists>c' err. handleEntry env c = Some (c', Some (IoErr err)) \<and> delivered c' = delivered c"
  proof (cases "?m < 2")
    case True
    then show ?thesis by (auto simp: handleEntry_def ReadFull_def Let_def)
  next
    case False
    let ?sz = "word_of_nat (length ?w) :: u16"
    have two: "take 2 (inp c) = be16 ?sz"
    proof -
      have "take 2 (inp c) = take 2 (take ?m ?w)" using m(2) by simp
      then show ?thesis using False by (simp add: min_absorb1 wire_bytes_def)
    qed
    have sz: "unat ?sz = length ?w" "?sz \<noteq> 0" "\<not> ?sz < 6"
      using n w(3) unat_pos [of "length ?w"] pos_less [of "length ?w" 6] by auto
    have "ReadFull 0 2 c = (c\<lparr>buf := be16 ?sz @ drop 2 (buf c), inp := drop 2 (inp c)\<rparr>, None)"
      using False two by (simp add: ReadFull_def Let_def)
    then have "\<exists>c1. handleEntry env c = receive_entry env ?sz c1 \<and> delivered c1 = delivered c \<and> inp c1 = drop 2 (inp c)"
      using sz(2) Uint16_be16 [of ?sz "[]"] by (auto simp: handleEntry_def sub_slice_def of_bytes_def)
    then obtain c1 where c1: "handleEntry env c = receive_entry env ?sz c1" "delivered c1 = delivered c" "inp c1 = drop 2 (inp c)" by blast
    have "length (take (length ?w - 2) (inp c1)) \<noteq> length ?w - 2" using c1(3) m(1) False by simp
    then show ?thesis using c1 sz by (auto simp: receive_entry_def ReadFull_def Let_def)
  qed
  then obtain c' err where "handleEntry env c = Some (c', Some (IoErr err))" "delivered c' = delivered c" by blast
  then show ?thesis by (subst listen.simps) (auto simp: logged_ack_step)
qed

text \<open>
  C11: a client that sends well-formed entries, one after the other on one connection and each for
  a bucket of its certificate, gets each of them processed exactly once, in order and with the
  content that was sent, and gets one OK per entry; when the client closes, the server ends.
\<close>

theorem listen_processes_stream:
  assumes "conn_ok c" and "env_ok env" and "ids_ok c" and "\<forall>e\<in>set es. sendable c e"
    and "inp c = concat (map wire_bytes es)" and "inp_end c = EOF" and "ack c"
    and "process env = (\<lambda>_. None)" and "\<forall>w. write_result env w = None"
  shows "\<exists>c' ds. listen env c = Some (c', IoErr EOF) \<and> delivered c' = delivered c @ ds \<and>
    list_all2 same_content es ds \<and> out c' = out c @ replicate (length es) 1 @ [0]"
proof -
  obtain c1 ds where c1: "listen env c = listen env c1" "same_conn c c1" "inp c1 = []" "delivered c1 = delivered c @ ds"
    "list_all2 same_content es ds" "out c1 = out c @ replicate (length es) 1"
    using listen_frames [of c env es "[]"] assms by auto
  then have "handleEntry env c1 = Some (c1, Some (IoErr EOF))" "ack c1"
    using assms(6,7) by (simp_all add: handleEntry_def ReadFull_def Let_def same_conn_def)
  then have "listen env c1 = Some (c1\<lparr>out := out c1 @ [0]\<rparr>, IoErr EOF)"
    by (subst listen.simps) (simp add: logged_ack_written [OF assms(9)])
  with c1 show ?thesis by simp
qed

theorem listen_processes_stream_witness:
  "\<exists>c' ds. listen demo_env (fresh_conn\<lparr>validBucketIds := Some (of_bytes [0, 0, 0, 123]),
      inp := wire_bytes sample_entry @ wire_bytes sample_entry, ack := True\<rparr>) = Some (c', IoErr EOF) \<and>
    delivered c' = ds \<and> list_all2 same_content [sample_entry, sample_entry] ds \<and> out c' = [1, 1, 0]"
proof -
  let ?c = "fresh_conn\<lparr>validBucketIds := Some (of_bytes [0, 0, 0, 123]),
      inp := wire_bytes sample_entry @ wire_bytes sample_entry, ack := True\<rparr>"
  have "allowed ?c sample_entry"
    by (auto simp: allowed_def of_bytes_def Uint32_def sample_entry_def intro!: exI [of _ 0])
  then have "\<forall>e\<in>set [sample_entry, sample_entry]. sendable ?c e"
    by (simp add: sendable_def sample_entry_ok sample_entry_size)
  from listen_processes_stream [OF fresh_conn_ok demo_env_ok _ this]
  show ?thesis by (simp add: ids_ok_def demo_env_def fresh_conn_def numeral_2_eq_2)
qed

text \<open>The entry whose meta length wraps gets past every check of the connection, to the decoder.\<close>

lemma handle_wrap_panics:
  assumes "conn_ok c" "env_ok env" "ids_ok c" "allowed c (zero_entry\<lparr>bucketId := v\<rparr>)" "inp c = wrap_entry v @ rest"
  shows "handleEntry env c = None"
proof -
  let ?w = "wrap_entry v"
  have n: "length ?w = 28" "take 2 ?w = [0, 28]" "take 4 (drop 2 ?w) = be32 v" by (simp_all add: wrap_entry_def)
  have buf: "length (buf c) = 65535" using assms(1) by (simp add: conn_ok_def)
  let ?c1 = "c\<lparr>buf := [0, 28] @ drop 2 (buf c), inp := drop 2 ?w @ rest\<rparr>"
  have r1: "ReadFull 0 2 c = (?c1, None)" using assms(5) n ReadFull_ok [of 0 2 c "[0, 28]" "drop 2 ?w @ rest"] by (simp add: wrap_entry_def)
  let ?c2 = "?c1\<lparr>timeLastActive := now env (inp ?c1), entriesReceived := entriesReceived c + 1\<rparr>"
  let ?c3 = "?c2\<lparr>buf := ?w @ drop 28 (buf c), inp := rest\<rparr>"
  have "[0, 28] @ drop 2 ?w = ?w" using n(2) append_take_drop_id [of 2 ?w] by simp
  then have r2: "ReadFull 2 28 ?c2 = (?c3, None)"
    using n ReadFull_ok [of 2 28 ?c2 "drop 2 ?w" rest] by (simp add: numeral_2_eq_2)
  have "validBucketId ?c3 = Some (allowed ?c3 (zero_entry\<lparr>bucketId := v\<rparr>))"
    by (rule validBucketId_complete) (use assms(3) n in \<open>simp_all add: ids_ok_def\<close>)
  then have valid: "validBucketId ?c3 = Some True" using assms(4) by (simp add: allowed_def)
  have "fromBytes_ok (fromBytes env)" using assms(2) by (simp add: env_ok_def)
  then have "receive_entry env 28 (?c1\<lparr>timeLastActive := now env (inp ?c1)\<rparr>) = None"
    using r2 valid decode_meta_length_wraps by (simp add: receive_entry_def)
  moreover have "sub_slice (of_bytes (buf ?c1)) 0 2 = Some [0, 28]" by (simp add: sub_slice_def of_bytes_def)
  ultimately show ?thesis using r1 by (simp add: handleEntry_def Uint16_def)
qed

definition stray_entry :: "byte list" where
  "stray_entry = [0, 21, 0, 0, 0, 124, 1, 2, 3, 4, 5, 6, 7, 8, 9, 10, 11, 12, 6, 0, 9]"


end
