(* ===== verification/Sync_Pool.thy ===== *)
theory Sync_Pool
  imports Entry_Data
begin

text \<open>
  \<^verbatim>\<open>sync.Pool\<close>, which the program uses for entries, loggers and server connections.
  \<^verbatim>\<open>Get\<close> removes and returns some element put before, or returns nil, whatever is in the pool;
  the choice is the first argument of \<open>pool_get\<close>. The locale \<open>object_pool\<close> is what the program
  relies on: an object is made clean before it is put back, so whatever \<^verbatim>\<open>Get\<close> chooses, the
  caller works on a clean object.
\<close>

definition pool_get :: "nat option \<Rightarrow> 'a list \<Rightarrow> 'a option \<times> 'a list" where
  "pool_get pick p = (case pick of
     None \<Rightarrow> (None, p)
   | Some i \<Rightarrow> if i < length p then (Some (p ! i), take i p @ drop (Suc i) p) else (None, p))"

lemma pool_get_cases:
  assumes "pool_get pick p = (r, p')"
  obtains "r = None" "p' = p" | i where "i < length p" "r = Some (p ! i)" "p' = take i p @ drop (Suc i) p"
proof (cases "\<exists>i. pick = Some i \<and> i < length p")
  case True
  with assms that(2) show thesis by (auto simp: pool_get_def)
next
  case False
  with assms that(1) show thesis by (cases pick) (auto simp: pool_get_def)
qed

lemma pool_get_subset: "pool_get pick p = (r, p') \<Longrightarrow> set p' \<subseteq> set p"
  by (erule pool_get_cases) (auto dest: in_set_takeD in_set_dropD)

lemma pool_get_mem: "pool_get pick p = (Some x, p') \<Longrightarrow> x \<in> set p"
  by (erule pool_get_cases) auto

lemma pool_get_distinct:
  assumes "pool_get pick p = (r, p')" "distinct p"
  shows "distinct p'" "r = Some x \<Longrightarrow> x \<notin> set p'"
proof -
  from assms(1) have "distinct p' \<and> (r = Some x \<longrightarrow> x \<notin> set p')"
  proof (cases rule: pool_get_cases)
    case (2 i)
    then have "p = take i p @ p ! i # drop (Suc i) p" by (simp add: Cons_nth_drop_Suc)
    with assms(2) have "distinct (take i p @ p ! i # drop (Suc i) p)" by metis
    with 2 show ?thesis by auto
  qed (use assms(2) in auto)
  then show "distinct p'" "r = Some x \<Longrightarrow> x \<notin> set p'" by blast+
qed

locale object_pool =
  fixes fresh :: 'a
    and reset :: "'a \<Rightarrow> 'a"
    and usable :: "'a \<Rightarrow> bool"
    and clean :: "'a \<Rightarrow> bool"
  assumes clean_fresh: "clean fresh"
    and clean_usable: "clean x \<Longrightarrow> usable x"
    and clean_reset: "usable x \<Longrightarrow> clean (reset x)"
begin

lemma get_clean:
  assumes "list_all clean p" "pool_get pick p = (r, p')"
  shows "clean (case r of Some x \<Rightarrow> x | None \<Rightarrow> fresh)" "list_all clean p'"
proof -
  show "list_all clean p'" using pool_get_subset [OF assms(2)] assms(1) by (auto simp: list_all_iff)
  show "clean (case r of Some x \<Rightarrow> x | None \<Rightarrow> fresh)"
    using assms(1) pool_get_mem [of pick p _ p'] assms(2) clean_fresh by (auto simp: list_all_iff split: option.split)
qed

lemma put_clean: "list_all clean p \<Longrightarrow> usable x \<Longrightarrow> list_all clean (reset x # p)"
  by (simp add: clean_reset)

end

subsection \<open>The pool of entries\<close>

definition entry_usable :: "Entry \<Rightarrow> bool" where
  "entry_usable e \<longleftrightarrow> entry_shape e \<and> length (message e) \<le> MaxMessageSize"

definition entry_clean :: "Entry \<Rightarrow> bool" where
  \<comment> \<open>an entry as \<^verbatim>\<open>Acquire\<close> returns it: no ID, no logger, nothing counted, level \<^verbatim>\<open>_3_Message\<close>\<close>
  "entry_clean e \<longleftrightarrow> entry_usable e \<and> eid e = nilId \<and> logger e = None \<and> level e = L_Message \<and>
     tagsCount e = 0 \<and> metricCount e = 0 \<and> metaCount e = 0 \<and> stackTraceCount e = 0 \<and> ttlEntry e = 0 \<and> ttlMeta e = 0"

interpretation entry_pool: object_pool "zero_entry\<lparr>level := L_Message\<rparr>" Entry_Reset entry_usable entry_clean
  by unfold_locales
    (auto simp: entry_clean_def entry_usable_def Entry_Reset_def zero_entry_def entry_shape_def)

lemma clean_entry_ok: "entry_clean e \<Longrightarrow> entry_ok e"
  by (simp add: entry_clean_def entry_usable_def entry_ok_def counts_ok_def strings_ok_def)

lemma ok_entry_usable: "entry_ok e \<Longrightarrow> entry_usable e"
  by (simp add: entry_usable_def entry_ok_def strings_ok_def)

end
