(* ===== verification/Tls_Server.thy ===== *)
theory Tls_Server
  imports Server_Conn Sync_Pool
begin

text \<open>
  \<^verbatim>\<open>peer/tls_server.go\<close>: the check of a client's certificate, the connection taken from the pool
  and returned to it, and a connection from handshake to release. The handshake itself, the
  listener and the fields of a certificate the server does not look at are outside the model; the
  choice of \<^verbatim>\<open>sync.Pool.Get\<close> is the argument \<open>got\<close>.
\<close>

record x509_cert =
  SerialNumber :: "int option"
  SubjectKeyId :: "go_slice option" \<comment> \<open>\<open>None\<close> is the nil slice\<close>

fun nat_bits :: "nat \<Rightarrow> nat" where
  "nat_bits n = (if n = 0 then 0 else Suc (nat_bits (n div 2)))"

declare nat_bits.simps [simp del]

definition BitLen :: "int \<Rightarrow> nat" where
  "BitLen x = nat_bits (nat \<bar>x\<bar>)"

lemma nat_bits_le: "nat_bits n \<le> k \<longleftrightarrow> n < 2 ^ k"
proof (induction n arbitrary: k rule: nat_bits.induct)
  case (1 n)
  show ?case
  proof (cases "n = 0")
    case False
    have "n < 2 ^ Suc j \<longleftrightarrow> n div 2 < 2 ^ j" for j
      by (simp add: div_less_iff_less_mult mult.commute)
    with 1 False show ?thesis by (subst nat_bits.simps) (cases k; simp)
  qed (simp add: nat_bits.simps)
qed

definition VerifyConnection ::
  "(x509_cert \<Rightarrow> go_error option) option \<Rightarrow> x509_cert option list option \<Rightarrow> go_error option option" where
  \<comment> \<open>the option \<^verbatim>\<open>Auth\<close> and \<^verbatim>\<open>cs.PeerCertificates\<close>\<close>
  "VerifyConnection auth certs =
    (case certs of
       None \<Rightarrow> Some (Some ErrInvalidCertificate)
     | Some [] \<Rightarrow> None
     | Some (None # _) \<Rightarrow> Some (Some ErrInvalidCertificate)
     | Some (Some cert # _) \<Rightarrow>
         if (case SerialNumber cert of None \<Rightarrow> True | Some n \<Rightarrow> BitLen n > 16 * 8) then Some (Some ErrInvalidSerialNumber)
         else if (case SubjectKeyId cert of None \<Rightarrow> True | Some k \<Rightarrow> sl_len k mod 4 \<noteq> 0) then Some (Some ErrInvalidSubjectKeyId)
         else (case auth of None \<Rightarrow> Some None | Some f \<Rightarrow> Some (f cert)))"

definition FillBytes :: "int \<Rightarrow> nat \<Rightarrow> byte list option" where
  \<comment> \<open>\<^verbatim>\<open>big.Int.FillBytes\<close> on a buffer of \<open>n\<close> bytes: panics when the absolute value does not fit\<close>
  "FillBytes x n = (if nat \<bar>x\<bar> < 2 ^ (8 * n)
     then Some (map (\<lambda>i. word_of_nat (nat \<bar>x\<bar> div 2 ^ (8 * (n - 1 - i)))) [0..<n]) else None)"

record tls_state =
  PeerCertificates :: "x509_cert option list option"
  NegotiatedProtocol :: gostring
  stream :: "byte list"     \<comment> \<open>what the client sends\<close>
  stream_end :: io_error

abbreviation (input) protoV11Ack :: gostring where "protoV11Ack \<equiv> lit ''v1.1-ack''"

definition new_conn :: "bool \<Rightarrow> tlsServerConn" where
  "new_conn optNoCopy = fresh_conn\<lparr>noCopy := optNoCopy\<rparr>"

definition acquireConn :: "bool \<Rightarrow> int \<Rightarrow> tlsServerConn option \<Rightarrow> tls_state \<Rightarrow> (tlsServerConn option) option" where
  \<comment> \<open>\<open>Some None\<close> is the error "missing peer certificates"\<close>
  "acquireConn optNoCopy unixNow got st =
    (case PeerCertificates st of
       None \<Rightarrow> Some None
     | Some certs \<Rightarrow> do {
         let c = (case got of Some v \<Rightarrow> v | None \<Rightarrow> new_conn optNoCopy);
         p \<leftarrow> nth_opt certs 0;
         cert \<leftarrow> p;
         serial \<leftarrow> SerialNumber cert;
         certId \<leftarrow> FillBytes serial 16;
         Some (Some (c\<lparr>validBucketIds := SubjectKeyId cert, inp := stream st, inp_end := stream_end st, out := [],
           ack := (NegotiatedProtocol st = protoV11Ack), timeConnected := unixNow, timeLastActive := unixNow\<rparr>)) })"

definition releaseConn :: "tlsServerConn \<Rightarrow> tlsServerConn" where
  \<comment> \<open>the connection as it is put into the pool\<close>
  "releaseConn c = c\<lparr>inp := [], validBucketIds := None, pingsReceived := 0, pongsSent := 0,
     entriesReceived := 0, entriesSucceeded := 0\<rparr>"

definition conn_clean :: "tlsServerConn \<Rightarrow> bool" where
  "conn_clean c \<longleftrightarrow> conn_ok c \<and> validBucketIds c = None \<and> pingsReceived c = 0 \<and> pongsSent c = 0 \<and>
     entriesReceived c = 0 \<and> entriesSucceeded c = 0"

interpretation conn_pool: object_pool "new_conn nc" releaseConn conn_ok conn_clean for nc
  by unfold_locales (auto simp: conn_clean_def conn_ok_def new_conn_def fresh_conn_def releaseConn_def)

record conn_report =
  rep_error :: conn_error
  rep_finished :: bool  \<comment> \<open>whether "Finished connection" is logged with the counters\<close>
  rep_conn :: tlsServerConn

definition handleConnection ::
  "env \<Rightarrow> bool \<Rightarrow> int \<Rightarrow> tlsServerConn option \<Rightarrow> conn_error option \<Rightarrow> tls_state \<Rightarrow>
    (conn_error + conn_report) option" where
  \<comment> \<open>with the outcome of the handshake; \<open>Inl\<close> is an error before the connection was acquired\<close>
  "handleConnection env optNoCopy unixNow got handshake st =
    (case handshake of
       Some err \<Rightarrow> Some (Inl err)
     | None \<Rightarrow> do {
         acq \<leftarrow> acquireConn optNoCopy unixNow got st;
         (case acq of
            None \<Rightarrow> Some (Inl (LogErr (ErrExternal (lit ''missing peer certificates''))))
          | Some c \<Rightarrow> do {
              (c, err) \<leftarrow> listen env c;
              Some (Inr \<lparr>rep_error = err, rep_finished = (0 <s entriesReceived c \<or> 0 <s pingsReceived c),
                rep_conn = releaseConn c\<rparr>) }) })"

lemma acquire_verified:
  assumes "VerifyConnection auth (PeerCertificates st) = Some None" "PeerCertificates st = Some (Some cert # rest)"
  shows "\<exists>c k. acquireConn nc t got st = Some (Some c) \<and> SubjectKeyId cert = Some k \<and> sl_len k mod 4 = 0 \<and>
    c = (case got of Some v \<Rightarrow> v | None \<Rightarrow> new_conn nc)\<lparr>validBucketIds := Some k, inp := stream st, inp_end := stream_end st,
      out := [], ack := (NegotiatedProtocol st = protoV11Ack), timeConnected := t, timeLastActive := t\<rparr>"
proof -
  obtain n k where n: "SerialNumber cert = Some n" "BitLen n \<le> 128" "SubjectKeyId cert = Some k" "sl_len k mod 4 = 0"
    using assms by (auto simp: VerifyConnection_def split: option.splits if_splits)
  then have "\<exists>b. FillBytes n 16 = Some b" by (simp add: FillBytes_def BitLen_def nat_bits_le)
  with n assms(2) show ?thesis by (auto simp: acquireConn_def Let_def)
qed

text \<open>
  For a certificate that passed the server's verification, a connection is acquired without a
  panic, from the pool or new, with the bucket IDs of this certificate, and the check of a bucket
  ID never panics on it.
\<close>

lemma verified_connection_acquired:
  assumes "VerifyConnection auth (PeerCertificates st) = Some None" and "PeerCertificates st = Some (Some cert # rest)"
    and "pred_option slice_ok (SubjectKeyId cert)"
  shows "\<exists>c. acquireConn nc t got st = Some (Some c) \<and> validBucketIds c = SubjectKeyId cert \<and>
    (\<forall>b. 6 \<le> length b \<longrightarrow> validBucketId (c\<lparr>buf := b\<rparr>) \<noteq> None)"
proof -
  obtain c k where c: "acquireConn nc t got st = Some (Some c)" "SubjectKeyId cert = Some k" "sl_len k mod 4 = 0"
      "validBucketIds c = Some k"
    using acquire_verified [OF assms(1,2), of nc t got] by auto
  have "validBucketId (c\<lparr>buf := b\<rparr>) \<noteq> None" if "6 \<le> length b" for b
    using that c assms(3) bucket_loop_complete [of k 0 0]
    by (auto simp: validBucketId_def sub_slice_def of_bytes_def)
  with c show ?thesis by auto
qed

definition cert_buckets :: "x509_cert \<Rightarrow> u32 set" where
  "cert_buckets cert = (case SubjectKeyId cert of None \<Rightarrow> {}
     | Some k \<Rightarrow> {v. \<exists>i. 4 * i < sl_len k \<and> Uint32 (drop (4 * i) (sl_array k)) = Some v})"

text \<open>
  End to end, over a whole connection from handshake to release: every entry handed to the
  processor belongs to a bucket of the certificate that passed verification, also on a pooled
  connection that served another client before.
\<close>

lemma connection_confined_to_buckets:
  assumes "handleConnection env nc t got None st = Some (Inr rep)"
    and "VerifyConnection auth (PeerCertificates st) = Some None" and "PeerCertificates st = Some (Some cert # rest)"
    and "env_ok env" and "list_all conn_clean pool" and "pool_get pick pool = (got, pool')"
  shows "\<exists>es. delivered (rep_conn rep) = delivered (case got of Some v \<Rightarrow> v | None \<Rightarrow> new_conn nc) @ es \<and>
    (\<forall>e\<in>set es. bucketId e \<in> cert_buckets cert)"
proof -
  obtain c k where c: "acquireConn nc t got st = Some (Some c)" "SubjectKeyId cert = Some k"
      "c = (case got of Some v \<Rightarrow> v | None \<Rightarrow> new_conn nc)\<lparr>validBucketIds := Some k, inp := stream st, inp_end := stream_end st,
        out := [], ack := (NegotiatedProtocol st = protoV11Ack), timeConnected := t, timeLastActive := t\<rparr>"
    using acquire_verified [OF assms(2,3), of nc t got] by blast
  with assms(1) obtain c' err where l: "listen env c = Some (c', err)" "rep_conn rep = releaseConn c'"
    by (auto simp: handleConnection_def bind_eq_Some_conv)
  have ok: "conn_ok c"
    using conn_pool.get_clean(1) [OF assms(5,6), of nc] by (simp add: c(3) conn_clean_def conn_ok_def)
  from listen_allowed [OF l(1) ok assms(4)] obtain es where
    es: "delivered c' = delivered c @ es" "list_all (allowed c) es" by blast
  moreover have "bucketId e \<in> cert_buckets cert" if "allowed c e" for e
    using that c(2) by (simp add: allowed_def cert_buckets_def c(3))
  ultimately show ?thesis
    using l(2) c(3) by (auto simp: releaseConn_def list_all_iff)
qed

subsection \<open>Serving a stream of entries\<close>

definition deliverable :: "x509_cert \<Rightarrow> Entry \<Rightarrow> bool" where
  \<comment> \<open>an entry within the limits of the wire format, for a bucket of the certificate\<close>
  "deliverable cert e \<longleftrightarrow> wire_ok e \<and> L_Message \<le> level e \<and> level e \<le> L_TTL_Meta \<and>
     length (wire_bytes e) \<le> MaxEntrySize \<and> bucketId e \<in> cert_buckets cert"

lemma deliverable_sendable: "deliverable cert e \<Longrightarrow> SubjectKeyId cert = Some k \<Longrightarrow> validBucketIds c = Some k \<Longrightarrow> sendable c e"
  by (auto simp: deliverable_def sendable_def cert_buckets_def allowed_def)

lemma serve_stream:
  assumes "VerifyConnection auth (PeerCertificates st) = Some None" "PeerCertificates st = Some (Some cert # rest)"
    "pred_option slice_ok (SubjectKeyId cert)" "env_ok env" "process env = (\<lambda>_. None)"
    "list_all conn_clean pool" "pool_get pick pool = (got, pool')"
    "\<forall>e\<in>set es. deliverable cert e" "stream st = concat (map wire_bytes es) @ p"
    "p = [] \<or> (\<exists>e. deliverable cert e \<and> strict_prefix p (wire_bytes e))"
  shows "\<exists>rep ds. handleConnection env nc t got None st = Some (Inr rep) \<and>
    delivered (rep_conn rep) = delivered (case got of Some v \<Rightarrow> v | None \<Rightarrow> new_conn nc) @ ds \<and> list_all2 same_content es ds"
proof -
  obtain c k where c: "acquireConn nc t got st = Some (Some c)" "SubjectKeyId cert = Some k" "sl_len k mod 4 = 0"
      "c = (case got of Some v \<Rightarrow> v | None \<Rightarrow> new_conn nc)\<lparr>validBucketIds := Some k, inp := stream st, inp_end := stream_end st,
        out := [], ack := (NegotiatedProtocol st = protoV11Ack), timeConnected := t, timeLastActive := t\<rparr>"
    using acquire_verified [OF assms(1,2), of nc t got] by (elim exE conjE) (rule that)
  have ok: "conn_ok c" "ids_ok c" "validBucketIds c = Some k" "inp c = concat (map wire_bytes es) @ p"
    using conn_pool.get_clean(1) [OF assms(6,7), of nc] assms(3,9) c(2,3) by (simp_all add: c(4) conn_clean_def conn_ok_def ids_ok_def)
  have "\<forall>e\<in>set es. sendable c e" using assms(8) deliverable_sendable [OF _ c(2) ok(3)] by blast
  from listen_frames [OF ok(1) assms(4) ok(2) this ok(4) assms(5)] obtain c1 ds where
    c1: "listen env c = listen env c1" "conn_ok c1" "same_conn c c1" "inp c1 = p" "delivered c1 = delivered c @ ds"
      "list_all2 same_content es ds" by blast
  have "validBucketIds c1 = Some k" using c1(3) ok(3) by (simp add: same_conn_def)
  then have "\<exists>c' err. listen env c1 = Some (c', err) \<and> delivered c' = delivered c1"
    using assms(10) listen_part [OF c1(2), of _ env] listen_end [OF c1(4), of env] deliverable_sendable [OF _ c(2)] c1(4) by blast
  then obtain c' err where c': "listen env c = Some (c', err)" "delivered c' = delivered c @ ds" using c1(1,5) by auto
  then have "\<exists>rep. handleConnection env nc t got None st = Some (Inr rep) \<and> delivered (rep_conn rep) = delivered c @ ds"
    using c(1) by (simp add: handleConnection_def releaseConn_def)
  with c1(6) c(4) show ?thesis by auto
qed

definition demo_cert :: x509_cert where
  "demo_cert = \<lparr>SerialNumber = Some 77, SubjectKeyId = Some (of_bytes [0, 0, 0, 123])\<rparr>"

definition demo_state :: tls_state where
  "demo_state = \<lparr>PeerCertificates = Some [Some demo_cert], NegotiatedProtocol = protoV11Ack, stream = stray_entry, stream_end = EOF\<rparr>"

lemma demo_verified: "VerifyConnection None (PeerCertificates demo_state) = Some None"
  by code_simp

lemma verified_connection_acquired_witness:
  "\<exists>c. acquireConn False 0 None demo_state = Some (Some c) \<and> validBucketIds c = SubjectKeyId demo_cert \<and>
    (\<forall>b. 6 \<le> length b \<longrightarrow> validBucketId (c\<lparr>buf := b\<rparr>) \<noteq> None)"
  by (rule verified_connection_acquired [OF demo_verified]) (simp_all add: demo_state_def demo_cert_def)

lemma connection_confined_to_buckets_witness:
  "\<exists>rep es. handleConnection demo_env False 0 None None demo_state = Some (Inr rep) \<and> delivered (rep_conn rep) = es \<and>
    (\<forall>e\<in>set es. bucketId e \<in> cert_buckets demo_cert)"
proof -
  obtain c k where c: "acquireConn False 0 None demo_state = Some (Some c)" "c = (new_conn False)\<lparr>validBucketIds := Some k, inp := stray_entry,
      inp_end := EOF, out := [], ack := True, timeConnected := 0, timeLastActive := 0\<rparr>" "k = of_bytes [0, 0, 0, 123]"
    using acquire_verified [OF demo_verified, of demo_cert "[]" False 0 None] by (auto simp: demo_state_def demo_cert_def)
  have "\<exists>r. listen demo_env c = Some r"
    by (subst listen.simps) (simp add: c(2,3) handleEntry_def ReadFull_def stray_entry_def fresh_conn_def new_conn_def Let_def
      sub_slice_def of_bytes_def Uint16_def receive_entry_def validBucketId_def bucket_loop.simps)
  then obtain rep where h: "handleConnection demo_env False 0 None None demo_state = Some (Inr rep)"
    using c(1) by (auto simp: handleConnection_def)
  show ?thesis
    using connection_confined_to_buckets [OF h demo_verified, of demo_cert "[]" "[]" None "[]"] h demo_env_ok
    by (auto simp: demo_state_def new_conn_def fresh_conn_def pool_get_def)
qed

end
