(* ===== verification/Auth.thy ===== *)
theory Auth
  imports Tls_Server
begin

text \<open>
  \<^verbatim>\<open>auth/certificate.go\<close>, \<^verbatim>\<open>auth/csr.go\<close> and \<^verbatim>\<open>auth/private_key.go\<close>: building certificates from options
  and signing requests, what a certificate is good for, and PEM files. The packages \<^verbatim>\<open>crypto/x509\<close>,
  \<^verbatim>\<open>crypto/ed25519\<close> and \<^verbatim>\<open>encoding/pem\<close> are parameters: signing, parsing, the public key of a private
  one, and the encoding and decoding of a PEM block.
\<close>

datatype auth_error =
    ErrInvalidSignatureAlgorithm
  | ErrInvalidInput
  | ErrInvalidBlockType
  | AuthErr gostring

datatype CertificateType = Unset | Client | Server | Root

record pkix_name =
  CommonName :: gostring
  NameSerial :: gostring
  Country :: "gostring list"
  ExtraNames :: "(gostring \<times> gostring) list" \<comment> \<open>attribute type and value\<close>
  Locality :: "gostring list"
  Names :: "(gostring \<times> gostring) list"
  Organization :: "gostring list"
  OrganizationalUnit :: "gostring list"
  PostalCode :: "gostring list"
  Province :: "gostring list"
  StreetAddress :: "gostring list"

datatype public_key = Ed25519Key "byte list" | OtherKey "byte list"
datatype ext_usage = ExtKeyUsageServerAuth | ExtKeyUsageClientAuth | ExtKeyUsageOther nat

abbreviation (input) KeyUsageDigitalSignature :: u16 where "KeyUsageDigitalSignature \<equiv> 1"
abbreviation (input) KeyUsageCertSign :: u16 where "KeyUsageCertSign \<equiv> 32"

text \<open>The fields of \<^verbatim>\<open>x509.Certificate\<close> that the package sets or reads, beyond those the server checks.\<close>

record x509_full = x509_cert +
  Subject :: pkix_name
  PublicKey :: "public_key option"
  NotBefore :: int
  NotAfter :: "int option" \<comment> \<open>\<open>None\<close> is the zero time\<close>
  DNSNames :: "gostring list"
  IPAddresses :: "gostring list"
  IsCA :: bool
  BasicConstraintsValid :: bool
  MaxPathLen :: int
  MaxPathLenZero :: bool
  KeyUsage :: u16
  ExtKeyUsage :: "ext_usage list"

subsection \<open>Names\<close>

definition merge_name :: "pkix_name \<Rightarrow> pkix_name \<Rightarrow> pkix_name" where
  "merge_name n2 n1 =
    (let n1 = (if CommonName n2 \<noteq> [] then n1\<lparr>CommonName := CommonName n2\<rparr> else n1);
         n1 = (if NameSerial n2 \<noteq> [] then n1\<lparr>NameSerial := NameSerial n2\<rparr> else n1)
     in n1\<lparr>Country := Country n1 @ Country n2, ExtraNames := ExtraNames n1 @ ExtraNames n2,
           Locality := Locality n1 @ Locality n2, Names := Names n1 @ Names n2,
           Organization := Organization n1 @ Organization n2,
           OrganizationalUnit := OrganizationalUnit n1 @ OrganizationalUnit n2,
           PostalCode := PostalCode n1 @ PostalCode n2, Province := Province n1 @ Province n2,
           StreetAddress := StreetAddress n1 @ StreetAddress n1\<rparr>)"

definition mergePkixNames :: "pkix_name \<Rightarrow> pkix_name list \<Rightarrow> pkix_name" where
  "mergePkixNames n1 nn = fold merge_name nn n1"

subsection \<open>Certificate details\<close>

record CertificateOptions =
  o_Subject :: pkix_name
  o_BucketIds :: "u32 list option"
  o_PublicKey :: "byte list option"
  o_Expiry :: "int option"
  o_DNSNames :: "gostring list option"
  o_IPAddresses :: "gostring list option"
  o_Type :: CertificateType

fun put_ids :: "u32 list \<Rightarrow> nat \<Rightarrow> byte list \<Rightarrow> byte list option" where
  "put_ids [] i b = Some b"
| "put_ids (v # vs) i b = do { (b, _) \<leftarrow> wr_fixed (be32 v) (b, i * 4); put_ids vs (Suc i) b }"

definition with_type :: "CertificateType \<Rightarrow> x509_full \<Rightarrow> x509_full" where
  "with_type t cert =
    (if t = Unset then cert
     else let cert = cert\<lparr>IsCA := False, BasicConstraintsValid := False, MaxPathLenZero := False,
                KeyUsage := KeyUsageDigitalSignature, ExtKeyUsage := []\<rparr>
       in case t of
         Client \<Rightarrow> cert\<lparr>ExtKeyUsage := [ExtKeyUsageClientAuth]\<rparr>
       | Server \<Rightarrow> cert\<lparr>ExtKeyUsage := [ExtKeyUsageServerAuth]\<rparr>
       | Root \<Rightarrow> cert\<lparr>IsCA := True, BasicConstraintsValid := True, MaxPathLen := 0, MaxPathLenZero := True,
                  KeyUsage := KeyUsage cert OR KeyUsageCertSign\<rparr>
       | Unset \<Rightarrow> cert)"

definition Options_details :: "CertificateOptions \<Rightarrow> x509_full \<Rightarrow> x509_full option" where
  "Options_details c cert = do {
     let cert = cert\<lparr>Subject := mergePkixNames (Subject cert) [o_Subject c]\<rparr>;
     cert \<leftarrow> (case o_BucketIds c of
       None \<Rightarrow> Some cert
     | Some ids \<Rightarrow> do {
         b \<leftarrow> put_ids ids 0 (replicate (length ids * 4) 0);
         Some (cert\<lparr>SubjectKeyId := Some (of_bytes b)\<rparr>) });
     let cert = (case o_PublicKey c of None \<Rightarrow> cert | Some k \<Rightarrow> cert\<lparr>PublicKey := Some (Ed25519Key k)\<rparr>);
     let cert = (case o_Expiry c of None \<Rightarrow> cert | Some t \<Rightarrow> cert\<lparr>NotAfter := Some t\<rparr>);
     let cert = (case o_DNSNames c of None \<Rightarrow> cert | Some ns \<Rightarrow> cert\<lparr>DNSNames := DNSNames cert @ ns\<rparr>);
     let cert = (case o_IPAddresses c of None \<Rightarrow> cert | Some is \<Rightarrow> cert\<lparr>IPAddresses := IPAddresses cert @ is\<rparr>);
     Some (with_type (o_Type c) cert) }"

record csr_info =
  r_Ed25519 :: bool     \<comment> \<open>the public key algorithm is Ed25519\<close>
  r_PureEd25519 :: bool \<comment> \<open>the signature algorithm is pure Ed25519\<close>
  r_Subject :: pkix_name
  r_DNSNames :: "gostring list"
  r_IPAddresses :: "gostring list"
  r_PublicKey :: "public_key option"

definition Csr_details :: "(byte list \<Rightarrow> auth_error + csr_info) \<Rightarrow> byte list \<Rightarrow> x509_full \<Rightarrow> auth_error + x509_full" where
  "Csr_details parseReq c cert = (case parseReq c of
     Inl err \<Rightarrow> Inl err
   | Inr req \<Rightarrow>
       if \<not> r_Ed25519 req \<or> \<not> r_PureEd25519 req then Inl ErrInvalidSignatureAlgorithm
       else
         let cert = cert\<lparr>Subject := mergePkixNames (Subject cert) [r_Subject req],
               DNSNames := DNSNames cert @ r_DNSNames req, IPAddresses := IPAddresses cert @ r_IPAddresses req\<rparr>
         in Inr (case r_PublicKey req of None \<Rightarrow> cert | Some k \<Rightarrow> cert\<lparr>PublicKey := Some k\<rparr>))"

datatype details = FromOptions CertificateOptions | FromCsr "byte list"

definition parse_details :: "(byte list \<Rightarrow> auth_error + csr_info) \<Rightarrow> details \<Rightarrow> x509_full \<Rightarrow> (auth_error + x509_full) option" where
  "parse_details parseReq d cert = (case d of
     FromOptions c \<Rightarrow> map_option Inr (Options_details c cert)
   | FromCsr c \<Rightarrow> Some (Csr_details parseReq c cert))"

fun all_details :: "(byte list \<Rightarrow> auth_error + csr_info) \<Rightarrow> details list \<Rightarrow> x509_full \<Rightarrow> (auth_error + x509_full) option" where
  "all_details parseReq [] cert = Some (Inr cert)"
| "all_details parseReq (d # ds) cert = do {
     r \<leftarrow> parse_details parseReq d cert;
     case r of Inl err \<Rightarrow> Some (Inl err) | Inr cert \<Rightarrow> all_details parseReq ds cert }"

subsection \<open>Creating a certificate\<close>

record crypto =
  newRandom :: "auth_error + byte list"          \<comment> \<open>\<^verbatim>\<open>uuid.NewRandom\<close>: sixteen bytes\<close>
  nowTime :: int
  addYears :: "int \<Rightarrow> int"                       \<comment> \<open>\<^verbatim>\<open>AddDate(10, 0, 0)\<close>\<close>
  publicOf :: "byte list \<Rightarrow> byte list"           \<comment> \<open>the public key of an Ed25519 private key\<close>
  createCert :: "x509_full \<Rightarrow> x509_full \<Rightarrow> public_key option \<Rightarrow> byte list \<Rightarrow> auth_error + byte list"
  parseCert :: "byte list \<Rightarrow> auth_error + x509_full"
  parseReq :: "byte list \<Rightarrow> auth_error + csr_info"

definition empty_name :: pkix_name where
  "empty_name = \<lparr>CommonName = [], NameSerial = [], Country = [], ExtraNames = [], Locality = [], Names = [],
     Organization = [], OrganizationalUnit = [], PostalCode = [], Province = [], StreetAddress = []\<rparr>"

definition SetBytes :: "byte list \<Rightarrow> int" where
  \<comment> \<open>\<^verbatim>\<open>big.Int.SetBytes\<close>\<close>
  "SetBytes bs = foldl (\<lambda>n b. 256 * n + int (unat b)) 0 bs"

definition baseCertificate :: "crypto \<Rightarrow> auth_error + x509_full" where
  "baseCertificate cr = (case newRandom cr of
     Inl err \<Rightarrow> Inl err
   | Inr certId \<Rightarrow> Inr \<lparr>SerialNumber = Some (SetBytes certId), SubjectKeyId = None, Subject = empty_name, PublicKey = None,
       NotBefore = nowTime cr, NotAfter = None, DNSNames = [], IPAddresses = [], IsCA = False, BasicConstraintsValid = False,
       MaxPathLen = 0, MaxPathLenZero = False, KeyUsage = KeyUsageDigitalSignature, ExtKeyUsage = []\<rparr>)"

definition CreateCertificate :: "crypto \<Rightarrow> byte list \<Rightarrow> byte list option \<Rightarrow> details list \<Rightarrow> (auth_error + byte list) option" where
  "CreateCertificate cr rootPrivKey rootCa ds = (case baseCertificate cr of
     Inl err \<Rightarrow> Some (Inl err)
   | Inr cert \<Rightarrow>
     (case (case rootCa of
         None \<Rightarrow> Inr (cert\<lparr>PublicKey := Some (Ed25519Key (publicOf cr rootPrivKey))\<rparr>, None)
       | Some ca \<Rightarrow> (case parseCert cr ca of Inl err \<Rightarrow> Inl err | Inr t \<Rightarrow> Inr (cert, Some t))) of
       Inl err \<Rightarrow> Some (Inl err)
     | Inr (cert, template) \<Rightarrow> do {
         r \<leftarrow> all_details (parseReq cr) ds cert;
         case r of Inl err \<Rightarrow> Some (Inl err)
         | Inr cert \<Rightarrow>
           let cert = (if NotAfter cert = None then cert\<lparr>NotAfter := Some (addYears cr (nowTime cr))\<rparr> else cert);
               parent = (case template of None \<Rightarrow> cert | Some t \<Rightarrow> t)  \<comment> \<open>the template is the certificate itself\<close>
           in Some (createCert cr cert parent (PublicKey cert) rootPrivKey) }))"

subsection \<open>What a certificate is good for\<close>

type_synonym Certificate = "byte list option" \<comment> \<open>\<open>None\<close> is nil\<close>

definition cert_der :: "Certificate \<Rightarrow> byte list" where
  "cert_der c = (case c of None \<Rightarrow> [] | Some b \<Rightarrow> b)"

definition Certificate_X509 :: "crypto \<Rightarrow> Certificate \<Rightarrow> auth_error + x509_full" where
  "Certificate_X509 cr c = parseCert cr (cert_der c)"

definition certPublicKey :: "x509_full \<Rightarrow> auth_error + byte list" where
  "certPublicKey cert = (case PublicKey cert of Some (Ed25519Key k) \<Rightarrow> Inr k | _ \<Rightarrow> Inl (AuthErr (lit ''invalid public key'')))"

definition PrivateKey_Public :: "crypto \<Rightarrow> byte list \<Rightarrow> byte list" where
  "PrivateKey_Public cr key = publicOf cr key"

definition Certificate_Validate :: "crypto \<Rightarrow> Certificate \<Rightarrow> byte list \<Rightarrow> auth_error option" where
  "Certificate_Validate cr c privKey =
    (if c = None then Some (AuthErr (lit ''certificate is empty''))
     else case Certificate_X509 cr c of
       Inl _ \<Rightarrow> Some (AuthErr (lit ''corrupt certificate''))
     | Inr cert \<Rightarrow>
       if KeyUsage cert AND KeyUsageDigitalSignature = 0
       then Some (AuthErr (lit ''certificate is missing Digital Signature usage''))
       else case certPublicKey cert of
         Inl err \<Rightarrow> Some err
       | Inr k \<Rightarrow>
         if k \<noteq> PrivateKey_Public cr privKey then Some (AuthErr (lit ''certificate and key does not belong together''))
         else None)"

definition Certificate_PublicKey :: "crypto \<Rightarrow> Certificate \<Rightarrow> byte list option" where
  "Certificate_PublicKey cr c = (case Certificate_X509 cr c of
     Inl _ \<Rightarrow> None
   | Inr cert \<Rightarrow> (case certPublicKey cert of Inl _ \<Rightarrow> None | Inr k \<Rightarrow> Some k))"

fun usage_type :: "ext_usage list \<Rightarrow> CertificateType" where
  "usage_type [] = Unset"
| "usage_type (u # us) = (case u of ExtKeyUsageServerAuth \<Rightarrow> Server | ExtKeyUsageClientAuth \<Rightarrow> Client | _ \<Rightarrow> usage_type us)"

definition Certificate_Type :: "crypto \<Rightarrow> Certificate \<Rightarrow> CertificateType" where
  "Certificate_Type cr c = (case Certificate_X509 cr c of
     Inl _ \<Rightarrow> Unset
   | Inr cert \<Rightarrow> if KeyUsage cert AND KeyUsageCertSign \<noteq> 0 then Root else usage_type (ExtKeyUsage cert))"

fun nat_bytes :: "nat \<Rightarrow> byte list" where
  "nat_bytes n = (if n = 0 then [] else nat_bytes (n div 256) @ [word_of_nat n])"

declare nat_bytes.simps [simp del]

definition big_Bytes :: "int \<Rightarrow> byte list" where
  \<comment> \<open>\<^verbatim>\<open>big.Int.Bytes\<close>: the absolute value, big-endian, without leading zeros\<close>
  "big_Bytes x = nat_bytes (nat \<bar>x\<bar>)"

definition Certificate_Id :: "crypto \<Rightarrow> Certificate \<Rightarrow> byte list option" where
  \<comment> \<open>a certificate without a serial number is a nil pointer\<close>
  "Certificate_Id cr c = (case Certificate_X509 cr c of
     Inl _ \<Rightarrow> Some (replicate 16 0)
   | Inr cert \<Rightarrow> map_option (\<lambda>n. let b = big_Bytes n in if length b = 16 then b else replicate 16 0) (SerialNumber cert))"

subsection \<open>PEM\<close>

record pem_block =
  pem_Type :: gostring
  pem_Bytes :: "byte list"

abbreviation (input) certBlockType :: gostring where "certBlockType \<equiv> lit ''CERTIFICATE''"
abbreviation (input) csrBlockType :: gostring where "csrBlockType \<equiv> lit ''CERTIFICATE REQUEST''"
abbreviation (input) privKeyBlockType :: gostring where "privKeyBlockType \<equiv> lit ''PRIVATE KEY''"

record pem_codec =
  pem_enc :: "pem_block \<Rightarrow> byte list"
  pem_dec :: "byte list \<Rightarrow> pem_block option"
  marshalKey :: "byte list \<Rightarrow> byte list"                   \<comment> \<open>\<^verbatim>\<open>x509.MarshalPKCS8PrivateKey\<close>\<close>
  parseKey :: "byte list \<Rightarrow> auth_error + byte list option" \<comment> \<open>\<^verbatim>\<open>x509.ParsePKCS8PrivateKey\<close>; \<open>None\<close> is no Ed25519 key\<close>

definition Certificate_PEM :: "pem_codec \<Rightarrow> Certificate \<Rightarrow> byte list" where
  "Certificate_PEM pc c = pem_enc pc \<lparr>pem_Type = certBlockType, pem_Bytes = cert_der c\<rparr>"

definition Certificate_DecodePEM :: "pem_codec \<Rightarrow> byte list \<Rightarrow> Certificate \<Rightarrow> Certificate \<times> auth_error option" where
  "Certificate_DecodePEM pc b c = (case pem_dec pc b of
     None \<Rightarrow> (c, Some ErrInvalidInput)
   | Some p \<Rightarrow> if pem_Type p \<noteq> certBlockType then (c, Some ErrInvalidBlockType) else (Some (pem_Bytes p), None))"

definition Csr_PEM :: "pem_codec \<Rightarrow> byte list \<Rightarrow> byte list" where
  "Csr_PEM pc c = pem_enc pc \<lparr>pem_Type = csrBlockType, pem_Bytes = c\<rparr>"

definition Csr_DecodePEM :: "pem_codec \<Rightarrow> byte list \<Rightarrow> byte list \<Rightarrow> byte list \<times> auth_error option" where
  "Csr_DecodePEM pc b c = (case pem_dec pc b of
     None \<Rightarrow> (c, Some ErrInvalidInput)
   | Some p \<Rightarrow> if pem_Type p \<noteq> csrBlockType then (c, Some ErrInvalidBlockType) else (pem_Bytes p, None))"

definition PrivateKey_PEM :: "pem_codec \<Rightarrow> byte list \<Rightarrow> byte list" where
  "PrivateKey_PEM pc key = pem_enc pc \<lparr>pem_Type = privKeyBlockType, pem_Bytes = marshalKey pc key\<rparr>"

definition PrivateKey_DecodePEM :: "pem_codec \<Rightarrow> byte list \<Rightarrow> byte list \<Rightarrow> byte list \<times> auth_error option" where
  \<comment> \<open>a block that is no Ed25519 key leaves the nil key\<close>
  "PrivateKey_DecodePEM pc b key = (case pem_dec pc b of
     None \<Rightarrow> (key, Some ErrInvalidInput)
   | Some p \<Rightarrow>
     if pem_Type p \<noteq> privKeyBlockType then (key, Some ErrInvalidBlockType)
     else case parseKey pc (pem_Bytes p) of
       Inl err \<Rightarrow> (key, Some err)
     | Inr None \<Rightarrow> ([], Some ErrInvalidInput)
     | Inr (Some k) \<Rightarrow> (k, None))"

subsection \<open>Bucket IDs\<close>

lemma length_ids [simp]: "length (concat (map be32 ids)) = 4 * length ids"
  by (induction ids) simp_all

lemma put_ids_eq:
  "length b = 4 * (i + length vs) \<Longrightarrow> put_ids vs i b = Some (take (4 * i) b @ concat (map be32 vs))"
proof (induction vs arbitrary: i b)
  case (Cons v vs)
  let ?b = "take (4 * i) b @ be32 v @ drop (4 * i + 4) b"
  have "wr_fixed (be32 v) (b, i * 4) = Some (?b, i * 4 + 4)" using Cons.prems by (simp add: wr_fixed_def mult.commute)
  moreover have "take (4 * Suc i) ?b = take (4 * i) b @ be32 v" using Cons.prems by simp
  ultimately show ?case using Cons.IH [of ?b "Suc i"] Cons.prems by simp
qed simp

lemma drop_ids: "i < length ids \<Longrightarrow> drop (4 * i) (concat (map be32 ids)) = be32 (ids ! i) @ concat (map be32 (drop (Suc i) ids))"
proof (induction ids arbitrary: i)
  case (Cons v ids)
  then show ?case by (cases i) simp_all
qed simp

lemma buckets_of_ids:
  assumes "SubjectKeyId cert = Some k" "slice_ok k" "sl_bytes k = concat (map be32 ids)"
  shows "cert_buckets cert = set ids" "sl_len k mod 4 = 0"
proof -
  have len: "sl_len k = 4 * length ids" using length_sl_bytes [OF assms(2)] assms(3) by simp
  then show "sl_len k mod 4 = 0" by simp
  obtain rest where arr: "sl_array k = concat (map be32 ids) @ rest"
    using assms(3) append_take_drop_id [of "sl_len k" "sl_array k"] by (metis sl_bytes_def)
  have "Uint32 (drop (4 * i) (sl_array k)) = Some (ids ! i)" if "i < length ids" for i
    using that drop_ids [OF that] arr by simp
  moreover have "4 * i < sl_len k \<longleftrightarrow> i < length ids" for i using len by simp
  ultimately show "cert_buckets cert = set ids"
    using assms(1) by (auto simp: cert_buckets_def in_set_conv_nth) metis
qed

lemma SetBytes_bound: "0 \<le> SetBytes bs \<and> SetBytes bs < 256 ^ length bs"
proof (induction bs rule: rev_induct)
  case (snoc b bs)
  have "uint b < 256" using unsigned_less [of b, where ?'a = int] by simp
  moreover have "256 * SetBytes bs + 256 \<le> 256 * 256 ^ length bs" using snoc by simp
  moreover have "SetBytes (bs @ [b]) = 256 * SetBytes bs + uint b" by (simp add: SetBytes_def)
  ultimately show ?case using snoc by simp
qed (simp add: SetBytes_def)

subsection \<open>A certificate is accepted for what it was created for\<close>

definition x509_roundtrip :: "crypto \<Rightarrow> bool" where
  \<comment> \<open>parsing a certificate that was created gives back the fields of its template; an empty key ID is not stored\<close>
  "x509_roundtrip cr \<longleftrightarrow> (\<forall>t parent key der. createCert cr t parent (PublicKey t) key = Inr der \<longrightarrow>
     (\<exists>c. parseCert cr der = Inr c \<and> SerialNumber c = SerialNumber t \<and> KeyUsage c = KeyUsage t \<and> ExtKeyUsage c = ExtKeyUsage t \<and>
        PublicKey c = PublicKey t \<and>
        (\<forall>k. SubjectKeyId t = Some k \<longrightarrow> sl_bytes k \<noteq> [] \<longrightarrow>
           (\<exists>k'. SubjectKeyId c = Some k' \<and> slice_ok k' \<and> sl_bytes k' = sl_bytes k))))"

lemma create_from_options:
  assumes "CreateCertificate cr rootKey (Some ca) [FromOptions co] = Some (Inr der)" "newRandom cr = Inr certId"
    "o_BucketIds co = Some ids" "o_PublicKey co = Some pk" "o_Type co = Client"
  obtains t parent where "createCert cr t parent (PublicKey t) rootKey = Inr der" "SerialNumber t = Some (SetBytes certId)"
    "KeyUsage t = KeyUsageDigitalSignature" "ExtKeyUsage t = [ExtKeyUsageClientAuth]" "PublicKey t = Some (Ed25519Key pk)"
    "SubjectKeyId t = Some (of_bytes (concat (map be32 ids)))"
proof -
  have ids: "put_ids ids 0 (replicate (length ids * 4) 0) = Some (concat (map be32 ids))" by (subst put_ids_eq) simp_all
  show thesis using assms that
    by (auto simp: CreateCertificate_def baseCertificate_def parse_details_def Options_details_def ids with_type_def Let_def
        split: sum.splits option.splits if_splits)
qed

lemma client_template_accepted:
  assumes "x509_roundtrip cr" "createCert cr t parent (PublicKey t) rootKey = Inr der" "SerialNumber t = Some (SetBytes certId)"
    "KeyUsage t = KeyUsageDigitalSignature" "ExtKeyUsage t = [ExtKeyUsageClientAuth]"
    "PublicKey t = Some (Ed25519Key (PrivateKey_Public cr key))" "SubjectKeyId t = Some (of_bytes (concat (map be32 ids)))"
    "length certId = 16" "ids \<noteq> []"
  shows "Certificate_Type cr (Some der) = Client \<and> Certificate_Validate cr (Some der) key = None \<and>
    (\<exists>cert. Certificate_X509 cr (Some der) = Inr cert \<and>
       VerifyConnection None (Some [Some (x509_cert.truncate cert)]) = Some None \<and> cert_buckets (x509_cert.truncate cert) = set ids)"
proof -
  have "concat (map be32 ids) \<noteq> []" using assms(9) length_ids [of ids] by (metis length_0_conv mult_is_0 zero_neq_numeral)
  then obtain cert k where c: "parseCert cr der = Inr cert" "SerialNumber cert = Some (SetBytes certId)" "KeyUsage cert = 1"
    "ExtKeyUsage cert = [ExtKeyUsageClientAuth]" "PublicKey cert = Some (Ed25519Key (PrivateKey_Public cr key))"
    "SubjectKeyId cert = Some k" "slice_ok k" "sl_bytes k = concat (map be32 ids)"
    using assms(1-7) unfolding x509_roundtrip_def by (metis sl_bytes_of_bytes)
  let ?c = "x509_cert.truncate cert"
  have b: "SubjectKeyId ?c = Some k" "SerialNumber ?c = Some (SetBytes certId)" using c by (simp_all add: x509_cert.truncate_def)
  have "nat \<bar>SetBytes certId\<bar> < 2 ^ 128" using SetBytes_bound [of certId] assms(8) by (simp add: nat_less_iff)
  then have bits: "BitLen (SetBytes certId) \<le> 128" by (simp add: BitLen_def nat_bits_le)
  have "VerifyConnection None (Some [Some ?c]) = Some None"
    using b bits buckets_of_ids(2) [OF b(1) c(7,8)] by (simp add: VerifyConnection_def)
  moreover have "cert_buckets ?c = set ids" by (rule buckets_of_ids(1) [OF b(1) c(7,8)])
  ultimately show ?thesis
    using c(1-5) by (simp add: Certificate_Type_def Certificate_X509_def cert_der_def Certificate_Validate_def certPublicKey_def)
qed

text \<open>
  A client certificate created for a list of bucket IDs and a key is of type \<open>Client\<close>, is valid
  with that key, passes the server's check of the connection, and allows exactly those buckets.
\<close>

lemma created_certificate_accepted:
  assumes "CreateCertificate cr rootKey (Some ca) [FromOptions co] = Some (Inr der)" and "x509_roundtrip cr"
    and "newRandom cr = Inr certId" and "length certId = 16"
    and "o_BucketIds co = Some ids" and "ids \<noteq> []" and "o_PublicKey co = Some (PrivateKey_Public cr key)" and "o_Type co = Client"
  shows "Certificate_Type cr (Some der) = Client \<and> Certificate_Validate cr (Some der) key = None \<and>
    (\<exists>cert. Certificate_X509 cr (Some der) = Inr cert \<and>
       VerifyConnection None (Some [Some (x509_cert.truncate cert)]) = Some None \<and> cert_buckets (x509_cert.truncate cert) = set ids)"
proof -
  obtain t parent where "createCert cr t parent (PublicKey t) rootKey = Inr der" "SerialNumber t = Some (SetBytes certId)"
    "KeyUsage t = KeyUsageDigitalSignature" "ExtKeyUsage t = [ExtKeyUsageClientAuth]"
    "PublicKey t = Some (Ed25519Key (PrivateKey_Public cr key))" "SubjectKeyId t = Some (of_bytes (concat (map be32 ids)))"
    using create_from_options [OF assms(1,3,5,7,8)] by blast
  from client_template_accepted [OF assms(2) this assms(4,6)] show ?thesis .
qed

definition demo_options :: CertificateOptions where
  "demo_options = \<lparr>o_Subject = empty_name, o_BucketIds = Some [7, 9], o_PublicKey = Some [5], o_Expiry = Some 100,
     o_DNSNames = None, o_IPAddresses = None, o_Type = Client\<rparr>"

definition demo_template :: x509_full where
  "demo_template = \<lparr>SerialNumber = Some (SetBytes (replicate 16 1)), SubjectKeyId = Some (of_bytes [0, 0, 0, 7, 0, 0, 0, 9]),
     Subject = empty_name, PublicKey = Some (Ed25519Key [5]), NotBefore = 0, NotAfter = Some 100, DNSNames = [], IPAddresses = [],
     IsCA = False, BasicConstraintsValid = False, MaxPathLen = 0, MaxPathLenZero = False, KeyUsage = 1,
     ExtKeyUsage = [ExtKeyUsageClientAuth]\<rparr>"

definition demo_crypto :: crypto where
  \<comment> \<open>an authority that signs one template only, as the certificate \<open>[1]\<close>\<close>
  "demo_crypto = \<lparr>newRandom = Inr (replicate 16 1), nowTime = 0, addYears = (\<lambda>t. t), publicOf = (\<lambda>k. k),
     createCert = (\<lambda>t parent pk key. if t = demo_template then Inr [1] else Inl ErrInvalidInput),
     parseCert = (\<lambda>der. Inr demo_template), parseReq = (\<lambda>c. Inl ErrInvalidInput)\<rparr>"

lemma demo_created: "CreateCertificate demo_crypto [3] (Some [2]) [FromOptions demo_options] = Some (Inr [1])"
proof -
  have "put_ids [7, 9] 0 (replicate 8 0) = Some [0, 0, 0, 7, 0, 0, 0, 9]" by (subst put_ids_eq) (simp_all add: be32_def)
  then show ?thesis
    by (simp add: CreateCertificate_def baseCertificate_def parse_details_def Options_details_def with_type_def Let_def demo_crypto_def
        demo_options_def demo_template_def mergePkixNames_def merge_name_def empty_name_def del: put_ids.simps)
qed

lemma demo_roundtrip: "x509_roundtrip demo_crypto"
  by (auto simp: x509_roundtrip_def demo_crypto_def demo_template_def split: if_splits)

lemma created_certificate_accepted_example:
  "Certificate_Type demo_crypto (Some [1]) = Client \<and> Certificate_Validate demo_crypto (Some [1]) [5] = None \<and>
    (\<exists>cert. Certificate_X509 demo_crypto (Some [1]) = Inr cert \<and>
       VerifyConnection None (Some [Some (x509_cert.truncate cert)]) = Some None \<and> cert_buckets (x509_cert.truncate cert) = {7, 9})"
  using created_certificate_accepted [OF demo_created demo_roundtrip, of "replicate 16 1" "[7, 9]" "[5]"]
  by (simp add: demo_crypto_def demo_options_def PrivateKey_Public_def)

subsection \<open>The ID of a certificate\<close>

lemma nat_bytes_SetBytes: "nat_bytes (nat (SetBytes bs)) = dropWhile (\<lambda>b. b = 0) bs"
proof (induction bs rule: rev_induct)
  case Nil
  then show ?case by (simp add: SetBytes_def nat_bytes.simps)
next
  case (snoc b bs)
  let ?n = "nat (SetBytes bs)"
  have ub: "unat b < 256" using unsigned_less [of b, where ?'a = nat] by simp
  have n: "nat (SetBytes (bs @ [b])) = 256 * ?n + unat b"
    using SetBytes_bound [of bs] by (simp add: SetBytes_def nat_add_distrib nat_mult_distrib)
  have w: "(word_of_nat (256 * ?n + unat b) :: byte) = b"
  proof -
    have "(256 :: byte) = 0" by simp
    then have "(256 :: byte) * v = 0" for v by (metis mult_zero_left)
    then show ?thesis by simp
  qed
  show ?case
  proof (cases "256 * ?n + unat b = 0")
    case True
    then have "?n = 0" "b = 0" by (simp_all add: unat_eq_0)
    with snoc have "dropWhile (\<lambda>b. b = 0) bs = []" by (simp add: nat_bytes.simps)
    with True n \<open>b = 0\<close> show ?thesis by (simp add: nat_bytes.simps dropWhile_append1 dropWhile_append2)
  next
    case False
    have "(256 * ?n + unat b) div 256 = ?n" using ub by simp
    with False n w snoc have "nat_bytes (nat (SetBytes (bs @ [b]))) = dropWhile (\<lambda>b. b = 0) bs @ [b]"
      by (simp add: nat_bytes.simps [of "256 * ?n + unat b"])
    moreover have "dropWhile (\<lambda>b. b = 0) (bs @ [b]) = dropWhile (\<lambda>b. b = 0) bs @ [b]"
    proof (cases "\<forall>x\<in>set bs. x = 0")
      case True
      then have "nat_bytes ?n = []" using snoc by (simp add: dropWhile_eq_Nil_conv)
      then have "?n = 0" using nat_bytes.simps [of ?n] by (simp split: if_splits)
      with False have "b \<noteq> 0" by auto
      with True show ?thesis by simp
    qed (auto simp: dropWhile_append1)
    ultimately show ?thesis by simp
  qed
qed

text \<open>
  A created certificate gives back the random ID it was made with, unless that ID begins with a
  zero byte; then it gives the nil UUID, since the serial number has lost the zeros.
\<close>

lemma created_certificate_id:
  assumes "CreateCertificate cr rootKey (Some ca) [FromOptions co] = Some (Inr der)" and "x509_roundtrip cr"
    and "newRandom cr = Inr certId" and "length certId = 16"
    and "o_BucketIds co = Some ids" and "o_PublicKey co = Some pk" and "o_Type co = Client"
  shows "Certificate_Id cr (Some der) = Some (if hd certId = 0 then replicate 16 0 else certId)"
proof -
  obtain t parent where t: "createCert cr t parent (PublicKey t) rootKey = Inr der" "SerialNumber t = Some (SetBytes certId)"
    using create_from_options [OF assms(1,3,5,6,7)] by blast
  then obtain c where c: "parseCert cr der = Inr c" "SerialNumber c = Some (SetBytes certId)"
    using assms(2) unfolding x509_roundtrip_def by metis
  have b: "big_Bytes (SetBytes certId) = dropWhile (\<lambda>b. b = 0) certId"
    using nat_bytes_SetBytes [of certId] SetBytes_bound [of certId] by (simp add: big_Bytes_def)
  obtain x xs where x: "certId = x # xs" "length xs = 15" using assms(4) by (cases certId) auto
  have "length (dropWhile (\<lambda>b. b = 0) xs) \<le> 15" using x(2) length_dropWhile_le [of "\<lambda>b. b = 0" xs] by simp
  with b c x show ?thesis by (auto simp: Certificate_Id_def Certificate_X509_def cert_der_def Let_def)
qed

lemma created_certificate_id_example:
  "Certificate_Id demo_crypto (Some [1]) = Some (replicate 16 1)"
  using created_certificate_id [OF demo_created demo_roundtrip, of "replicate 16 1" "[7, 9]" "[5]"]
  by (simp add: demo_crypto_def demo_options_def numeral_eq_Suc)

subsection \<open>PEM files\<close>

definition pem_ok :: "pem_codec \<Rightarrow> bool" where
  "pem_ok pc \<longleftrightarrow> (\<forall>p. pem_dec pc (pem_enc pc p) = Some p) \<and> (\<forall>k. parseKey pc (marshalKey pc k) = Inr (Some k))"

lemma pem_roundtrip:
  assumes "pem_ok pc"
  shows "Certificate_DecodePEM pc (Certificate_PEM pc (Some der)) c = (Some der, None) \<and>
    Csr_DecodePEM pc (Csr_PEM pc req) r = (req, None) \<and>
    PrivateKey_DecodePEM pc (PrivateKey_PEM pc key) k = (key, None) \<and>
    Certificate_DecodePEM pc (Csr_PEM pc req) c = (c, Some ErrInvalidBlockType) \<and>
    Csr_DecodePEM pc (PrivateKey_PEM pc key) r = (r, Some ErrInvalidBlockType) \<and>
    PrivateKey_DecodePEM pc (Certificate_PEM pc (Some der)) k = (k, Some ErrInvalidBlockType)"
  using assms
  by (simp add: pem_ok_def Certificate_DecodePEM_def Certificate_PEM_def Csr_DecodePEM_def Csr_PEM_def PrivateKey_DecodePEM_def
      PrivateKey_PEM_def cert_der_def lit_def)

definition plain_codec :: pem_codec where
  \<comment> \<open>a block as the length of its type in ones, a zero, the type and the bytes\<close>
  "plain_codec = \<lparr>pem_enc = (\<lambda>p. replicate (length (pem_Type p)) 1 @ 0 # pem_Type p @ pem_Bytes p),
     pem_dec = (\<lambda>b. let n = length (takeWhile (\<lambda>x. x = 1) b); r = drop (Suc n) b in
       if n < length b then Some \<lparr>pem_Type = take n r, pem_Bytes = drop n r\<rparr> else None),
     marshalKey = (\<lambda>k. k), parseKey = (\<lambda>k. Inr (Some k))\<rparr>"

lemma plain_codec_ok: "pem_ok plain_codec"
proof -
  have "takeWhile (\<lambda>x. x = 1) (replicate n 1 @ 0 # r) = replicate n 1" for n and r :: "byte list"
    by (induction n) simp_all
  then show ?thesis by (simp add: pem_ok_def plain_codec_def Let_def)
qed

subsection \<open>Names\<close>

text \<open>
  Merging a name appends every list but one: the street addresses of the name that is merged in are
  dropped, and those already there are doubled.
\<close>

lemma merge_drops_street_address:
  "Organization (mergePkixNames n1 [n2]) = Organization n1 @ Organization n2 \<and>
   StreetAddress (mergePkixNames n1 [n2]) = StreetAddress n1 @ StreetAddress n1"
  by (simp add: mergePkixNames_def merge_name_def Let_def)

end
