(* ===== verification/Auth_Tls.thy ===== *)
theory Auth_Tls
  imports Auth
begin

text \<open>
  The rest of the package \<^verbatim>\<open>auth\<close>: keys and signing requests (\<^verbatim>\<open>CreateCsr\<close>), files, and the values
  handed to \<^verbatim>\<open>crypto/tls\<close>: certificates with their keys and pools of trusted certificates. A file
  system is a map from paths to contents; what opening, writing and reading a file return is part
  of the arguments. Random numbers, the host name and \<^verbatim>\<open>x509.CreateCertificateRequest\<close> are parameters.
\<close>

subsection \<open>Keys and signing requests\<close>

definition CreatePrivateKey :: "auth_error + byte list \<Rightarrow> byte list \<times> auth_error option" where
  \<comment> \<open>with the result of \<^verbatim>\<open>ed25519.GenerateKey\<close>; the nil key is empty\<close>
  "CreatePrivateKey gen = (case gen of Inl err \<Rightarrow> ([], Some err) | Inr key \<Rightarrow> (key, None))"

definition LoadPrivateKey :: "byte list \<Rightarrow> byte list" where
  "LoadPrivateKey key = key"

definition PrivateKey_DER :: "pem_codec \<Rightarrow> byte list \<Rightarrow> byte list" where
  "PrivateKey_DER pc key = marshalKey pc key"

record csr_template =
  ct_PureEd25519 :: bool
  ct_Subject :: pkix_name
  ct_IPAddresses :: "gostring list"

definition localhost :: gostring where
  \<comment> \<open>\<^verbatim>\<open>net.IPv4(127, 0, 0, 1)\<close>, in sixteen bytes\<close>
  "localhost = replicate 10 0 @ [255, 255, 127, 0, 0, 1]"

definition CreateCsr :: "auth_error + gostring \<Rightarrow> (csr_template \<Rightarrow> byte list \<Rightarrow> auth_error + byte list) \<Rightarrow> byte list \<Rightarrow> auth_error + byte list" where
  "CreateCsr hostname createReq key = (case hostname of
     Inl err \<Rightarrow> Inl err
   | Inr name \<Rightarrow> createReq \<lparr>ct_PureEd25519 = True, ct_Subject = empty_name\<lparr>CommonName := name\<rparr>, ct_IPAddresses = [localhost]\<rparr> key)"

subsection \<open>Files\<close>

type_synonym files = "gostring \<Rightarrow> byte list option"

datatype file_write = OpenFails auth_error | WriteFails nat auth_error | WriteDone

definition write_file :: "file_write \<Rightarrow> gostring \<Rightarrow> byte list \<Rightarrow> files \<Rightarrow> files \<times> auth_error option" where
  \<comment> \<open>\<^verbatim>\<open>os.OpenFile\<close> with \<^verbatim>\<open>O_CREATE|O_TRUNC\<close>, \<^verbatim>\<open>pem.Encode\<close> to the file and \<^verbatim>\<open>Close\<close>, whose error is ignored\<close>
  "write_file w path b fs = (case w of
     OpenFails err \<Rightarrow> (fs, Some err)
   | WriteFails n err \<Rightarrow> (fs(path \<mapsto> take n b), Some err)
   | WriteDone \<Rightarrow> (fs(path \<mapsto> b), None))"

definition read_file :: "auth_error option \<Rightarrow> gostring \<Rightarrow> files \<Rightarrow> auth_error + byte list" where
  \<comment> \<open>\<^verbatim>\<open>os.ReadFile\<close>, with an error of the operating system\<close>
  "read_file e path fs = (case (e, fs path) of
     (Some err, _) \<Rightarrow> Inl err
   | (None, None) \<Rightarrow> Inl (AuthErr (lit ''no such file or directory''))
   | (None, Some b) \<Rightarrow> Inr b)"

definition Certificate_ToFile :: "pem_codec \<Rightarrow> file_write \<Rightarrow> gostring \<Rightarrow> Certificate \<Rightarrow> files \<Rightarrow> files \<times> auth_error option" where
  "Certificate_ToFile pc w path c fs = write_file w path (Certificate_PEM pc c) fs"

definition Certificate_FromFile :: "pem_codec \<Rightarrow> auth_error option \<Rightarrow> gostring \<Rightarrow> files \<Rightarrow> Certificate \<Rightarrow> Certificate \<times> auth_error option" where
  "Certificate_FromFile pc e path fs c = (case read_file e path fs of
     Inl err \<Rightarrow> (c, Some err) | Inr b \<Rightarrow> Certificate_DecodePEM pc b c)"

definition Csr_ToFile :: "pem_codec \<Rightarrow> file_write \<Rightarrow> gostring \<Rightarrow> byte list \<Rightarrow> files \<Rightarrow> files \<times> auth_error option" where
  "Csr_ToFile pc w path c fs = write_file w path (Csr_PEM pc c) fs"

definition Csr_FromFile :: "pem_codec \<Rightarrow> auth_error option \<Rightarrow> gostring \<Rightarrow> files \<Rightarrow> byte list \<Rightarrow> byte list \<times> auth_error option" where
  "Csr_FromFile pc e path fs c = (case read_file e path fs of
     Inl err \<Rightarrow> (c, Some err) | Inr b \<Rightarrow> Csr_DecodePEM pc b c)"

definition PrivateKey_ToFile :: "pem_codec \<Rightarrow> file_write \<Rightarrow> gostring \<Rightarrow> byte list \<Rightarrow> files \<Rightarrow> files \<times> auth_error option" where
  "PrivateKey_ToFile pc w path key fs = write_file w path (PrivateKey_PEM pc key) fs"

definition PrivateKey_FromFile :: "pem_codec \<Rightarrow> auth_error option \<Rightarrow> gostring \<Rightarrow> files \<Rightarrow> byte list \<Rightarrow> byte list \<times> auth_error option" where
  "PrivateKey_FromFile pc e path fs key = (case read_file e path fs of
     Inl err \<Rightarrow> (key, Some err) | Inr b \<Rightarrow> PrivateKey_DecodePEM pc b key)"

subsection \<open>Values for the TLS library\<close>

record tls_certificate =
  tc_Certificate :: "byte list list"
  tc_PrivateKey :: "byte list"
  tc_Leaf :: x509_full

definition Certificate_TLS :: "crypto \<Rightarrow> Certificate \<Rightarrow> byte list \<Rightarrow> tls_certificate option" where
  \<comment> \<open>\<open>None\<close> is nil\<close>
  "Certificate_TLS cr c key = (case Certificate_X509 cr c of
     Inl _ \<Rightarrow> None
   | Inr cert \<Rightarrow> Some \<lparr>tc_Certificate = [cert_der c], tc_PrivateKey = key, tc_Leaf = cert\<rparr>)"

definition Certificate_TLSChain :: "crypto \<Rightarrow> Certificate \<Rightarrow> byte list \<Rightarrow> tls_certificate list" where
  "Certificate_TLSChain cr c key = (case Certificate_X509 cr c of
     Inl _ \<Rightarrow> []
   | Inr cert \<Rightarrow> [\<lparr>tc_Certificate = [cert_der c], tc_PrivateKey = key, tc_Leaf = cert\<rparr>])"

type_synonym cert_pool = "x509_full list"

definition Certificate_X509Pool :: "crypto \<Rightarrow> Certificate \<Rightarrow> cert_pool option list option \<Rightarrow> cert_pool option option" where
  \<comment> \<open>the variadic argument and the pool returned; \<open>Some None\<close> is a nil pool, \<open>None\<close> a panic\<close>
  "Certificate_X509Pool cr c certPool = do {
     pool \<leftarrow> (case certPool of
       None \<Rightarrow> Some []
     | Some ps \<Rightarrow> map_option (\<lambda>p. case p of Some p \<Rightarrow> p | None \<Rightarrow> []) (nth_opt ps 0));
     Some (case Certificate_X509 cr c of
       Inl _ \<Rightarrow> None
     | Inr cert \<Rightarrow> Some (List.insert cert pool)) }"

text \<open>What the program sets of \<^verbatim>\<open>tls.Config\<close>; a version is the 13 of TLS 1.3.\<close>

abbreviation (input) protoV10 :: gostring where "protoV10 \<equiv> lit ''v1.0''"

record tls_config =
  MinVersion :: nat
  MaxVersion :: nat
  NextProtos :: "gostring list"
  trusted :: "cert_pool option"             \<comment> \<open>\<^verbatim>\<open>ClientCAs\<close> or \<^verbatim>\<open>RootCAs\<close>; nil trusts the host's authorities\<close>
  presents :: "tls_certificate list"        \<comment> \<open>the own certificates\<close>

lemma TLSChain_TLS: "Certificate_TLSChain cr c key = (case Certificate_TLS cr c key of None \<Rightarrow> [] | Some t \<Rightarrow> [t])"
  by (simp add: Certificate_TLSChain_def Certificate_TLS_def split: sum.splits)

subsection \<open>What is written to a file is read back\<close>

text \<open>
  A certificate, a signing request and a private key written to files read back as themselves,
  whatever the files held before; reading one where another is expected is refused and changes
  nothing; and a write that does not succeed reports its error and touches no other file.
\<close>

lemma file_roundtrip:
  assumes "pem_ok pc"
  shows "Certificate_FromFile pc None path (fst (Certificate_ToFile pc WriteDone path (Some der) fs)) c = (Some der, None) \<and>
    Csr_FromFile pc None path (fst (Csr_ToFile pc WriteDone path req fs)) r = (req, None) \<and>
    PrivateKey_FromFile pc None path (fst (PrivateKey_ToFile pc WriteDone path key fs)) k = (key, None) \<and>
    Certificate_FromFile pc None path (fst (Csr_ToFile pc WriteDone path req fs)) c = (c, Some ErrInvalidBlockType) \<and>
    Csr_FromFile pc None path (fst (PrivateKey_ToFile pc WriteDone path key fs)) r = (r, Some ErrInvalidBlockType) \<and>
    PrivateKey_FromFile pc None path (fst (Certificate_ToFile pc WriteDone path (Some der) fs)) k = (k, Some ErrInvalidBlockType) \<and>
    (\<forall>w path'. path' \<noteq> path \<longrightarrow> fst (Certificate_ToFile pc w path (Some der) fs) path' = fs path') \<and>
    (\<forall>w. snd (PrivateKey_ToFile pc w path key fs) = None \<longleftrightarrow> w = WriteDone)"
  using pem_roundtrip [OF assms, of der c req r key k]
  by (simp add: Certificate_FromFile_def Certificate_ToFile_def Csr_FromFile_def Csr_ToFile_def PrivateKey_FromFile_def
      PrivateKey_ToFile_def write_file_def read_file_def split: file_write.split)

lemma file_roundtrip_example:
  "Certificate_FromFile plain_codec None (lit ''ca.pem'')
     (fst (Certificate_ToFile plain_codec WriteDone (lit ''ca.pem'') (Some [4, 2]) Map.empty)) None = (Some [4, 2], None)"
  using file_roundtrip [OF plain_codec_ok] by blast

subsection \<open>A certificate for a signing request\<close>

definition csr_roundtrip :: "crypto \<Rightarrow> (csr_template \<Rightarrow> byte list \<Rightarrow> auth_error + byte list) \<Rightarrow> bool" where
  \<comment> \<open>parsing a request that was created gives back its algorithm, common name and addresses, and the public key
    of the key that signed it\<close>
  "csr_roundtrip cr createReq \<longleftrightarrow> (\<forall>t key csr. createReq t key = Inr csr \<longrightarrow> ct_PureEd25519 t \<longrightarrow>
     (\<exists>r. parseReq cr csr = Inr r \<and> r_Ed25519 r \<and> r_PureEd25519 r \<and> CommonName (r_Subject r) = CommonName (ct_Subject t) \<and>
        r_IPAddresses r = ct_IPAddresses t \<and> r_PublicKey r = Some (Ed25519Key (publicOf cr key))))"

lemma create_from_csr:
  assumes "CreateCertificate cr rootKey (Some ca) [FromCsr csr, FromOptions co] = Some (Inr der)" "newRandom cr = Inr certId"
    "parseReq cr csr = Inr r" "r_Ed25519 r" "r_PureEd25519 r" "r_PublicKey r = Some (Ed25519Key pk)"
    "o_BucketIds co = Some ids" "o_PublicKey co = None" "o_Type co = Client"
  obtains t parent where "createCert cr t parent (PublicKey t) rootKey = Inr der" "SerialNumber t = Some (SetBytes certId)"
    "KeyUsage t = KeyUsageDigitalSignature" "ExtKeyUsage t = [ExtKeyUsageClientAuth]" "PublicKey t = Some (Ed25519Key pk)"
    "SubjectKeyId t = Some (of_bytes (concat (map be32 ids)))"
proof -
  have ids: "put_ids ids 0 (replicate (length ids * 4) 0) = Some (concat (map be32 ids))" by (subst put_ids_eq) simp_all
  show thesis using assms that
    by (auto simp: CreateCertificate_def baseCertificate_def parse_details_def Csr_details_def Options_details_def ids with_type_def Let_def
        split: sum.splits option.splits if_splits)
qed

text \<open>
  C17: a client makes a signing request with its private key, and the authority creates a client
  certificate for it with a list of bucket IDs. The certificate is of type \<open>Client\<close>, is valid with
  the private key, which never left the client, passes the server's check of the connection, and
  allows exactly those buckets.
\<close>

theorem csr_certificate_accepted:
  assumes "CreateCsr hostname createReq key = Inr csr" and "csr_roundtrip cr createReq"
    and "CreateCertificate cr rootKey (Some ca) [FromCsr csr, FromOptions co] = Some (Inr der)" and "x509_roundtrip cr"
    and "newRandom cr = Inr certId" and "length certId = 16"
    and "o_BucketIds co = Some ids" and "ids \<noteq> []" and "o_PublicKey co = None" and "o_Type co = Client"
  shows "Certificate_Type cr (Some der) = Client \<and> Certificate_Validate cr (Some der) key = None \<and>
    (\<exists>cert. Certificate_X509 cr (Some der) = Inr cert \<and>
       VerifyConnection None (Some [Some (x509_cert.truncate cert)]) = Some None \<and> cert_buckets (x509_cert.truncate cert) = set ids)"
proof -
  obtain r where "parseReq cr csr = Inr r" "r_Ed25519 r" "r_PureEd25519 r" "r_PublicKey r = Some (Ed25519Key (publicOf cr key))"
    using assms(1,2) by (auto simp: CreateCsr_def csr_roundtrip_def split: sum.splits) (metis csr_template.select_convs(1))
  from create_from_csr [OF assms(3,5) this assms(7,9,10)] obtain t parent where
    "createCert cr t parent (PublicKey t) rootKey = Inr der" "SerialNumber t = Some (SetBytes certId)"
    "KeyUsage t = KeyUsageDigitalSignature" "ExtKeyUsage t = [ExtKeyUsageClientAuth]"
    "PublicKey t = Some (Ed25519Key (PrivateKey_Public cr key))" "SubjectKeyId t = Some (of_bytes (concat (map be32 ids)))"
    unfolding PrivateKey_Public_def by blast
  from client_template_accepted [OF assms(4) this assms(6,8)] show ?thesis .
qed

definition csr_crypto :: crypto where
  \<comment> \<open>one host, one request \<open>[6]\<close> and one certificate for it\<close>
  "csr_crypto = demo_crypto\<lparr>createCert := (\<lambda>t parent pk key.
       if t = demo_template\<lparr>Subject := empty_name\<lparr>CommonName := [104]\<rparr>, IPAddresses := [localhost]\<rparr> then Inr [1] else Inl ErrInvalidInput),
     parseReq := (\<lambda>c. Inr \<lparr>r_Ed25519 = True, r_PureEd25519 = True, r_Subject = empty_name\<lparr>CommonName := [104]\<rparr>, r_DNSNames = [],
       r_IPAddresses = [localhost], r_PublicKey = Some (Ed25519Key [5])\<rparr>)\<rparr>"

definition demo_createReq :: "csr_template \<Rightarrow> byte list \<Rightarrow> auth_error + byte list" where
  "demo_createReq t key = (if t = \<lparr>ct_PureEd25519 = True, ct_Subject = empty_name\<lparr>CommonName := [104]\<rparr>, ct_IPAddresses = [localhost]\<rparr> \<and> key = [5]
     then Inr [6] else Inl ErrInvalidInput)"

theorem csr_certificate_accepted_witness:
  "CreateCsr (Inr [104]) demo_createReq [5] = Inr [6] \<and> Certificate_Type csr_crypto (Some [1]) = Client \<and>
    Certificate_Validate csr_crypto (Some [1]) [5] = None"
proof -
  have csr: "CreateCsr (Inr [104]) demo_createReq [5] = Inr [6]" by (simp add: CreateCsr_def demo_createReq_def)
  have rt: "csr_roundtrip csr_crypto demo_createReq" "x509_roundtrip csr_crypto"
    by (auto simp: csr_roundtrip_def x509_roundtrip_def demo_createReq_def csr_crypto_def demo_crypto_def demo_template_def split: if_splits)
  have "put_ids [7, 9] 0 (replicate 8 0) = Some [0, 0, 0, 7, 0, 0, 0, 9]" by (subst put_ids_eq) (simp_all add: be32_def)
  then have "CreateCertificate csr_crypto [3] (Some [2]) [FromCsr [6], FromOptions (demo_options\<lparr>o_PublicKey := None\<rparr>)] = Some (Inr [1])"
    by (simp add: CreateCertificate_def baseCertificate_def parse_details_def Csr_details_def Options_details_def with_type_def Let_def
        csr_crypto_def demo_crypto_def demo_options_def demo_template_def mergePkixNames_def merge_name_def empty_name_def del: put_ids.simps)
  from csr_certificate_accepted [OF csr rt(1) this rt(2), of "replicate 16 1" "[7, 9]"] csr show ?thesis
    by (simp add: csr_crypto_def demo_crypto_def demo_options_def)
qed

end
