(* ===== verification/Tls_Accept.thy ===== *)
theory Tls_Accept
  imports Auth_Tls
begin

text \<open>
  The rest of \<^verbatim>\<open>peer/tls_server.go\<close>: the options and their defaults, \<^verbatim>\<open>NewTlsServer\<close> with the
  configuration it gives to \<^verbatim>\<open>crypto/tls\<close>, the loop that accepts connections, and the goroutines that
  serve them side by side on one pool of connection objects.

  A goroutine is a \<open>task\<close>, and a step runs one of them for one handshake or one round of its loop;
  \<open>server_exec\<close> is one step of the accepting loop or of one task, and any order of steps is an
  interleaving. What the listener and the handshakes return is part of the event. A connection
  object belongs to one goroutine from \<^verbatim>\<open>acquireConn\<close> to \<^verbatim>\<open>releaseConn\<close>. \<open>None\<close> is a panic, which in
  Go ends the process. The clock and the text of log messages are not modelled; \<open>slog\<close> holds which
  message is logged.
\<close>

subsection \<open>Options\<close>

record TlsServerOptions =
  so_PrivateKey :: "byte list"
  so_Certificate :: Certificate
  so_RootCa :: Certificate
  so_EntryProc :: "(Entry \<Rightarrow> gostring option) option" \<comment> \<open>\<open>None\<close> is nil; the result is an error's text\<close>
  so_ClientTimeout :: int                              \<comment> \<open>nanoseconds\<close>
  so_Auth :: "(x509_cert \<Rightarrow> go_error option) option"
  so_NoCopy :: bool

definition entryEchoer :: "Entry \<Rightarrow> gostring option" where
  \<comment> \<open>prints the entry\<close>
  "entryEchoer e = None"

definition Server_setDefaults :: "TlsServerOptions \<Rightarrow> TlsServerOptions" where
  "Server_setDefaults op =
    (let op = (if so_EntryProc op = None then op\<lparr>so_EntryProc := Some entryEchoer\<rparr> else op)
     in if so_ClientTimeout op \<le> 0 then op\<lparr>so_ClientTimeout := 60 * 10 ^ 9\<rparr> else op)"

subsection \<open>The server\<close>

datatype log_line =
    LogStarting | LogStopping | LogIncoming | LogNotTls | LogClosedByClient | LogIdle | LogFinished
  | LogError conn_error

datatype task =
    Handshaking
  | Serving tls_state tlsServerConn tlsServerConn \<comment> \<open>the object as acquired (history) and as it is\<close>
  | Served tls_state tlsServerConn conn_report
  | Refused conn_error

record TlsServer =
  s_opt :: TlsServerOptions
  s_config :: tls_config
  connPool :: "tlsServerConn list"
  accepting :: bool
  tasks :: "task list"
  slog :: "log_line list"

definition server_config :: "crypto \<Rightarrow> TlsServerOptions \<Rightarrow> tls_config option" where
  "server_config cr op = do {
     cas \<leftarrow> Certificate_X509Pool cr (so_RootCa op) None;
     Some \<lparr>MinVersion = 13, MaxVersion = 13, NextProtos = [protoV11Ack, protoV10], trusted = cas,
       presents = Certificate_TLSChain cr (so_Certificate op) (so_PrivateKey op)\<rparr> }"

definition NewTlsServer :: "crypto \<Rightarrow> auth_error option \<Rightarrow> TlsServerOptions \<Rightarrow> (auth_error + TlsServer) option" where
  \<comment> \<open>with the error of \<^verbatim>\<open>listenConfig.Listen\<close>\<close>
  "NewTlsServer cr listenErr op = (let op = Server_setDefaults op in
     case Certificate_Validate cr (so_Certificate op) (so_PrivateKey op) of
       Some err \<Rightarrow> Some (Inl err)
     | None \<Rightarrow>
       if Certificate_Type cr (so_Certificate op) \<noteq> Server then Some (Inl (AuthErr (lit ''not a server certificate'')))
       else case listenErr of
         Some err \<Rightarrow> Some (Inl err)
       | None \<Rightarrow> do {
           cfg \<leftarrow> server_config cr op;
           Some (Inr \<lparr>s_opt = op, s_config = cfg, connPool = [], accepting = True, tasks = [], slog = [LogStarting]\<rparr>) })"

subsection \<open>Accepting and serving\<close>

datatype accepted_conn = AcceptClosed | AcceptErr io_error | AcceptTls | AcceptPlain

definition accept_step :: "accepted_conn \<Rightarrow> TlsServer \<Rightarrow> TlsServer" where
  \<comment> \<open>one round of \<^verbatim>\<open>acceptConnections\<close>\<close>
  "accept_step a s = (if \<not> accepting s then s else case a of
     AcceptClosed \<Rightarrow> s\<lparr>accepting := False, slog := slog s @ [LogStopping]\<rparr>
   | AcceptErr err \<Rightarrow> s\<lparr>slog := slog s @ [LogError (IoErr err)]\<rparr>
   | AcceptTls \<Rightarrow> s\<lparr>slog := slog s @ [LogIncoming], tasks := tasks s @ [Handshaking]\<rparr>
   | AcceptPlain \<Rightarrow> s\<lparr>slog := slog s @ [LogIncoming, LogNotTls]\<rparr>)"

definition closing_line :: "conn_error \<Rightarrow> log_line" where
  \<comment> \<open>what the goroutine logs of the error of \<^verbatim>\<open>handleConnection\<close>\<close>
  "closing_line err =
    (if err = IoErr EOF then LogClosedByClient else if err = IoErr NetTimeout then LogIdle else LogError err)"

definition end_task :: "nat \<Rightarrow> task \<Rightarrow> conn_error \<Rightarrow> TlsServer \<Rightarrow> TlsServer" where
  "end_task k t err s = s\<lparr>tasks := (tasks s)[k := t], slog := slog s @ [closing_line err]\<rparr>"

definition handshake_step ::
  "nat \<Rightarrow> int \<Rightarrow> nat option \<Rightarrow> conn_error option \<Rightarrow> tls_state \<Rightarrow> TlsServer \<Rightarrow> TlsServer option" where
  \<comment> \<open>the handshake, in which \<^verbatim>\<open>crypto/tls\<close> may fail before or by \<^verbatim>\<open>VerifyConnection\<close>, and \<^verbatim>\<open>acquireConn\<close>\<close>
  "handshake_step k unixNow pick tlsErr st s = (case tlsErr of
     Some err \<Rightarrow> Some (end_task k (Refused err) err s)
   | None \<Rightarrow> do {
       v \<leftarrow> VerifyConnection (so_Auth (s_opt s)) (PeerCertificates st);
       (case v of
          Some err \<Rightarrow> Some (end_task k (Refused (LogErr err)) (LogErr err) s)
        | None \<Rightarrow> (case pool_get pick (connPool s) of (got, pool) \<Rightarrow> do {
            acq \<leftarrow> acquireConn (so_NoCopy (s_opt s)) unixNow got st;
            (case acq of
               None \<Rightarrow> (let err = LogErr (ErrExternal (lit ''missing peer certificates''))
                 in Some (end_task k (Refused err) err s))
             | Some c \<Rightarrow> Some (s\<lparr>connPool := pool, tasks := (tasks s)[k := Serving st c c]\<rparr>)) })) })"

definition listen_round :: "env \<Rightarrow> tlsServerConn \<Rightarrow> (tlsServerConn \<times> conn_error option) option" where
  \<comment> \<open>one round of \<^verbatim>\<open>listen\<close>\<close>
  "listen_round env c = (case handleEntry env c of
     None \<Rightarrow> None
   | Some (c', Some err) \<Rightarrow> Some (if ack c' \<and> err \<noteq> IoErr NetTimeout then logged_ack env respAckNOK c' else c', Some err)
   | Some (c', None) \<Rightarrow> Some (if ack c' then logged_ack env respAckOK c' else c', None))"

definition serve_step :: "env \<Rightarrow> nat \<Rightarrow> tls_state \<Rightarrow> tlsServerConn \<Rightarrow> tlsServerConn \<Rightarrow> TlsServer \<Rightarrow> TlsServer option" where
  "serve_step env k st c0 c s = do {
     (c, e) \<leftarrow> listen_round env c;
     (case e of
        None \<Rightarrow> Some (s\<lparr>tasks := (tasks s)[k := Serving st c0 c]\<rparr>)
      | Some err \<Rightarrow>
          let rep = \<lparr>rep_error = err, rep_finished = (0 <s entriesReceived c \<or> 0 <s pingsReceived c), rep_conn = releaseConn c\<rparr>;
              s = s\<lparr>connPool := releaseConn c # connPool s, slog := slog s @ (if rep_finished rep then [LogFinished] else [])\<rparr>
          in Some (end_task k (Served st c0 rep) err s)) }"

datatype server_event =
    Accept accepted_conn
  | Run nat int "nat option" "conn_error option" tls_state \<comment> \<open>one step of a task; only a handshake uses the rest\<close>

definition server_env :: "env \<Rightarrow> TlsServer \<Rightarrow> env" where
  "server_env env s = env\<lparr>process := (case so_EntryProc (s_opt s) of Some p \<Rightarrow> p | None \<Rightarrow> process env)\<rparr>"

fun server_exec :: "env \<Rightarrow> server_event \<Rightarrow> TlsServer \<Rightarrow> TlsServer option" where
  "server_exec env (Accept a) s = Some (accept_step a s)"
| "server_exec env (Run k t pick tlsErr st) s =
    (if length (tasks s) \<le> k then Some s else case tasks s ! k of
       Handshaking \<Rightarrow> handshake_step k t pick tlsErr st s
     | Serving st c0 c \<Rightarrow> serve_step (server_env env s) k st c0 c s
     | _ \<Rightarrow> Some s)"

fun server_run :: "env \<Rightarrow> server_event list \<Rightarrow> TlsServer \<Rightarrow> TlsServer option" where
  "server_run env [] s = Some s"
| "server_run env (ev # evs) s = do { s \<leftarrow> server_exec env ev s; server_run env evs s }"

subsection \<open>Every connection behaves as if it were alone\<close>

lemma listen_by_rounds:
  "listen env c = (case listen_round env c of
     None \<Rightarrow> None | Some (c', Some err) \<Rightarrow> Some (c', err) | Some (c', None) \<Rightarrow> listen env c')"
  by (subst listen.simps) (auto simp: listen_round_def split: option.splits prod.splits)

lemma round_step:
  assumes "listen_round env c = Some (c', e)" "conn_ok c" "env_ok env"
  shows "conn_ok c' \<and> same_conn c c' \<and> (\<exists>es. delivered c' = delivered c @ es \<and> list_all (allowed c) es)"
proof -
  obtain d f where h: "handleEntry env c = Some (d, f)" "c' = d \<or> (\<exists>a. c' = logged_ack env a d)"
    using assms(1) by (fastforce simp: listen_round_def split: option.splits if_splits)
  from handle_step [OF h(1) assms(2,3)] h(2) show ?thesis
    by (auto simp: logged_ack_step intro: same_conn_trans [OF _ logged_ack_step(2)])
qed

definition begun :: "bool \<Rightarrow> (x509_cert \<Rightarrow> go_error option) option \<Rightarrow> tls_state \<Rightarrow> tlsServerConn \<Rightarrow> bool" where
  \<comment> \<open>a verified handshake, and a clean object that was acquired after it\<close>
  "begun nc auth st c0 \<longleftrightarrow> VerifyConnection auth (PeerCertificates st) = Some None \<and>
     (\<exists>t got. acquireConn nc t got st = Some (Some c0) \<and> conn_clean (case got of Some v \<Rightarrow> v | None \<Rightarrow> new_conn nc))"

definition peer_buckets :: "tls_state \<Rightarrow> u32 set" where
  \<comment> \<open>the buckets of the certificate a client has shown\<close>
  "peer_buckets st = (case PeerCertificates st of Some (Some cert # _) \<Rightarrow> cert_buckets cert | _ \<Rightarrow> {})"

fun task_ok :: "env \<Rightarrow> bool \<Rightarrow> (x509_cert \<Rightarrow> go_error option) option \<Rightarrow> task \<Rightarrow> bool" where
  "task_ok env nc auth (Serving st c0 c) \<longleftrightarrow> begun nc auth st c0 \<and> conn_ok c \<and> same_conn c0 c \<and> listen env c = listen env c0 \<and>
     (\<exists>es. delivered c = delivered c0 @ es \<and> (\<forall>e\<in>set es. bucketId e \<in> peer_buckets st))"
| "task_ok env nc auth (Served st c0 rep) \<longleftrightarrow> begun nc auth st c0 \<and>
     (\<exists>c. listen env c0 = Some (c, rep_error rep) \<and> rep_conn rep = releaseConn c \<and>
       rep_finished rep = (0 <s entriesReceived c \<or> 0 <s pingsReceived c)) \<and>
     (\<exists>es. delivered (rep_conn rep) = delivered c0 @ es \<and> (\<forall>e\<in>set es. bucketId e \<in> peer_buckets st))"
| "task_ok env nc auth t \<longleftrightarrow> True"

definition server_ok :: "env \<Rightarrow> TlsServer \<Rightarrow> bool" where
  "server_ok env s \<longleftrightarrow> list_all conn_clean (connPool s) \<and>
     list_all (task_ok (server_env env s) (so_NoCopy (s_opt s)) (so_Auth (s_opt s))) (tasks s)"

lemma verified_peer:
  assumes "VerifyConnection auth certs = Some None"
  obtains cert rest where "certs = Some (Some cert # rest)"
  using assms by (auto simp: VerifyConnection_def split: option.splits list.splits)

lemma begunD:
  assumes "begun nc auth st c0"
  shows "conn_ok c0" "allowed c0 e \<Longrightarrow> bucketId e \<in> peer_buckets st"
proof -
  obtain t got where v: "VerifyConnection auth (PeerCertificates st) = Some None" and a: "acquireConn nc t got st = Some (Some c0)"
    and cl: "conn_clean (case got of Some v \<Rightarrow> v | None \<Rightarrow> new_conn nc)" using assms by (auto simp: begun_def)
  obtain cert rest where p: "PeerCertificates st = Some (Some cert # rest)" using verified_peer [OF v] .
  obtain k where k: "SubjectKeyId cert = Some k" "c0 = (case got of Some v \<Rightarrow> v | None \<Rightarrow> new_conn nc)\<lparr>validBucketIds := Some k,
      inp := stream st, inp_end := stream_end st, out := [], ack := (NegotiatedProtocol st = protoV11Ack), timeConnected := t, timeLastActive := t\<rparr>"
    using acquire_verified [OF v p, of nc t got] a by auto
  show "conn_ok c0" using cl by (simp add: k(2) conn_clean_def conn_ok_def)
  show "bucketId e \<in> peer_buckets st" if "allowed c0 e"
    using that k by (simp add: allowed_def peer_buckets_def p cert_buckets_def)
qed

lemma server_ok_update:
  assumes "server_ok env s" "task_ok (server_env env s) (so_NoCopy (s_opt s)) (so_Auth (s_opt s)) t" "list_all conn_clean pool"
  shows "server_ok env (s\<lparr>connPool := pool, tasks := (tasks s)[k := t], slog := l\<rparr>)"
  using assms set_update_subset_insert [of "tasks s" k t] by (auto simp: server_ok_def server_env_def list_all_iff)

lemma handshake_ok:
  assumes "server_ok env s" "handshake_step k t pick tlsErr st s = Some s'"
  shows "server_ok env s'" "s_opt s' = s_opt s"
proof -
  have pool: "list_all conn_clean (connPool s)" using assms(1) by (simp add: server_ok_def)
  obtain got p where g: "pool_get pick (connPool s) = (got, p)" by force
  note clean = conn_pool.get_clean [OF pool g]
  consider err where "s' = end_task k (Refused err) err s"
    | c where "VerifyConnection (so_Auth (s_opt s)) (PeerCertificates st) = Some None" "acquireConn (so_NoCopy (s_opt s)) t got st = Some (Some c)"
        "s' = s\<lparr>connPool := p, tasks := (tasks s)[k := Serving st c c]\<rparr>"
  proof (cases tlsErr)
    case None
    then obtain v where v: "VerifyConnection (so_Auth (s_opt s)) (PeerCertificates st) = Some v"
      using assms(2) by (auto simp: handshake_step_def bind_eq_Some_conv)
    show thesis
    proof (cases v)
      case n: None
      obtain acq where "acquireConn (so_NoCopy (s_opt s)) t got st = Some acq"
        using assms(2) None v n g by (auto simp: handshake_step_def bind_eq_Some_conv)
      with assms(2) None v n g that show thesis by (cases acq) (auto simp: handshake_step_def Let_def)
    qed (use assms(2) None v that(1) in \<open>auto simp: handshake_step_def\<close>)
  qed (use assms(2) that(1) in \<open>auto simp: handshake_step_def\<close>)
  then have "server_ok env s' \<and> s_opt s' = s_opt s"
  proof cases
    case 1
    with server_ok_update [OF assms(1) _ pool, where t = "Refused err" and k = k] show ?thesis by (simp add: end_task_def)
  next
    case (2 c)
    then have "begun (so_NoCopy (s_opt s)) (so_Auth (s_opt s)) st c" using clean(1) by (auto simp: begun_def)
    then have "task_ok (server_env env s) (so_NoCopy (s_opt s)) (so_Auth (s_opt s)) (Serving st c c)" by (simp add: begunD)
    from server_ok_update [OF assms(1) this clean(2), where k = k and l = "slog s"] 2(3) show ?thesis by simp
  qed
  then show "server_ok env s'" "s_opt s' = s_opt s" by simp_all
qed

lemma serve_ok:
  assumes "server_ok env s" "env_ok env" "k < length (tasks s)" "tasks s ! k = Serving st c0 c"
    "serve_step (server_env env s) k st c0 c s = Some s'"
  shows "server_ok env s'" "s_opt s' = s_opt s"
proof -
  let ?env = "server_env env s"
  have env: "env_ok ?env" using assms(2) by (simp add: env_ok_def server_env_def)
  have pool: "list_all conn_clean (connPool s)" using assms(1) by (simp add: server_ok_def)
  have "task_ok ?env (so_NoCopy (s_opt s)) (so_Auth (s_opt s)) (Serving st c0 c)"
    using assms(1,3,4) by (auto simp: server_ok_def list_all_length)
  then have t: "begun (so_NoCopy (s_opt s)) (so_Auth (s_opt s)) st c0" "conn_ok c" "same_conn c0 c" "listen ?env c = listen ?env c0"
    "\<exists>es. delivered c = delivered c0 @ es \<and> (\<forall>e\<in>set es. bucketId e \<in> peer_buckets st)" by simp_all
  obtain c' e where r: "listen_round ?env c = Some (c', e)" using assms(5) by (auto simp: serve_step_def bind_eq_Some_conv)
  have st: "conn_ok c'" "same_conn c c'" "\<exists>es. delivered c' = delivered c @ es \<and> list_all (allowed c) es"
    using round_step [OF r t(2) env] by auto
  have same: "same_conn c0 c'" using same_conn_trans [OF t(3) st(2)] .
  have al: "allowed c x = allowed c0 x" for x by (rule allowed_same [OF t(3)])
  have es: "\<exists>es. delivered c' = delivered c0 @ es \<and> (\<forall>e\<in>set es. bucketId e \<in> peer_buckets st)"
    using t(5) st(3) begunD(2) [OF t(1)] al by (auto simp: list_all_iff)
  have "server_ok env s' \<and> s_opt s' = s_opt s"
  proof (cases e)
    case None
    then have "listen ?env c' = listen ?env c0" using t(4) r listen_by_rounds [of ?env c] by simp
    then have "task_ok ?env (so_NoCopy (s_opt s)) (so_Auth (s_opt s)) (Serving st c0 c')" using t(1) st(1) same es by simp
    from server_ok_update [OF assms(1) this pool, where k = k and l = "slog s"] None r assms(5) show ?thesis by (auto simp: serve_step_def)
  next
    case (Some err)
    let ?rep = "\<lparr>rep_error = err, rep_finished = (0 <s entriesReceived c' \<or> 0 <s pingsReceived c'), rep_conn = releaseConn c'\<rparr>"
    have "listen ?env c0 = Some (c', err)" using t(4) r Some listen_by_rounds [of ?env c] by simp
    then have "task_ok ?env (so_NoCopy (s_opt s)) (so_Auth (s_opt s)) (Served st c0 ?rep)"
      using t(1) es by (auto simp: releaseConn_def)
    from server_ok_update [OF assms(1) this conn_pool.put_clean [OF pool st(1)]] Some r assms(5) show ?thesis
      by (auto simp: serve_step_def end_task_def Let_def)
  qed
  then show "server_ok env s'" "s_opt s' = s_opt s" by simp_all
qed

lemma server_exec_ok:
  assumes "server_ok env s" "env_ok env" "server_exec env ev s = Some s'"
  shows "server_ok env s' \<and> s_opt s' = s_opt s"
proof (cases ev)
  case (Accept a)
  with assms(1,3) show ?thesis
    by (cases a) (auto simp: accept_step_def server_ok_def server_env_def)
next
  case (Run k t pick tlsErr st)
  show ?thesis
  proof (cases "length (tasks s) \<le> k")
    case True
    with assms(1,3) Run show ?thesis by simp
  next
    case False
    then have k: "k < length (tasks s)" by simp
    show ?thesis
    proof (cases "tasks s ! k")
      case Handshaking
      with assms(3) Run k have "handshake_step k t pick tlsErr st s = Some s'" by simp
      from handshake_ok [OF assms(1) this] show ?thesis by simp
    next
      case (Serving st' c0 c)
      with assms(3) Run k have "serve_step (server_env env s) k st' c0 c s = Some s'" by simp
      from serve_ok [OF assms(1,2) k Serving this] show ?thesis by simp
    qed (use assms(1,3) Run k in simp_all)
  qed
qed

lemma server_run_ok:
  "server_ok env s \<Longrightarrow> env_ok env \<Longrightarrow> server_run env evs s = Some s' \<Longrightarrow> server_ok env s' \<and> s_opt s' = s_opt s"
proof (induction evs arbitrary: s)
  case (Cons ev evs)
  then obtain s1 where "server_exec env ev s = Some s1" "server_run env evs s1 = Some s'" by (auto simp: bind_eq_Some_conv)
  with Cons.IH [of s1] Cons.prems(2) server_exec_ok [OF Cons.prems(1,2), of ev s1] show ?case by simp
qed simp

lemma new_server:
  assumes "NewTlsServer cr le op = Some (Inr s)"
  shows "server_ok env s" "s_opt s = Server_setDefaults op" "tasks s = []" "connPool s = []" "accepting s"
  using assms by (auto simp: NewTlsServer_def Let_def bind_eq_Some_conv server_ok_def split: option.splits if_splits)

text \<open>
  C6: under every interleaving of accepting, handshakes and rounds of the connections, with
  connection objects reused as \<^verbatim>\<open>sync.Pool\<close> likes, a connection that has ended has given exactly the
  result that \<open>handleConnection\<close> gives for its client alone, on some clean object.
\<close>

theorem connections_independent:
  assumes "NewTlsServer cr le op = Some (Inr s0)" and "env_ok env" and "server_run env evs s0 = Some s"
    and "k < length (tasks s)" and "tasks s ! k = Served st c0 rep"
  shows "\<exists>t got. conn_clean (case got of Some v \<Rightarrow> v | None \<Rightarrow> new_conn (so_NoCopy op)) \<and>
    handleConnection (server_env env s) (so_NoCopy op) t got None st = Some (Inr rep)"
proof -
  have ok: "server_ok env s" "s_opt s = Server_setDefaults op"
    using server_run_ok [OF new_server(1) [OF assms(1)] assms(2,3)] new_server(2) [OF assms(1)] by simp_all
  then have nc: "so_NoCopy (s_opt s) = so_NoCopy op" by (simp add: Server_setDefaults_def Let_def)
  have "task_ok (server_env env s) (so_NoCopy op) (so_Auth (s_opt s)) (Served st c0 rep)"
    using ok(1) assms(4,5) nc by (auto simp: server_ok_def list_all_length)
  then obtain t got c where "acquireConn (so_NoCopy op) t got st = Some (Some c0)"
    "conn_clean (case got of Some v \<Rightarrow> v | None \<Rightarrow> new_conn (so_NoCopy op))"
    "listen (server_env env s) c0 = Some (c, rep_error rep)" "rep_conn rep = releaseConn c"
    "rep_finished rep = (0 <s entriesReceived c \<or> 0 <s pingsReceived c)" by (auto simp: begun_def)
  then show ?thesis by (intro exI [of _ t] exI [of _ got]) (simp add: handleConnection_def)
qed

text \<open>
  C7: under every interleaving, whatever bytes the clients send, every entry that a connection has
  handed to the processor since it was acquired is for a bucket of the certificate its client has
  shown, also while other clients are served and on an object another client used before.
\<close>

theorem server_confines_clients:
  assumes "NewTlsServer cr le op = Some (Inr s0)" and "env_ok env" and "server_run env evs s0 = Some s"
    and "k < length (tasks s)" and "tasks s ! k = Serving st c0 c \<or> (\<exists>rep. tasks s ! k = Served st c0 rep \<and> c = rep_conn rep)"
  shows "VerifyConnection (so_Auth op) (PeerCertificates st) = Some None \<and>
    (\<exists>es. delivered c = delivered c0 @ es \<and> (\<forall>e\<in>set es. bucketId e \<in> peer_buckets st))"
proof -
  have ok: "server_ok env s" "s_opt s = Server_setDefaults op"
    using server_run_ok [OF new_server(1) [OF assms(1)] assms(2,3)] new_server(2) [OF assms(1)] by simp_all
  then have "so_Auth (s_opt s) = so_Auth op" by (simp add: Server_setDefaults_def Let_def)
  moreover have "task_ok (server_env env s) (so_NoCopy (s_opt s)) (so_Auth (s_opt s)) (tasks s ! k)"
    using ok(1) assms(4) by (simp add: server_ok_def list_all_length)
  ultimately show ?thesis using assms(5) by (auto simp: begun_def)
qed

subsection \<open>What a client can do to the server\<close>

text \<open>
  C30: a client can end the whole server. On every reachable server, a client that has shown a valid
  certificate and sends 28 bytes for one of its buckets makes its goroutine panic, and with it the
  process and the service of all other clients, whatever follows the 28 bytes.
\<close>

theorem client_crashes_server:
  assumes "NewTlsServer cr le op = Some (Inr s0)" and "env_ok env" and "server_run env evs s0 = Some s"
    and "k < length (tasks s)" and "tasks s ! k = Handshaking"
    and "VerifyConnection (so_Auth op) (PeerCertificates st) = Some None" and "PeerCertificates st = Some (Some cert # rest)"
    and "pred_option slice_ok (SubjectKeyId cert)" and "v \<in> cert_buckets cert" and "stream st = wrap_entry v @ tail"
  shows "server_run env [Run k t pick None st, Run k t pick None st] s = None"
proof -
  have ok: "server_ok env s" "s_opt s = Server_setDefaults op"
    using server_run_ok [OF new_server(1) [OF assms(1)] assms(2,3)] new_server(2) [OF assms(1)] by simp_all
  then have auth: "so_Auth (s_opt s) = so_Auth op" by (simp add: Server_setDefaults_def Let_def)
  obtain got p where g: "pool_get pick (connPool s) = (got, p)" by force
  let ?nc = "so_NoCopy (s_opt s)"
  obtain c i where c: "acquireConn ?nc t got st = Some (Some c)" "SubjectKeyId cert = Some i" "sl_len i mod 4 = 0"
    "c = (case got of Some v \<Rightarrow> v | None \<Rightarrow> new_conn ?nc)\<lparr>validBucketIds := Some i, inp := stream st, inp_end := stream_end st,
      out := [], ack := (NegotiatedProtocol st = protoV11Ack), timeConnected := t, timeLastActive := t\<rparr>"
    using acquire_verified [OF assms(6,7), of ?nc t got] by (elim exE conjE) (rule that)
  let ?s = "s\<lparr>connPool := p, tasks := (tasks s)[k := Serving st c c]\<rparr>"
  have h: "server_exec env (Run k t pick None st) s = Some ?s"
    using assms(4-6) auth g c(1) by (simp add: handshake_step_def)
  have "server_ok env ?s" using server_exec_ok [OF ok(1) assms(2) h] by simp
  then have "task_ok (server_env env ?s) ?nc (so_Auth (s_opt s)) (Serving st c c)"
    using assms(4) by (auto simp: server_ok_def list_all_length)
  then have "conn_ok c" by simp
  moreover have "ids_ok c" using assms(8) c(2,3) by (simp add: c(4) ids_ok_def)
  moreover have "allowed c (zero_entry\<lparr>bucketId := v\<rparr>)" using assms(9) c(2) by (simp add: c(4) allowed_def cert_buckets_def)
  moreover have "env_ok (server_env env ?s)" using assms(2) by (simp add: env_ok_def server_env_def)
  ultimately have "handleEntry (server_env env ?s) c = None"
    using assms(10) handle_wrap_panics [of c "server_env env ?s" v tail] by (simp add: c(4))
  then have "server_exec env (Run k t pick None st) ?s = None"
    using assms(4) by (simp add: serve_step_def listen_round_def)
  with h show ?thesis by simp
qed

text \<open>
  C40: the root certificate is not checked: a server whose \<^verbatim>\<open>RootCa\<close> is missing or cannot be parsed
  starts all the same, with a nil pool, for which \<^verbatim>\<open>crypto/tls\<close> trusts the authorities of the host.
\<close>

theorem unreadable_root_trusts_host:
  assumes "Certificate_Validate cr (so_Certificate op) (so_PrivateKey op) = None" and "Certificate_Type cr (so_Certificate op) = Server"
    and "Certificate_X509 cr (so_RootCa op) = Inl err"
  shows "\<exists>s. NewTlsServer cr None op = Some (Inr s) \<and> accepting s \<and> trusted (s_config s) = None"
  using assms by (simp add: NewTlsServer_def Server_setDefaults_def Let_def server_config_def Certificate_X509Pool_def)

subsection \<open>A concrete server\<close>

definition server_crypto :: crypto where
  \<comment> \<open>the certificate \<open>[1]\<close> is a server's, and no other can be parsed\<close>
  "server_crypto = demo_crypto\<lparr>parseCert := (\<lambda>der. if der = [1] then Inr (demo_template\<lparr>ExtKeyUsage := [ExtKeyUsageServerAuth]\<rparr>)
     else Inl ErrInvalidInput)\<rparr>"

definition demo_server_options :: TlsServerOptions where
  "demo_server_options = \<lparr>so_PrivateKey = [5], so_Certificate = Some [1], so_RootCa = Some [1], so_EntryProc = None,
     so_ClientTimeout = 0, so_Auth = None, so_NoCopy = False\<rparr>"

lemma demo_server_cert:
  "Certificate_Validate server_crypto (Some [1]) [5] = None" "Certificate_Type server_crypto (Some [1]) = Server"
  "Certificate_X509 server_crypto None = Inl ErrInvalidInput"
  by (simp_all add: Certificate_Validate_def Certificate_Type_def Certificate_X509_def certPublicKey_def PrivateKey_Public_def cert_der_def
      server_crypto_def demo_crypto_def demo_template_def)

lemma demo_server_started:
  "\<exists>s. NewTlsServer server_crypto None demo_server_options = Some (Inr s) \<and> tasks s = [] \<and> connPool s = [] \<and> accepting s \<and>
    s_opt s = Server_setDefaults demo_server_options"
  using demo_server_cert by (simp add: NewTlsServer_def Let_def server_config_def Certificate_X509Pool_def demo_server_options_def
      Server_setDefaults_def split: sum.split)

theorem unreadable_root_trusts_host_witness:
  "\<exists>s. NewTlsServer server_crypto None (demo_server_options\<lparr>so_RootCa := None\<rparr>) = Some (Inr s) \<and> accepting s \<and> trusted (s_config s) = None"
  by (rule unreadable_root_trusts_host) (use demo_server_cert in \<open>simp_all add: demo_server_options_def\<close>)

theorem client_crashes_server_witness:
  "\<exists>s0 s. NewTlsServer server_crypto None demo_server_options = Some (Inr s0) \<and> server_run demo_env [Accept AcceptTls] s0 = Some s \<and>
    server_run demo_env [Run 0 0 None None (demo_state\<lparr>stream := wrap_entry 123\<rparr>), Run 0 0 None None (demo_state\<lparr>stream := wrap_entry 123\<rparr>)] s = None"
proof -
  obtain s0 where s0: "NewTlsServer server_crypto None demo_server_options = Some (Inr s0)" "tasks s0 = []" "accepting s0"
    using demo_server_started by blast
  then obtain s where s: "server_run demo_env [Accept AcceptTls] s0 = Some s" "tasks s = [Handshaking]" by (simp add: accept_step_def)
  have "server_run demo_env [Run 0 0 None None (demo_state\<lparr>stream := wrap_entry 123\<rparr>), Run 0 0 None None (demo_state\<lparr>stream := wrap_entry 123\<rparr>)] s = None"
  proof (rule client_crashes_server [OF s0(1) demo_env_ok s(1)])
    show "(123 :: u32) \<in> cert_buckets demo_cert"
      by (auto simp: cert_buckets_def demo_cert_def of_bytes_def Uint32_def intro!: exI [of _ 0])
  qed (use s(2) demo_verified in \<open>simp_all add: demo_state_def demo_server_options_def demo_cert_def slice_ok_def of_bytes_def\<close>)
  with s0(1) s(1) show ?thesis by blast
qed

text \<open>A client that sends one entry and closes.\<close>

lemma demo_served:
  assumes "st = demo_state\<lparr>stream := wire_bytes sample_entry\<rparr>"
  shows "\<exists>s0 s c0 rep. NewTlsServer server_crypto None demo_server_options = Some (Inr s0) \<and>
    server_run demo_env [Accept AcceptTls, Run 0 0 None None st, Run 0 0 None None st, Run 0 0 None None st] s0 = Some s \<and>
    tasks s = [Served st c0 rep] \<and> length (delivered (rep_conn rep)) = 1"
proof -
  obtain s0 where s0: "NewTlsServer server_crypto None demo_server_options = Some (Inr s0)" "tasks s0 = []" "accepting s0" "connPool s0 = []"
    "s_opt s0 = Server_setDefaults demo_server_options" using demo_server_started by blast
  let ?s1 = "s0\<lparr>slog := slog s0 @ [LogIncoming], tasks := [Handshaking]\<rparr>"
  have r1: "server_exec demo_env (Accept AcceptTls) s0 = Some ?s1" using s0 by (simp add: accept_step_def)
  let ?k = "of_bytes [0, 0, 0, 123]"
  let ?c = "(new_conn False)\<lparr>validBucketIds := Some ?k, inp := wire_bytes sample_entry, inp_end := EOF, out := [], ack := True,
    timeConnected := 0, timeLastActive := 0\<rparr>"
  have opts: "so_NoCopy (s_opt s0) = False" "so_Auth (s_opt s0) = None" "so_EntryProc (s_opt s0) = Some entryEchoer"
    using s0(5) by (simp_all add: Server_setDefaults_def demo_server_options_def Let_def)
  have v: "VerifyConnection None (PeerCertificates st) = Some None" using demo_verified assms by (simp add: demo_state_def)
  have "acquireConn False 0 None st = Some (Some ?c)"
    using acquire_verified [OF v, of demo_cert "[]" False 0 None] assms by (auto simp: demo_state_def demo_cert_def)
  then have r2: "server_exec demo_env (Run 0 0 None None st) ?s1 = Some (?s1\<lparr>connPool := [], tasks := [Serving st ?c ?c]\<rparr>)"
    using opts v s0(4) by (simp add: handshake_step_def pool_get_def)
  let ?env = "demo_env\<lparr>process := entryEchoer\<rparr>"
  have env: "env_ok ?env" "process ?env = (\<lambda>_. None)" using demo_env_ok by (simp_all add: env_ok_def entryEchoer_def fun_eq_iff)
  have ok: "conn_ok ?c" "ids_ok ?c" by (simp_all add: conn_ok_def ids_ok_def new_conn_def fresh_conn_def slice_ok_def of_bytes_def)
  have "allowed ?c sample_entry" by (auto simp: allowed_def of_bytes_def Uint32_def sample_entry_def intro!: exI [of _ 0])
  then have "sendable ?c sample_entry" by (simp add: sendable_def sample_entry_ok sample_entry_size)
  from handle_wire [OF ok(1) env(1) ok(2) this _ env(2), of "[]"] obtain c1 d where
    c1: "handleEntry ?env ?c = Some (c1, None)" "delivered c1 = [d]" "inp c1 = []" by (auto simp: new_conn_def fresh_conn_def)
  let ?c1 = "if ack c1 then logged_ack ?env respAckOK c1 else c1"
  have d1: "delivered ?c1 = [d]" "inp ?c1 = []" using c1(2,3) by (simp_all add: logged_ack_step)
  have r3: "listen_round ?env ?c = Some (?c1, None)" by (simp add: listen_round_def c1(1))
  have "\<exists>c2 err. listen_round ?env ?c1 = Some (c2, Some err) \<and> delivered c2 = [d]"
    using d1 by (auto simp: listen_round_def handleEntry_def ReadFull_def Let_def logged_ack_step simp del: if_split split: if_split)
  then obtain c2 err where r4: "listen_round ?env ?c1 = Some (c2, Some err)" "delivered c2 = [d]" by blast
  have "\<exists>s c0 rep. server_run demo_env [Run 0 0 None None st, Run 0 0 None None st] (?s1\<lparr>connPool := [], tasks := [Serving st ?c ?c]\<rparr>) = Some s \<and>
    tasks s = [Served st c0 rep] \<and> length (delivered (rep_conn rep)) = 1"
    using r3 r4 opts by (simp add: serve_step_def server_env_def end_task_def Let_def releaseConn_def)
  with s0(1) r1 r2 show ?thesis by auto
qed

theorem connections_independent_witness:
  "\<exists>st s0 s c0 rep t got. NewTlsServer server_crypto None demo_server_options = Some (Inr s0) \<and> tasks s = [Served st c0 rep] \<and>
    length (delivered (rep_conn rep)) = 1 \<and> handleConnection (server_env demo_env s) False t got None st = Some (Inr rep)"
proof -
  obtain s0 s c0 rep where s: "NewTlsServer server_crypto None demo_server_options = Some (Inr s0)"
    "server_run demo_env [Accept AcceptTls, Run 0 0 None None (demo_state\<lparr>stream := wire_bytes sample_entry\<rparr>),
      Run 0 0 None None (demo_state\<lparr>stream := wire_bytes sample_entry\<rparr>), Run 0 0 None None (demo_state\<lparr>stream := wire_bytes sample_entry\<rparr>)] s0 = Some s"
    "tasks s = [Served (demo_state\<lparr>stream := wire_bytes sample_entry\<rparr>) c0 rep]" "length (delivered (rep_conn rep)) = 1"
    using demo_served [OF refl] by blast
  have "so_NoCopy demo_server_options = False" by (simp add: demo_server_options_def)
  with connections_independent [OF s(1) demo_env_ok s(2), of 0 _ c0 rep] s(3) obtain t got where
    "handleConnection (server_env demo_env s) False t got None (demo_state\<lparr>stream := wire_bytes sample_entry\<rparr>) = Some (Inr rep)" by auto
  with s(1,3,4) show ?thesis by blast
qed

theorem server_confines_clients_witness:
  "\<exists>st s0 evs s c0 rep es. NewTlsServer server_crypto None demo_server_options = Some (Inr s0) \<and>
    server_run demo_env evs s0 = Some s \<and> tasks s = [Served st c0 rep] \<and> length (delivered (rep_conn rep)) = 1 \<and> delivered (rep_conn rep) = delivered c0 @ es \<and> (\<forall>e\<in>set es. bucketId e \<in> peer_buckets st)"
proof -
  obtain s0 s c0 rep where s: "NewTlsServer server_crypto None demo_server_options = Some (Inr s0)"
    "server_run demo_env [Accept AcceptTls, Run 0 0 None None (demo_state\<lparr>stream := wire_bytes sample_entry\<rparr>),
      Run 0 0 None None (demo_state\<lparr>stream := wire_bytes sample_entry\<rparr>), Run 0 0 None None (demo_state\<lparr>stream := wire_bytes sample_entry\<rparr>)] s0 = Some s"
    "tasks s = [Served (demo_state\<lparr>stream := wire_bytes sample_entry\<rparr>) c0 rep]" "length (delivered (rep_conn rep)) = 1"
    using demo_served [OF refl] by blast
  from server_confines_clients [OF s(1) demo_env_ok s(2), of 0 _ c0 "rep_conn rep"] s(3) obtain es where
    "delivered (rep_conn rep) = delivered c0 @ es"
    "\<forall>e\<in>set es. bucketId e \<in> peer_buckets (demo_state\<lparr>stream := wire_bytes sample_entry\<rparr>)" by auto
  with s show ?thesis by blast
qed

end
