(* ===== verification/Byte_Channel.thy ===== *)
theory Byte_Channel
  imports Prelude "HOL-Library.Signed_Division" "HOL-Library.Sublist"
begin

text \<open>
  \<^verbatim>\<open>internal/channel/byte_channel.go\<close>: the ring buffer between the writers of a client, the
  goroutine that sends and the goroutine that takes acknowledgements.

  Every operation of the source runs under the mutex, so it is one atomic step on the record. The
  \<^verbatim>\<open>int64\<close> fields are integers: none exceeds three times the capacity, which the allocation of
  \<open>data\<close> bounds. \<^verbatim>\<open>%\<close> is the truncated remainder \<open>smod\<close>, and a zero divisor panics. A condition variable is the number of
  its broadcasts; an operation that waits on one returns \<open>Blocked\<close>, and is evaluated again when
  it is woken. A callback that fills a slice maps the old bytes to the new ones, or panics.
\<close>

subsection \<open>The source's channel\<close>

record ByteChannel =
  data :: "byte list"
  readCond :: nat  \<comment> \<open>broadcasts so far\<close>
  writeCond :: nat
  itemSize :: int
  startIdx :: int
  awaitingAck :: int
  chLength :: int
  capacity :: int
  itemsWritten :: u64
  itemsRead :: u64
  closed :: bool
  closedWriting :: bool

datatype 'a waiting = Blocked | Done 'a

type_synonym fill = "byte list \<Rightarrow> byte list option"

definition NewByteChannel :: "int \<Rightarrow> int \<Rightarrow> ByteChannel option" where
  \<comment> \<open>\<^verbatim>\<open>make\<close> panics on a negative size\<close>
  "NewByteChannel cap isize =
    (if isize * cap < 0 then None
     else Some \<lparr>data = replicate (nat (isize * cap)) 0, readCond = 0, writeCond = 0, itemSize = isize,
       startIdx = 0, awaitingAck = 0, chLength = 0, capacity = cap, itemsWritten = 0, itemsRead = 0,
       closed = False, closedWriting = False\<rparr>)"

definition ch_wrap :: "ByteChannel \<Rightarrow> int \<Rightarrow> int option" where
  "ch_wrap ch i = (if capacity ch = 0 then None else Some ((i + capacity ch) smod capacity ch))"

definition ch_index :: "ByteChannel \<Rightarrow> int \<Rightarrow> int option" where
  "ch_index ch i = ch_wrap ch (startIdx ch + i)"

definition ch_slice :: "ByteChannel \<Rightarrow> int \<Rightarrow> byte list option" where
  "ch_slice ch i =
    (let lo = i * itemSize ch; hi = lo + itemSize ch in
     if 0 \<le> lo \<and> lo \<le> hi \<and> hi \<le> int (length (data ch))
     then Some (take (nat (hi - lo)) (drop (nat lo) (data ch))) else None)"

definition unread :: "ByteChannel \<Rightarrow> int" where "unread ch = chLength ch - awaitingAck ch"
definition toRead :: "ByteChannel \<Rightarrow> bool" where "toRead ch \<longleftrightarrow> unread ch > 0"
definition toAck :: "ByteChannel \<Rightarrow> bool" where "toAck ch \<longleftrightarrow> awaitingAck ch > 0"
definition spaceLeft :: "ByteChannel \<Rightarrow> bool" where "spaceLeft ch \<longleftrightarrow> chLength ch < capacity ch"
definition ch_len :: "ByteChannel \<Rightarrow> int" where "ch_len ch = chLength ch"
definition ch_empty :: "ByteChannel \<Rightarrow> bool" where "ch_empty ch \<longleftrightarrow> ch_len ch \<le> 0"

lemmas ch_tests = unread_def toRead_def toAck_def spaceLeft_def ch_len_def ch_empty_def

definition overwrite :: "byte list \<Rightarrow> nat \<Rightarrow> byte list \<Rightarrow> byte list" where
  \<comment> \<open>the array after its bytes from \<open>off\<close> on were changed in place to \<open>x\<close>\<close>
  "overwrite d off x = take off d @ x @ drop (off + length x) d"

definition ch_write :: "ByteChannel \<Rightarrow> fill \<Rightarrow> ByteChannel option" where
  "ch_write ch cb = do {
     i \<leftarrow> ch_index ch (chLength ch);
     b \<leftarrow> ch_slice ch i;
     x \<leftarrow> cb b;
     let ch = ch\<lparr>data := overwrite (data ch) (nat (i * itemSize ch)) x\<rparr>;
     ch \<leftarrow> (if spaceLeft ch then Some (ch\<lparr>chLength := chLength ch + 1\<rparr>)
           else do {
             st \<leftarrow> ch_index ch 1;
             let ch = ch\<lparr>startIdx := st\<rparr>;
             Some (if toAck ch then ch\<lparr>awaitingAck := awaitingAck ch - 1\<rparr> else ch) });
     Some (ch\<lparr>itemsWritten := itemsWritten ch + 1, readCond := Suc (readCond ch)\<rparr>) }"

definition copy_block :: "byte list \<Rightarrow> byte list \<Rightarrow> byte list" where
  \<comment> \<open>the destination after \<^verbatim>\<open>copy(dst, src)\<close>\<close>
  "copy_block dst src = take (length dst) src @ drop (length src) dst"

fun copy_slots :: "ByteChannel \<Rightarrow> nat list \<Rightarrow> ByteChannel \<Rightarrow> ByteChannel option" where
  "copy_slots ch [] dst = Some dst"
| "copy_slots ch (i # is) dst = do {
     k \<leftarrow> ch_index ch (int i);
     dst \<leftarrow> ch_write dst (\<lambda>b. do { s \<leftarrow> ch_slice ch k; Some (copy_block b s) });
     copy_slots ch is dst }"

definition CopyTo :: "ByteChannel \<Rightarrow> ByteChannel \<Rightarrow> ByteChannel option" where
  \<comment> \<open>the destination after the call; the source channel does not change\<close>
  "CopyTo ch dst = do {
     dst \<leftarrow> copy_slots ch [0..<nat (capacity ch)] dst;
     let dst = dst\<lparr>awaitingAck := 0\<rparr>;
     Some (if chLength ch < capacity dst then dst\<lparr>chLength := chLength ch\<rparr>
           else dst\<lparr>chLength := capacity dst\<rparr>) }"

definition WriteOrBlock :: "ByteChannel \<Rightarrow> fill \<Rightarrow> (ByteChannel \<times> bool) waiting option" where
  "WriteOrBlock ch cb =
    (if closedWriting ch then Some (Done (ch, False))
     else if \<not> spaceLeft ch then Some Blocked
     else do { ch \<leftarrow> ch_write ch cb; Some (Done (ch, True)) })"

definition WriteOrFail :: "ByteChannel \<Rightarrow> fill \<Rightarrow> (ByteChannel \<times> bool) option" where
  "WriteOrFail ch cb =
    (if closedWriting ch \<or> \<not> spaceLeft ch then Some (ch, False)
     else do { ch \<leftarrow> ch_write ch cb; Some (ch, True) })"

definition WriteOrReplace :: "ByteChannel \<Rightarrow> fill \<Rightarrow> (ByteChannel \<times> bool) option" where
  "WriteOrReplace ch cb =
    (if closedWriting ch then Some (ch, False)
     else do { ch \<leftarrow> ch_write ch cb; Some (ch, True) })"

definition ch_Wait :: "ByteChannel \<Rightarrow> (int \<times> io_error option) waiting" where
  "ch_Wait ch =
    (if \<not> toRead ch \<and> \<not> closed ch then (if closedWriting ch then Done (0, Some EOF) else Blocked)
     else if closed ch then Done (0, Some ErrClosedPipe)
     else Done (unread ch, None))"

definition WaitUntilRead :: "ByteChannel \<Rightarrow> (int \<times> io_error option) waiting" where
  "WaitUntilRead ch =
    (if \<not> toAck ch \<and> \<not> closed ch then Blocked
     else if closed ch then Done (0, Some ErrClosedPipe)
     else Done (awaitingAck ch, None))"

definition WaitUntilEmpty :: "ByteChannel \<Rightarrow> io_error option waiting" where
  "WaitUntilEmpty ch =
    (if \<not> ch_empty ch \<and> \<not> closed ch then Blocked
     else if closed ch then Done (Some ErrClosedPipe)
     else Done None)"

definition ch_read :: "ByteChannel \<Rightarrow> (ByteChannel \<times> byte list) option" where
  "ch_read ch = do {
     i \<leftarrow> ch_index ch (awaitingAck ch);
     let ch = ch\<lparr>awaitingAck := awaitingAck ch + 1\<rparr>;
     let ch = ch\<lparr>itemsRead := itemsRead ch + 1\<rparr>;
     b \<leftarrow> ch_slice ch i;
     Some (ch, b) }"

definition undoRead :: "ByteChannel \<Rightarrow> ByteChannel" where
  "undoRead ch = ch\<lparr>awaitingAck := awaitingAck ch - 1, itemsRead := itemsRead ch - 1\<rparr>"

text \<open>
  The callback of a read gets the bytes of an item and works on the state \<open>'s\<close> it captures; it
  returns an error or not, or panics.
\<close>

definition ReadToCallback ::
  "(byte list \<Rightarrow> 's \<Rightarrow> ('s \<times> io_error option) option) \<Rightarrow> bool \<Rightarrow> ByteChannel \<Rightarrow> 's \<Rightarrow>
    (ByteChannel \<times> 's \<times> io_error option) option" where
  "ReadToCallback cb undoOnError ch s =
    (if ch_empty ch then Some (ch, s, Some EOF)
     else do {
       (ch, b) \<leftarrow> ch_read ch;
       (s, err) \<leftarrow> cb b s;
       if undoOnError \<and> err \<noteq> None
       then (let ch = undoRead ch in Some (ch\<lparr>readCond := Suc (readCond ch)\<rparr>, s, err))
       else Some (ch\<lparr>writeCond := Suc (writeCond ch)\<rparr>, s, err) })"

definition ch_Ack :: "ByteChannel \<Rightarrow> ByteChannel option" where
  "ch_Ack ch =
    (if \<not> toAck ch then Some ch
     else do {
       let ch = ch\<lparr>awaitingAck := awaitingAck ch - 1\<rparr>;
       let ch = ch\<lparr>chLength := chLength ch - 1\<rparr>;
       ch \<leftarrow> (if chLength ch > 0 then do { st \<leftarrow> ch_index ch 1; Some (ch\<lparr>startIdx := st\<rparr>) } else Some ch);
       Some (ch\<lparr>writeCond := Suc (writeCond ch)\<rparr>) })"

definition CloseWriting :: "ByteChannel \<Rightarrow> ByteChannel" where
  "CloseWriting ch =
    (if \<not> closedWriting ch then ch\<lparr>closedWriting := True, writeCond := Suc (writeCond ch)\<rparr> else ch)"

definition ch_Close :: "ByteChannel \<Rightarrow> ByteChannel" where
  "ch_Close ch =
    (if \<not> closed ch
     then ch\<lparr>closed := True, closedWriting := True, readCond := Suc (readCond ch), writeCond := Suc (writeCond ch)\<rparr>
     else ch)"

definition ch_Rewind :: "ByteChannel \<Rightarrow> ByteChannel \<times> int" where
  "ch_Rewind ch =
    (let count = awaitingAck ch; ch = ch\<lparr>awaitingAck := 0\<rparr> in
     (if count > 0 then ch\<lparr>readCond := Suc (readCond ch)\<rparr> else ch, count))"

definition ch_Reset :: "ByteChannel \<Rightarrow> ByteChannel" where
  "ch_Reset ch = ch\<lparr>startIdx := 0, awaitingAck := 0, chLength := 0, writeCond := Suc (writeCond ch)\<rparr>"

subsection \<open>The slots of the ring\<close>

definition slot :: "ByteChannel \<Rightarrow> nat \<Rightarrow> byte list" where
  "slot ch k = take (nat (itemSize ch)) (drop (k * nat (itemSize ch)) (data ch))"

definition slots :: "ByteChannel \<Rightarrow> byte list list" where
  "slots ch = map (slot ch) [0..<nat (capacity ch)]"

definition items :: "ByteChannel \<Rightarrow> byte list list" where
  \<comment> \<open>what the channel holds, oldest first\<close>
  "items ch = take (nat (chLength ch)) (rotate (nat (startIdx ch)) (slots ch))"

definition sent :: "ByteChannel \<Rightarrow> byte list list" where
  \<comment> \<open>read, and waiting for an acknowledgement\<close>
  "sent ch = take (nat (awaitingAck ch)) (items ch)"

definition pending :: "ByteChannel \<Rightarrow> byte list list" where
  "pending ch = drop (nat (awaitingAck ch)) (items ch)"

definition channel_ok :: "ByteChannel \<Rightarrow> bool" where
  "channel_ok ch \<longleftrightarrow> 0 < capacity ch \<and> 0 \<le> itemSize ch \<and>
     int (length (data ch)) = itemSize ch * capacity ch \<and> 0 \<le> startIdx ch \<and> startIdx ch < capacity ch \<and>
     0 \<le> awaitingAck ch \<and> awaitingAck ch \<le> chLength ch \<and> chLength ch \<le> capacity ch"

lemma channel_okD:
  assumes "channel_ok ch"
  shows "0 < capacity ch" "0 \<le> itemSize ch" "0 \<le> startIdx ch" "startIdx ch < capacity ch"
    "0 \<le> awaitingAck ch" "awaitingAck ch \<le> chLength ch" "chLength ch \<le> capacity ch" "0 \<le> chLength ch"
    "length (data ch) = nat (itemSize ch) * nat (capacity ch)"
  using assms by (simp_all add: channel_ok_def nat_mult_distrib [symmetric]) (metis nat_int)

lemma sent_pending [simp]: "sent ch @ pending ch = items ch"
  by (simp add: sent_def pending_def)

lemma length_slots [simp]: "length (slots ch) = nat (capacity ch)"
  by (simp add: slots_def)

lemma length_items: "channel_ok ch \<Longrightarrow> length (items ch) = nat (chLength ch)"
  by (simp add: items_def channel_ok_def min_absorb2 nat_mono)

lemma length_sent: "channel_ok ch \<Longrightarrow> length (sent ch) = nat (awaitingAck ch)"
  by (simp add: sent_def length_items channel_ok_def min_absorb2 nat_mono)

lemma length_pending: "channel_ok ch \<Longrightarrow> length (pending ch) = nat (unread ch)"
  by (simp add: pending_def length_items unread_def nat_diff_distrib channel_ok_def)

lemma ch_index_ok:
  assumes "channel_ok ch" "0 \<le> i"
  shows "ch_index ch i = Some ((startIdx ch + i) mod capacity ch)"
  using assms by (simp add: ch_index_def ch_wrap_def channel_ok_def smod_mod_positive)

lemma ch_index_frame: "startIdx ch' = startIdx ch \<Longrightarrow> capacity ch' = capacity ch \<Longrightarrow> ch_index ch' i = ch_index ch i"
  by (simp add: ch_index_def ch_wrap_def)

lemma ch_slice_frame: "data ch' = data ch \<Longrightarrow> itemSize ch' = itemSize ch \<Longrightarrow> ch_slice ch' i = ch_slice ch i"
  by (auto simp: ch_slice_def Let_def)

lemma slot_end: "channel_ok ch \<Longrightarrow> k < nat (capacity ch) \<Longrightarrow> (k + 1) * nat (itemSize ch) \<le> length (data ch)"
  by (metis Suc_eq_plus1 Suc_leI channel_okD(9) mult.commute mult_le_mono1)

lemma ch_slice_ok:
  assumes "channel_ok ch" "0 \<le> i" "i < capacity ch"
  shows "ch_slice ch i = Some (slot ch (nat i))"
proof -
  have "i * itemSize ch + itemSize ch \<le> int (length (data ch))"
    using of_nat_mono [OF slot_end [OF assms(1), of "nat i"], where 'a = int] assms channel_okD(2) [OF assms(1)]
    by (simp add: algebra_simps)
  with assms channel_okD(2) [OF assms(1)] show ?thesis
    by (simp add: ch_slice_def Let_def slot_def nat_mult_distrib)
qed

lemma length_slot: "channel_ok ch \<Longrightarrow> k < nat (capacity ch) \<Longrightarrow> length (slot ch k) = nat (itemSize ch)"
  using slot_end [of ch k] by (simp add: slot_def)

lemma length_overwrite: "off + length x \<le> length d \<Longrightarrow> length (overwrite d off x) = length d"
  by (simp add: overwrite_def)

lemma block_overwrite:
  assumes "length x = z" "(w + 1) * z \<le> length d" "(k + 1) * z \<le> length d"
  shows "take z (drop (k * z) (overwrite d (w * z) x)) = (if k = w then x else take z (drop (k * z) d))"
proof (rule nth_equalityI)
  have len: "length (overwrite d (w * z) x) = length d"
    using assms(1,2) by (intro length_overwrite) simp
  then show "length (take z (drop (k * z) (overwrite d (w * z) x))) = length (if k = w then x else take z (drop (k * z) d))"
    using assms by simp
  fix i assume "i < length (take z (drop (k * z) (overwrite d (w * z) x)))"
  then have i: "i < z" by simp
  have "k * z + i < w * z" if "k < w"
  proof -
    have "(k + 1) * z \<le> w * z" using that by (intro mult_le_mono1) simp
    with i show ?thesis by simp
  qed
  moreover have "w * z + z \<le> k * z" if "w < k"
  proof -
    have "(w + 1) * z \<le> k * z" using that by (intro mult_le_mono1) simp
    then show ?thesis by simp
  qed
  ultimately show "take z (drop (k * z) (overwrite d (w * z) x)) ! i = (if k = w then x else take z (drop (k * z) d)) ! i"
    using i assms len
    by (cases k w rule: linorder_cases) (auto simp: overwrite_def nth_append min_def)
qed

lemma slot_overwritten:
  assumes "channel_ok ch" "length x = nat (itemSize ch)" "0 \<le> i" "i < capacity ch"
    "data ch' = overwrite (data ch) (nat (i * itemSize ch)) x" "itemSize ch' = itemSize ch" "k < nat (capacity ch)"
  shows "slot ch' k = (if k = nat i then x else slot ch k)"
  using assms slot_end [OF assms(1), of k] slot_end [OF assms(1), of "nat i"]
  by (simp add: slot_def nat_mult_distrib block_overwrite)

lemma slots_overwritten:
  assumes "channel_ok ch" "length x = nat (itemSize ch)" "0 \<le> i" "i < capacity ch"
    "data ch' = overwrite (data ch) (nat (i * itemSize ch)) x" "itemSize ch' = itemSize ch" "capacity ch' = capacity ch"
  shows "slots ch' = (slots ch)[nat i := x]"
  using assms by (intro nth_equalityI) (simp_all add: slots_def slot_overwritten nth_list_update)

text \<open>A ring of \<open>length xs\<close> slots, seen from slot \<open>s\<close>, \<open>n\<close> of them in use.\<close>

definition ring :: "nat \<Rightarrow> nat \<Rightarrow> 'a list \<Rightarrow> 'a list" where
  "ring s n xs = take n (rotate s xs)"

lemma ring_nth: "i < n \<Longrightarrow> n \<le> length xs \<Longrightarrow> ring s n xs ! i = xs ! ((s + i) mod length xs)"
  by (simp add: ring_def nth_rotate)

lemma length_ring: "n \<le> length xs \<Longrightarrow> length (ring s n xs) = n"
  by (simp add: ring_def)

lemma mod_offset_le:
  assumes "i \<le> j" "j < c" "(s + i) mod c = (s + j) mod c"
  shows "i = (j :: nat)"
proof -
  have "c dvd (s + j) - (s + i)" using assms by (simp only: mod_eq_dvd_iff_nat [symmetric] add_le_cancel_left)
  then have "c dvd j - i" by simp
  then show ?thesis using assms(1,2) nat_dvd_not_less [of "j - i" c] by linarith
qed

lemma mod_offset_eq: "i < c \<Longrightarrow> j < c \<Longrightarrow> (s + i) mod c = (s + j) mod c \<longleftrightarrow> i = (j :: nat)"
  using mod_offset_le [of i j c s] mod_offset_le [of j i c s] by (metis nat_le_linear)

lemma ring_append:
  assumes "n < length xs"
  shows "ring s (Suc n) (xs[(s + n) mod length xs := x]) = ring s n xs @ [x]"
  using assms by (intro nth_equalityI)
    (auto simp: length_ring ring_nth nth_append nth_list_update mod_offset_eq less_Suc_eq
      intro!: nth_list_update_eq mod_less_divisor)

lemma ring_tl:
  assumes "0 < n" "n \<le> length xs"
  shows "ring (Suc s mod length xs) (n - 1) xs = tl (ring s n xs)"
  using assms by (intro nth_equalityI) (auto simp: length_ring ring_nth nth_tl mod_add_left_eq)

lemma ring_replace:
  assumes "xs \<noteq> []"
  shows "ring (Suc s mod length xs) (length xs) (xs[s mod length xs := x]) = tl (ring s (length xs) xs) @ [x]"
proof (intro nth_equalityI)
  let ?c = "length xs"
  have c: "0 < ?c" using assms by simp
  fix i assume i: "i < length (ring (Suc s mod ?c) ?c (xs[s mod ?c := x]))"
  then have i: "i < ?c" by (simp add: length_ring)
  have "(Suc s + i) mod ?c = s mod ?c \<longleftrightarrow> Suc i = ?c"
  proof (cases "Suc i = ?c")
    case True
    then have "Suc s + i = s + ?c" by simp
    with True show ?thesis by (metis mod_add_self2)
  next
    case False
    then have "Suc i < ?c" using i by simp
    then show ?thesis using mod_offset_eq [of "Suc i" ?c 0 s] c False by simp
  qed
  then show "ring (Suc s mod ?c) ?c (xs[s mod ?c := x]) ! i = (tl (ring s ?c xs) @ [x]) ! i"
    using i c by (auto simp: ring_nth length_ring nth_append nth_tl nth_list_update mod_add_left_eq)
qed (use assms in \<open>simp add: length_ring\<close>)

lemma items_ring: "items ch = ring (nat (startIdx ch)) (nat (chLength ch)) (slots ch)"
  by (simp add: items_def ring_def)

subsection \<open>The operations on the ring\<close>

definition next_slot :: "ByteChannel \<Rightarrow> byte list" where
  \<comment> \<open>the bytes the callback of a write gets\<close>
  "next_slot ch = slot ch (nat ((startIdx ch + chLength ch) mod capacity ch))"

definition written :: "ByteChannel \<Rightarrow> byte list \<Rightarrow> ByteChannel" where
  "written ch x = ch\<lparr>data := overwrite (data ch) (nat ((startIdx ch + chLength ch) mod capacity ch * itemSize ch)) x,
     itemsWritten := itemsWritten ch + 1, readCond := Suc (readCond ch)\<rparr>"

lemma slots_written:
  assumes "channel_ok ch" "length x = nat (itemSize ch)"
  shows "slots (written ch x) = (slots ch)[nat ((startIdx ch + chLength ch) mod capacity ch) := x]"
    "length (data (written ch x)) = length (data ch)"
proof -
  let ?i = "(startIdx ch + chLength ch) mod capacity ch"
  have i: "0 \<le> ?i" "?i < capacity ch" using channel_okD(1) [OF assms(1)] by simp_all
  show "slots (written ch x) = (slots ch)[nat ?i := x]"
    by (rule slots_overwritten [OF assms i]) (simp_all add: written_def)
  show "length (data (written ch x)) = length (data ch)"
    using slot_end [OF assms(1), of "nat ?i"] i assms(2)
    by (simp add: written_def nat_mult_distrib length_overwrite)
qed

lemma ch_write_eq:
  assumes "channel_ok ch" "cb (next_slot ch) = Some x"
  shows "ch_write ch cb = Some
    (if spaceLeft ch then (written ch x)\<lparr>chLength := chLength ch + 1\<rparr>
     else (written ch x)\<lparr>startIdx := (startIdx ch + 1) mod capacity ch,
            awaitingAck := (if toAck ch then awaitingAck ch - 1 else awaitingAck ch)\<rparr>)"
proof -
  let ?i = "(startIdx ch + chLength ch) mod capacity ch"
  have i: "0 \<le> ?i" "?i < capacity ch" using channel_okD(1) [OF assms(1)] by simp_all
  have st: "ch_index (ch\<lparr>data := d\<rparr>) 1 = Some ((startIdx ch + 1) mod capacity ch)" for d
    using ch_index_ok [OF assms(1), of 1] by (simp add: ch_index_frame [of "ch\<lparr>data := d\<rparr>" ch])
  show ?thesis
    using assms ch_slice_ok [OF assms(1) i] ch_index_ok [OF assms(1), of "chLength ch"] channel_okD [OF assms(1)]
    by (simp add: ch_write_def next_slot_def Let_def st written_def ch_tests)
qed

lemma ch_write_room:
  assumes "channel_ok ch" "cb (next_slot ch) = Some x" "length x = nat (itemSize ch)" "spaceLeft ch"
  shows "\<exists>ch'. ch_write ch cb = Some ch' \<and> channel_ok ch' \<and> items ch' = items ch @ [x] \<and>
    awaitingAck ch' = awaitingAck ch \<and> capacity ch' = capacity ch \<and> itemSize ch' = itemSize ch"
proof -
  let ?ch = "(written ch x)\<lparr>chLength := chLength ch + 1\<rparr>"
  note ok = channel_okD [OF assms(1)]
  have "slots ?ch = slots (written ch x)" by (simp add: slots_def slot_def)
  then have sl: "slots ?ch = (slots ch)[(nat (startIdx ch) + nat (chLength ch)) mod nat (capacity ch) := x]"
    using slots_written(1) [OF assms(1,3)] ok by (simp add: nat_mod_distrib nat_add_distrib)
  have "items ?ch = items ch @ [x]"
    using ring_append [of "nat (chLength ch)" "slots ch" "nat (startIdx ch)" x] assms(4) ok
    by (simp add: items_ring sl) (simp add: written_def spaceLeft_def Suc_nat_eq_nat_zadd1 add.commute)
  moreover have "channel_ok ?ch"
    using assms(1,4) slots_written(2) [OF assms(1,3)] by (simp add: channel_ok_def spaceLeft_def written_def)
  ultimately show ?thesis using ch_write_eq [of ch cb x, OF assms(1,2)] assms(4) by (simp add: written_def)
qed

lemma ch_write_full:
  assumes "channel_ok ch" "cb (next_slot ch) = Some x" "length x = nat (itemSize ch)" "\<not> spaceLeft ch"
  shows "\<exists>ch'. ch_write ch cb = Some ch' \<and> channel_ok ch' \<and> items ch' = tl (items ch) @ [x] \<and>
    awaitingAck ch' = max 0 (awaitingAck ch - 1) \<and> capacity ch' = capacity ch \<and> itemSize ch' = itemSize ch"
proof -
  let ?ch = "(written ch x)\<lparr>startIdx := (startIdx ch + 1) mod capacity ch,
            awaitingAck := (if toAck ch then awaitingAck ch - 1 else awaitingAck ch)\<rparr>"
  note ok = channel_okD [OF assms(1)]
  have full: "chLength ch = capacity ch" using ok assms(4) by (simp add: spaceLeft_def)
  have "slots ?ch = slots (written ch x)" by (simp add: slots_def slot_def)
  then have sl: "slots ?ch = (slots ch)[nat (startIdx ch) mod nat (capacity ch) := x]"
    using slots_written(1) [OF assms(1,3)] ok by (simp add: full)
  have "items ?ch = tl (items ch) @ [x]"
    using ring_replace [of "slots ch" "nat (startIdx ch)" x] ok
    by (simp add: items_ring sl full)
      (simp add: written_def full nat_mod_distrib nat_add_distrib slots_def)
  moreover have "channel_ok ?ch"
    using assms(1) slots_written(2) [OF assms(1,3)] by (simp add: channel_ok_def toAck_def written_def)
  ultimately show ?thesis using ch_write_eq [of ch cb x, OF assms(1,2)] assms(4) ok by (simp add: written_def toAck_def max_def)
qed

lemma slots_frame:
  "data ch' = data ch \<Longrightarrow> itemSize ch' = itemSize ch \<Longrightarrow> capacity ch' = capacity ch \<Longrightarrow> slots ch' = slots ch"
  by (simp add: slots_def slot_def cong: map_cong)

lemma items_frame:
  "data ch' = data ch \<Longrightarrow> itemSize ch' = itemSize ch \<Longrightarrow> capacity ch' = capacity ch \<Longrightarrow>
    startIdx ch' = startIdx ch \<Longrightarrow> chLength ch' = chLength ch \<Longrightarrow> items ch' = items ch"
  by (simp add: items_def slots_frame [of ch' ch])

lemma ch_read_ok:
  assumes "channel_ok ch" "toRead ch"
  shows "ch_read ch = Some (ch\<lparr>awaitingAck := awaitingAck ch + 1, itemsRead := itemsRead ch + 1\<rparr>, hd (pending ch))"
proof -
  note ok = channel_okD [OF assms(1)]
  let ?i = "(startIdx ch + awaitingAck ch) mod capacity ch"
  have i: "0 \<le> ?i" "?i < capacity ch" using ok by simp_all
  have sl: "ch_slice (ch\<lparr>awaitingAck := a, itemsRead := n\<rparr>) ?i = Some (slot ch (nat ?i))" for a n
    using ch_slice_ok [OF assms(1) i] by (simp add: ch_slice_frame [of "ch\<lparr>awaitingAck := a, itemsRead := n\<rparr>" ch])
  have "hd (pending ch) = items ch ! nat (awaitingAck ch)"
    using assms ok by (simp add: pending_def hd_drop_conv_nth length_items ch_tests)
  also have "\<dots> = slot ch (nat ?i)"
    using assms(2) ok by (simp add: items_ring ring_nth ch_tests slots_def nat_mod_distrib nat_add_distrib nat_mono)
  finally show ?thesis
    using ch_index_ok [OF assms(1) ok(5)] by (simp add: ch_read_def sl)
qed

lemma read_state:
  assumes "channel_ok ch" "toRead ch" "ch' = ch\<lparr>awaitingAck := awaitingAck ch + 1, itemsRead := n\<rparr>"
  shows "channel_ok ch'" "sent ch' = sent ch @ [hd (pending ch)]" "pending ch' = tl (pending ch)"
proof -
  note ok = channel_okD [OF assms(1)]
  have len: "nat (awaitingAck ch) < length (items ch)"
    using assms(1,2) ok by (simp add: length_items ch_tests)
  have it: "items ch' = items ch" using assms(3) by (intro items_frame) simp_all
  show "channel_ok ch'" using assms by (simp add: channel_ok_def ch_tests)
  show "sent ch' = sent ch @ [hd (pending ch)]" "pending ch' = tl (pending ch)"
    using len ok(5) it
    by (simp_all add: sent_def pending_def assms(3) nat_add_distrib take_Suc_conv_app_nth hd_drop_conv_nth drop_Suc tl_drop)
qed

lemma ch_Ack_ok:
  assumes "channel_ok ch"
  shows "\<exists>ch'. ch_Ack ch = Some ch' \<and> channel_ok ch' \<and> sent ch' = tl (sent ch) \<and> pending ch' = pending ch \<and>
    capacity ch' = capacity ch \<and> itemSize ch' = itemSize ch \<and> closedWriting ch' = closedWriting ch \<and> closed ch' = closed ch"
proof (cases "toAck ch")
  case False
  then have "sent ch = []" using assms by (simp add: sent_def toAck_def channel_ok_def)
  with False assms show ?thesis by (simp add: ch_Ack_def)
next
  case True
  note ok = channel_okD [OF assms]
  let ?st = "if 1 < chLength ch then (startIdx ch + 1) mod capacity ch else startIdx ch"
  let ?ch = "ch\<lparr>awaitingAck := awaitingAck ch - 1, chLength := chLength ch - 1, startIdx := ?st,
    writeCond := Suc (writeCond ch)\<rparr>"
  have "slots ?ch = slots ch" by (intro slots_frame) simp_all
  moreover have "ring (nat (startIdx ch + 1) mod nat (capacity ch)) (nat (chLength ch) - 1) (slots ch) = tl (items ch)"
    using ring_tl [of "nat (chLength ch)" "slots ch" "nat (startIdx ch)"] ok True
    by (simp add: items_ring toAck_def nat_mono Suc_nat_eq_nat_zadd1 add.commute)
  moreover have "tl (items ch) = []" if "\<not> 1 < chLength ch"
  proof -
    have "length (items ch) \<le> 1" using length_items [OF assms] that by simp
    then show ?thesis by (cases "items ch") simp_all
  qed
  ultimately have it: "items ?ch = tl (items ch)"
    using ok True by (auto simp: items_ring ring_def toAck_def nat_mod_distrib nat_diff_distrib)
  then have "sent ?ch = tl (sent ch)" "pending ?ch = pending ch"
    using True by (simp_all add: sent_def pending_def tl_take toAck_def nat_diff_distrib drop_Suc [symmetric])
  moreover have "channel_ok ?ch" using assms True by (auto simp: channel_ok_def toAck_def)
  moreover have "ch_Ack ch = Some ?ch"
    using True ch_index_ok [OF assms, of 1]
      ch_index_frame [of "ch\<lparr>awaitingAck := awaitingAck ch - 1, chLength := chLength ch - 1\<rparr>" ch 1]
    by (simp add: ch_Ack_def Let_def)
  ultimately show ?thesis by simp
qed

lemma ch_Rewind_ok:
  assumes "channel_ok ch"
  shows "channel_ok (fst (ch_Rewind ch))" "sent (fst (ch_Rewind ch)) = []"
    "pending (fst (ch_Rewind ch)) = sent ch @ pending ch"
proof -
  have "items (fst (ch_Rewind ch)) = items ch" by (intro items_frame) (simp_all add: ch_Rewind_def Let_def)
  then show "channel_ok (fst (ch_Rewind ch))" "sent (fst (ch_Rewind ch)) = []"
    "pending (fst (ch_Rewind ch)) = sent ch @ pending ch"
    using assms by (simp_all add: channel_ok_def sent_def pending_def ch_Rewind_def Let_def)
qed

lemma New_ok:
  assumes "0 < cap" "0 \<le> isize"
  shows "\<exists>ch. NewByteChannel cap isize = Some ch \<and> channel_ok ch \<and> sent ch = [] \<and> pending ch = [] \<and>
    itemSize ch = isize \<and> capacity ch = cap \<and> \<not> closed ch \<and> \<not> closedWriting ch"
proof -
  have "0 \<le> isize * cap" using assms by simp
  with assms show ?thesis
    by (simp add: NewByteChannel_def channel_ok_def sent_def pending_def items_def not_less)
qed

subsection \<open>The contract of a queue with acknowledgements\<close>

text \<open>
  A queue holds items that were handed out and await an acknowledgement (\<open>sentq\<close>), followed by
  items not handed out yet (\<open>pend\<close>). An item put on a full queue replaces the oldest one.
\<close>

locale ack_queue =
  fixes inv :: "'c \<Rightarrow> bool" and sentq pend :: "'c \<Rightarrow> 'x list" and cap :: "'c \<Rightarrow> nat"
    and item_ok :: "'c \<Rightarrow> 'x \<Rightarrow> bool" and enq :: "'c \<Rightarrow> 'x \<Rightarrow> 'c option"
    and deq :: "'c \<Rightarrow> ('c \<times> 'x) option" and ack :: "'c \<Rightarrow> 'c option" and rewind :: "'c \<Rightarrow> 'c"
  assumes enq_room: "inv c \<Longrightarrow> item_ok c x \<Longrightarrow> length (sentq c) + length (pend c) < cap c \<Longrightarrow>
      \<exists>c'. enq c x = Some c' \<and> inv c' \<and> sentq c' = sentq c \<and> pend c' = pend c @ [x]"
    and enq_full: "inv c \<Longrightarrow> item_ok c x \<Longrightarrow> \<not> length (sentq c) + length (pend c) < cap c \<Longrightarrow>
      \<exists>c'. enq c x = Some c' \<and> inv c' \<and> sentq c' = tl (sentq c) \<and>
        pend c' = (if sentq c = [] then tl (pend c) else pend c) @ [x]"
    and deq_next: "inv c \<Longrightarrow> pend c \<noteq> [] \<Longrightarrow>
      \<exists>c'. deq c = Some (c', hd (pend c)) \<and> inv c' \<and> sentq c' = sentq c @ [hd (pend c)] \<and> pend c' = tl (pend c)"
    and ack_oldest: "inv c \<Longrightarrow> \<exists>c'. ack c = Some c' \<and> inv c' \<and> sentq c' = tl (sentq c) \<and> pend c' = pend c"
    and rewind_all: "inv c \<Longrightarrow> inv (rewind c) \<and> sentq (rewind c) = [] \<and> pend (rewind c) = sentq c @ pend c"
begin

lemma enq_total: "inv c \<Longrightarrow> item_ok c x \<Longrightarrow> \<exists>c'. enq c x = Some c' \<and> inv c'"
  using enq_room [of c x] enq_full [of c x] by blast

lemma enq_suffix:
  assumes "inv c" "item_ok c x" "enq c x = Some c'" "suffix (sentq c @ pend c) h"
  shows "suffix (sentq c' @ pend c') (h @ [x])"
proof (cases "length (sentq c) + length (pend c) < cap c")
  case True
  with assms enq_room [of c x] show ?thesis by (auto simp: suffix_def)
next
  case False
  then have "sentq c' @ pend c' = tl (sentq c @ pend c) @ [x]"
    using assms enq_full [of c x] by (cases "sentq c") auto
  moreover have "suffix (tl (sentq c @ pend c)) h" using assms(4) suffix_order.trans suffix_tl by blast
  ultimately show ?thesis by (auto simp: suffix_def)
qed

lemma deq_holds: "inv c \<Longrightarrow> deq c = Some (c', x) \<Longrightarrow> pend c \<noteq> [] \<Longrightarrow> sentq c' @ pend c' = sentq c @ pend c"
  using deq_next [of c] by auto

lemma ack_suffix:
  assumes "inv c" "ack c = Some c'" "suffix (sentq c @ pend c) h"
  shows "suffix (sentq c' @ pend c') h"
proof -
  have "suffix (tl (sentq c) @ pend c) (sentq c @ pend c)"
    by (cases "sentq c") (auto simp: suffix_def)
  then have "suffix (tl (sentq c) @ pend c) h" using assms(3) suffix_order.trans by blast
  then show ?thesis using assms(1,2) ack_oldest [of c] by auto
qed

lemma redeliver:
  assumes "inv c" "sentq c = x # xs"
  shows "\<exists>c'. deq (rewind c) = Some (c', x) \<and> inv c' \<and> sentq c' = [x] \<and> pend c' = xs @ pend c"
  using rewind_all [OF assms(1)] deq_next [of "rewind c"] assms(2) by auto

end

definition item_fits :: "ByteChannel \<Rightarrow> byte list \<Rightarrow> bool" where
  "item_fits ch x \<longleftrightarrow> length x = nat (itemSize ch)"

lemma room_iff: "channel_ok ch \<Longrightarrow> spaceLeft ch \<longleftrightarrow> length (sent ch) + length (pending ch) < nat (capacity ch)"
  by (auto simp: length_sent length_pending spaceLeft_def unread_def channel_ok_def)

interpretation ring: ack_queue channel_ok sent pending "\<lambda>ch. nat (capacity ch)" item_fits
  "\<lambda>ch x. ch_write ch (\<lambda>_. Some x)" ch_read ch_Ack "\<lambda>ch. fst (ch_Rewind ch)"
proof
  fix ch x assume ok: "channel_ok ch" "item_fits ch x"
  { assume "length (sent ch) + length (pending ch) < nat (capacity ch)"
    then have sp: "spaceLeft ch" using ok by (simp add: room_iff)
    obtain ch' where ch': "ch_write ch (\<lambda>_. Some x) = Some ch'" "channel_ok ch'" "items ch' = items ch @ [x]"
        "awaitingAck ch' = awaitingAck ch"
      using ch_write_room [OF ok(1) _ _ sp, of "\<lambda>_. Some x" x] ok(2) by (auto simp: item_fits_def)
    moreover have "nat (awaitingAck ch) \<le> length (items ch)" using ok(1) by (simp add: length_items channel_ok_def nat_mono)
    ultimately show "\<exists>c'. ch_write ch (\<lambda>_. Some x) = Some c' \<and> channel_ok c' \<and> sent c' = sent ch \<and> pending c' = pending ch @ [x]"
      by (simp add: sent_def pending_def) }
  { assume "\<not> length (sent ch) + length (pending ch) < nat (capacity ch)"
    then have sp: "\<not> spaceLeft ch" using ok by (simp add: room_iff)
    obtain ch' where ch': "ch_write ch (\<lambda>_. Some x) = Some ch'" "channel_ok ch'" "items ch' = tl (items ch) @ [x]"
        "awaitingAck ch' = max 0 (awaitingAck ch - 1)"
      using ch_write_full [OF ok(1) _ _ sp, of "\<lambda>_. Some x" x] ok(2) by (auto simp: item_fits_def)
    have "chLength ch = capacity ch" "0 < capacity ch" using ok(1) sp by (auto simp: channel_ok_def spaceLeft_def)
    then have ne: "items ch \<noteq> []" "nat (awaitingAck ch) \<le> length (items ch)" "0 \<le> awaitingAck ch"
      using length_items [OF ok(1)] ok(1) by (auto simp: channel_ok_def)
    then show "\<exists>c'. ch_write ch (\<lambda>_. Some x) = Some c' \<and> channel_ok c' \<and> sent c' = tl (sent ch) \<and>
        pending c' = (if sent ch = [] then tl (pending ch) else pending ch) @ [x]"
      using ch' by (cases "awaitingAck ch = 0"; cases "items ch")
        (auto simp: sent_def pending_def nat_diff_distrib tl_take drop_Cons') }
next
  fix ch assume ok: "channel_ok ch" and "pending ch \<noteq> []"
  then have "0 < length (pending ch)" by simp
  then have "toRead ch" by (simp only: length_pending [OF ok] toRead_def zero_less_nat_eq)
  then show "\<exists>c'. ch_read ch = Some (c', hd (pending ch)) \<and> channel_ok c' \<and>
      sent c' = sent ch @ [hd (pending ch)] \<and> pending c' = tl (pending ch)"
    using ch_read_ok [OF ok] read_state [OF ok _ refl] by simp
next
  fix ch assume "channel_ok ch"
  then show "\<exists>c'. ch_Ack ch = Some c' \<and> channel_ok c' \<and> sent c' = tl (sent ch) \<and> pending c' = pending ch"
    using ch_Ack_ok by blast
next
  fix ch assume "channel_ok ch"
  then show "channel_ok (fst (ch_Rewind ch)) \<and> sent (fst (ch_Rewind ch)) = [] \<and>
      pending (fst (ch_Rewind ch)) = sent ch @ pending ch"
    using ch_Rewind_ok by blast
qed

end
