(* ===== verification/Channel_Spec.thy ===== *)
theory Channel_Spec
  imports Byte_Channel
begin

text \<open>
  What the byte channel promises. \<open>ackq\<close> is the abstract queue with acknowledgements,
  \<open>channel_refines\<close> the refinement of it by the ring buffer for every exported operation, and
  \<open>ch_run\<close> an interleaving of the calls of all goroutines, in the order in which they get the
  mutex. The theory also has what the condition variables guarantee, and \<open>CopyTo\<close>.
\<close>

declare sent_pending [simp del]

subsection \<open>The operations as steps\<close>

datatype ch_op =
    OpWriteOrBlock fill
  | OpWriteOrFail fill
  | OpWriteOrReplace fill
  | OpRead "byte list \<Rightarrow> io_error option" bool
  | OpAck
  | OpRewind
  | OpCloseWriting
  | OpClose
  | OpReset

definition settle :: "ByteChannel \<Rightarrow> (ByteChannel \<times> bool) waiting \<Rightarrow> ByteChannel" where
  "settle ch r = (case r of Blocked \<Rightarrow> ch | Done (ch', _) \<Rightarrow> ch')"

fun ch_exec :: "ch_op \<Rightarrow> ByteChannel \<Rightarrow> ByteChannel option" where
  "ch_exec (OpWriteOrBlock cb) ch = map_option (settle ch) (WriteOrBlock ch cb)"
| "ch_exec (OpWriteOrFail cb) ch = map_option fst (WriteOrFail ch cb)"
| "ch_exec (OpWriteOrReplace cb) ch = map_option fst (WriteOrReplace ch cb)"
| "ch_exec (OpRead r undo) ch = map_option fst (ReadToCallback (\<lambda>b s. Some (s, r b)) undo ch ())"
| "ch_exec OpAck ch = ch_Ack ch"
| "ch_exec OpRewind ch = Some (fst (ch_Rewind ch))"
| "ch_exec OpCloseWriting ch = Some (CloseWriting ch)"
| "ch_exec OpClose ch = Some (ch_Close ch)"
| "ch_exec OpReset ch = Some (ch_Reset ch)"

text \<open>
  A callback returns and leaves the slice it was given as long as it was; a read is only made
  with an unread item, as the sending goroutine does after \<^verbatim>\<open>Wait\<close>, or on an empty channel.
\<close>

definition fill_ok :: "ByteChannel \<Rightarrow> fill \<Rightarrow> bool" where
  "fill_ok ch cb \<longleftrightarrow> (case cb (next_slot ch) of None \<Rightarrow> False | Some x \<Rightarrow> item_fits ch x)"

fun op_ok :: "ByteChannel \<Rightarrow> ch_op \<Rightarrow> bool" where
  "op_ok ch (OpWriteOrBlock cb) = fill_ok ch cb"
| "op_ok ch (OpWriteOrFail cb) = fill_ok ch cb"
| "op_ok ch (OpWriteOrReplace cb) = fill_ok ch cb"
| "op_ok ch (OpRead r undo) = (toRead ch \<or> ch_empty ch)"
| "op_ok ch _ = True"

subsection \<open>The abstract queue\<close>

record ackq =
  q_sent :: "byte list list"
  q_pend :: "byte list list"
  q_cap :: nat
  q_wclosed :: bool
  q_closed :: bool

definition absq :: "ByteChannel \<Rightarrow> ackq" where
  "absq ch = \<lparr>q_sent = sent ch, q_pend = pending ch, q_cap = nat (capacity ch),
     q_wclosed = closedWriting ch, q_closed = closed ch\<rparr>"

lemma absq_sel [simp]:
  "q_sent (absq ch) = sent ch" "q_pend (absq ch) = pending ch" "q_cap (absq ch) = nat (capacity ch)"
  "q_wclosed (absq ch) = closedWriting ch" "q_closed (absq ch) = closed ch"
  by (simp_all add: absq_def)

definition q_full :: "ackq \<Rightarrow> bool" where
  "q_full q \<longleftrightarrow> \<not> length (q_sent q) + length (q_pend q) < q_cap q"

definition q_put :: "byte list \<Rightarrow> ackq \<Rightarrow> ackq" where
  "q_put x q = (if \<not> q_full q then q\<lparr>q_pend := q_pend q @ [x]\<rparr>
     else q\<lparr>q_sent := tl (q_sent q), q_pend := (if q_sent q = [] then tl (q_pend q) else q_pend q) @ [x]\<rparr>)"

fun q_exec :: "byte list \<Rightarrow> ch_op \<Rightarrow> ackq \<Rightarrow> ackq" where
  \<comment> \<open>the first argument: the bytes the callback of a write finds in its slot\<close>
  "q_exec old (OpWriteOrBlock cb) q = (if q_wclosed q \<or> q_full q then q else q_put (the (cb old)) q)"
| "q_exec old (OpWriteOrFail cb) q = (if q_wclosed q \<or> q_full q then q else q_put (the (cb old)) q)"
| "q_exec old (OpWriteOrReplace cb) q = (if q_wclosed q then q else q_put (the (cb old)) q)"
| "q_exec old (OpRead r undo) q =
    (if q_pend q = [] \<or> (undo \<and> r (hd (q_pend q)) \<noteq> None) then q
     else q\<lparr>q_sent := q_sent q @ [hd (q_pend q)], q_pend := tl (q_pend q)\<rparr>)"
| "q_exec old OpAck q = q\<lparr>q_sent := tl (q_sent q)\<rparr>"
| "q_exec old OpRewind q = q\<lparr>q_sent := [], q_pend := q_sent q @ q_pend q\<rparr>"
| "q_exec old OpCloseWriting q = q\<lparr>q_wclosed := True\<rparr>"
| "q_exec old OpClose q = (if q_closed q then q else q\<lparr>q_wclosed := True, q_closed := True\<rparr>)"
| "q_exec old OpReset q = q\<lparr>q_sent := [], q_pend := []\<rparr>"

subsection \<open>Refinement\<close>

lemma ch_write_frame:
  assumes "channel_ok ch" "cb (next_slot ch) = Some x" "ch_write ch cb = Some ch'"
  shows "capacity ch' = capacity ch" "itemSize ch' = itemSize ch" "closed ch' = closed ch"
    "closedWriting ch' = closedWriting ch" "writeCond ch' = writeCond ch" "readCond ch' = Suc (readCond ch)"
    "chLength ch \<le> chLength ch'" "awaitingAck ch' \<le> awaitingAck ch"
  using assms(3) ch_write_eq [of ch cb x, OF assms(1,2)] by (auto simp: written_def split: if_splits)

lemma ch_write_fill:
  assumes "channel_ok ch" "cb (next_slot ch) = Some x"
  shows "ch_write ch cb = ch_write ch (\<lambda>_. Some x)"
  using ch_write_eq [of ch cb x] ch_write_eq [of ch "\<lambda>_. Some x" x] assms by simp

lemma q_full_absq: "channel_ok ch \<Longrightarrow> q_full (absq ch) \<longleftrightarrow> \<not> spaceLeft ch"
  by (simp add: q_full_def absq_def room_iff)

lemma ch_write_refines:
  assumes "channel_ok ch" "fill_ok ch cb"
  shows "\<exists>ch'. ch_write ch cb = Some ch' \<and> channel_ok ch' \<and> absq ch' = q_put (the (cb (next_slot ch))) (absq ch)"
proof -
  obtain x where x: "cb (next_slot ch) = Some x" "item_fits ch x"
    using assms(2) by (auto simp: fill_ok_def split: option.splits)
  obtain ch' where ch': "ch_write ch (\<lambda>_. Some x) = Some ch'"
    using ring.enq_total [OF assms(1) x(2)] by blast
  have "channel_ok ch' \<and> absq ch' = q_put x (absq ch)"
    using ring.enq_room [OF assms(1) x(2)] ring.enq_full [OF assms(1) x(2)] ch' ch_write_frame [OF assms(1) refl ch']
    by (auto simp: absq_def q_put_def q_full_def)
  with ch' x(1) show ?thesis using ch_write_fill [of ch cb x, OF assms(1) x(1)] by simp
qed

lemma toRead_pending: "channel_ok ch \<Longrightarrow> toRead ch \<longleftrightarrow> pending ch \<noteq> []"
  by (simp add: toRead_def flip: length_greater_0_conv add: length_pending)

lemma empty_pending: "channel_ok ch \<Longrightarrow> ch_empty ch \<Longrightarrow> pending ch = []"
  using length_pending [of ch] by (simp add: ch_tests channel_ok_def)

text \<open>A read with an unread item, with the state of its callback.\<close>

lemma ReadToCallback_unread:
  assumes "channel_ok ch" "toRead ch" "cb (hd (pending ch)) s = Some (s', err)"
  shows "\<exists>ch'. ReadToCallback cb undo ch s = Some (ch', s', err) \<and> channel_ok ch' \<and>
    (if undo \<and> err \<noteq> None then sent ch' = sent ch \<and> pending ch' = pending ch
     else sent ch' = sent ch @ [hd (pending ch)] \<and> pending ch' = tl (pending ch)) \<and>
    capacity ch' = capacity ch \<and> itemSize ch' = itemSize ch \<and> closedWriting ch' = closedWriting ch \<and> closed ch' = closed ch"
proof -
  have ne: "\<not> ch_empty ch" using assms(1,2) by (simp add: ch_tests channel_ok_def)
  let ?ch1 = "ch\<lparr>awaitingAck := awaitingAck ch + 1, itemsRead := itemsRead ch + 1\<rparr>"
  have undone: "channel_ok (undoRead ?ch1\<lparr>readCond := n\<rparr>)" "sent (undoRead ?ch1\<lparr>readCond := n\<rparr>) = sent ch"
      "pending (undoRead ?ch1\<lparr>readCond := n\<rparr>) = pending ch" for n
    using assms(1) items_frame [of "undoRead ?ch1\<lparr>readCond := n\<rparr>" ch]
    by (simp_all add: undoRead_def channel_ok_def sent_def pending_def)
  have kept: "channel_ok (?ch1\<lparr>writeCond := n\<rparr>)" "sent (?ch1\<lparr>writeCond := n\<rparr>) = sent ?ch1"
      "pending (?ch1\<lparr>writeCond := n\<rparr>) = pending ?ch1" for n
    using read_state(1) [OF assms(1,2) refl] items_frame [of "?ch1\<lparr>writeCond := n\<rparr>" ?ch1]
    by (simp_all add: channel_ok_def sent_def pending_def)
  show ?thesis
    using ne ch_read_ok [OF assms(1,2)] assms(3) undone kept read_state(2,3) [OF assms(1,2) refl]
    by (simp add: ReadToCallback_def Let_def undoRead_def)
qed

lemma exec_refines:
  assumes "channel_ok ch" and "op_ok ch op"
  shows "\<exists>ch'. ch_exec op ch = Some ch' \<and> channel_ok ch' \<and> absq ch' = q_exec (next_slot ch) op (absq ch)"
proof (cases op)
  case (OpWriteOrBlock cb)
  with assms ch_write_refines [OF assms(1), of cb] q_full_absq [OF assms(1)] show ?thesis
    by (auto simp: WriteOrBlock_def settle_def absq_def)
next
  case (OpWriteOrFail cb)
  with assms ch_write_refines [OF assms(1), of cb] q_full_absq [OF assms(1)] show ?thesis
    by (auto simp: WriteOrFail_def absq_def)
next
  case (OpWriteOrReplace cb)
  with assms ch_write_refines [OF assms(1), of cb] show ?thesis
    by (auto simp: WriteOrReplace_def absq_def)
next
  case (OpRead r undo)
  show ?thesis
  proof (cases "toRead ch")
    case True
    have "pending ch \<noteq> []" using True assms(1) by (simp add: toRead_pending)
    with OpRead ReadToCallback_unread [OF assms(1) True, of "\<lambda>b s. Some (s, r b)" "()" "()" "r (hd (pending ch))" undo]
    show ?thesis by (auto simp: absq_def split: if_splits)
  next
    case False
    then have "ch_empty ch" using assms(2) OpRead by simp
    with OpRead assms(1) show ?thesis by (simp add: ReadToCallback_def absq_def empty_pending)
  qed
next
  case OpAck
  with ch_Ack_ok [OF assms(1)] show ?thesis by (auto simp: absq_def)
next
  case OpRewind
  with ch_Rewind_ok [OF assms(1)] show ?thesis by (simp add: absq_def) (simp add: ch_Rewind_def Let_def)
next
  case OpCloseWriting
  have "items (CloseWriting ch) = items ch" by (intro items_frame) (simp_all add: CloseWriting_def)
  with OpCloseWriting assms(1) show ?thesis
    by (simp add: absq_def sent_def pending_def) (simp add: CloseWriting_def channel_ok_def)
next
  case OpClose
  have "items (ch_Close ch) = items ch" by (intro items_frame) (simp_all add: ch_Close_def)
  with OpClose assms(1) show ?thesis
    by (simp add: absq_def sent_def pending_def) (simp add: ch_Close_def channel_ok_def)
next
  case OpReset
  with assms(1) show ?thesis
    by (simp add: absq_def sent_def pending_def items_def ch_Reset_def channel_ok_def)
qed


subsection \<open>Interleavings\<close>

text \<open>
  A run is the sequence of the calls of all goroutines. With the channel it carries the items
  accepted so far and the items an acknowledgement removed.
\<close>

record ledger =
  l_ch :: ByteChannel
  l_accepted :: "byte list list"
  l_acked :: "byte list list"

definition accepts :: "ByteChannel \<Rightarrow> ch_op \<Rightarrow> byte list list" where
  "accepts ch op = (case op of
     OpWriteOrBlock cb \<Rightarrow> if closedWriting ch \<or> \<not> spaceLeft ch then [] else [the (cb (next_slot ch))]
   | OpWriteOrFail cb \<Rightarrow> if closedWriting ch \<or> \<not> spaceLeft ch then [] else [the (cb (next_slot ch))]
   | OpWriteOrReplace cb \<Rightarrow> if closedWriting ch then [] else [the (cb (next_slot ch))]
   | _ \<Rightarrow> [])"

definition acks :: "ByteChannel \<Rightarrow> ch_op \<Rightarrow> byte list list" where
  "acks ch op = (if op = OpAck then take 1 (sent ch) else [])"

fun ch_run :: "ch_op list \<Rightarrow> ledger \<Rightarrow> ledger option" where
  "ch_run [] s = Some s"
| "ch_run (op # ops) s = do {
     ch \<leftarrow> ch_exec op (l_ch s);
     ch_run ops \<lparr>l_ch = ch, l_accepted = l_accepted s @ accepts (l_ch s) op, l_acked = l_acked s @ acks (l_ch s) op\<rparr> }"

fun run_ok :: "ch_op list \<Rightarrow> ByteChannel \<Rightarrow> bool" where
  "run_ok [] ch = True"
| "run_ok (op # ops) ch = (op_ok ch op \<and> (case ch_exec op ch of None \<Rightarrow> False | Some ch' \<Rightarrow> run_ok ops ch'))"

lemma exec_views:
  assumes "channel_ok ch" "op_ok ch op" "ch_exec op ch = Some ch'"
  shows "sent ch' = q_sent (q_exec (next_slot ch) op (absq ch))" "pending ch' = q_pend (q_exec (next_slot ch) op (absq ch))"
  using exec_refines [OF assms(1,2)] assms(3) by (metis absq_sel(1,2) option.inject)+

lemma exec_suffix:
  assumes "channel_ok ch" "op_ok ch op" "ch_exec op ch = Some ch'" "suffix (sent ch @ pending ch) h"
  shows "suffix (sent ch' @ pending ch') (h @ accepts ch op)"
proof -
  have put: "suffix (q_sent (q_put x (absq ch)) @ q_pend (q_put x (absq ch))) (h @ [x])" for x
    using assms(4) by (cases "sent ch"; cases "pending ch") (auto simp: q_put_def dest: suffix_ConsD)
  have tail: "suffix (tl (sent ch) @ pending ch) h"
    using assms(4) by (cases "sent ch") (auto dest: suffix_ConsD)
  show ?thesis
    unfolding exec_views [OF assms(1-3)]
    using put assms(4) tail q_full_absq [OF assms(1)] by (cases op) (auto simp: accepts_def)
qed

lemma exec_exact:
  assumes "channel_ok ch" "op_ok ch op" "ch_exec op ch = Some ch'"
    "op \<noteq> OpReset" "\<forall>cb. op \<noteq> OpWriteOrReplace cb"
  shows "(sent ch @ pending ch) @ accepts ch op = acks ch op @ sent ch' @ pending ch'"
  unfolding exec_views [OF assms(1-3)]
  using assms(4,5) q_full_absq [OF assms(1)]
  by (cases op; cases "sent ch") (auto simp: accepts_def acks_def q_put_def)

text \<open>One step of a run, with the rest of it run from the state after the step.\<close>

lemma run_step:
  assumes "channel_ok (l_ch s)" "run_ok (op # ops) (l_ch s)"
  obtains ch' s1 where "ch_exec op (l_ch s) = Some ch'" "op_ok (l_ch s) op" "channel_ok ch'" "run_ok ops ch'"
    "s1 = \<lparr>l_ch = ch', l_accepted = l_accepted s @ accepts (l_ch s) op, l_acked = l_acked s @ acks (l_ch s) op\<rparr>"
    "ch_run (op # ops) s = ch_run ops s1"
  using assms exec_refines [of "l_ch s" op] by (auto split: option.splits)

lemma run_exact:
  assumes "channel_ok (l_ch s)" "run_ok ops (l_ch s)"
    "l_accepted s = l_acked s @ sent (l_ch s) @ pending (l_ch s)"
    "OpReset \<notin> set ops" "\<forall>cb. OpWriteOrReplace cb \<notin> set ops"
  shows "\<exists>s'. ch_run ops s = Some s' \<and> channel_ok (l_ch s') \<and>
    l_accepted s' = l_acked s' @ sent (l_ch s') @ pending (l_ch s')"
  using assms
proof (induction ops arbitrary: s)
  case (Cons op ops)
  from Cons.prems(1,2) show ?case
  proof (rule run_step)
    fix ch' s1
    assume st: "ch_exec op (l_ch s) = Some ch'" "op_ok (l_ch s) op" "channel_ok ch'" "run_ok ops ch'"
      and s1: "s1 = \<lparr>l_ch = ch', l_accepted = l_accepted s @ accepts (l_ch s) op, l_acked = l_acked s @ acks (l_ch s) op\<rparr>"
      and run: "ch_run (op # ops) s = ch_run ops s1"
    have "\<forall>cb. op \<noteq> OpWriteOrReplace cb" "op \<noteq> OpReset" using Cons.prems(4,5) by auto
    then have "l_accepted s1 = l_acked s1 @ sent ch' @ pending ch'"
      using exec_exact [OF Cons.prems(1) st(2,1)] Cons.prems(3) by (simp add: s1)
    with Cons.IH [of s1] st Cons.prems(4,5) show ?thesis unfolding run by (simp add: s1)
  qed
qed simp

lemma run_suffix:
  assumes "channel_ok (l_ch s)" "run_ok ops (l_ch s)" "suffix (sent (l_ch s) @ pending (l_ch s)) (l_accepted s)"
  shows "\<exists>s'. ch_run ops s = Some s' \<and> channel_ok (l_ch s') \<and>
    suffix (sent (l_ch s') @ pending (l_ch s')) (l_accepted s')"
  using assms
proof (induction ops arbitrary: s)
  case (Cons op ops)
  from Cons.prems(1,2) show ?case
  proof (rule run_step)
    fix ch' s1
    assume st: "ch_exec op (l_ch s) = Some ch'" "op_ok (l_ch s) op" "channel_ok ch'" "run_ok ops ch'"
      and s1: "s1 = \<lparr>l_ch = ch', l_accepted = l_accepted s @ accepts (l_ch s) op, l_acked = l_acked s @ acks (l_ch s) op\<rparr>"
      and run: "ch_run (op # ops) s = ch_run ops s1"
    have "suffix (sent ch' @ pending ch') (l_accepted s1)"
      using exec_suffix [OF Cons.prems(1) st(2,1) Cons.prems(3)] by (simp add: s1)
    with Cons.IH [of s1] st show ?thesis unfolding run by (simp add: s1)
  qed
qed simp

definition start_ledger :: "ByteChannel \<Rightarrow> ledger" where
  "start_ledger ch = \<lparr>l_ch = ch, l_accepted = [], l_acked = []\<rparr>"


text \<open>
  C26: with \<open>WriteOrReplace\<close> among the operations, what the channel holds is still the most
  recent part of what it accepted, in order.
\<close>

theorem channel_holds_latest:
  assumes "NewByteChannel c z = Some ch" and "0 < c" and "0 \<le> z" and "run_ok ops ch"
  shows "\<exists>s'. ch_run ops (start_ledger ch) = Some s' \<and> channel_ok (l_ch s') \<and>
    suffix (sent (l_ch s') @ pending (l_ch s')) (l_accepted s')"
proof (rule run_suffix)
  have "channel_ok ch \<and> sent ch = [] \<and> pending ch = []" using New_ok [OF assms(2,3)] assms(1) by auto
  then show "channel_ok (l_ch (start_ledger ch))"
    "suffix (sent (l_ch (start_ledger ch)) @ pending (l_ch (start_ledger ch))) (l_accepted (start_ledger ch))"
    by (simp_all add: start_ledger_def)
qed (use assms(4) in \<open>simp add: start_ledger_def\<close>)

definition demo_ops :: "ch_op list" where
  "demo_ops = [OpWriteOrFail (\<lambda>_. Some [1]), OpWriteOrFail (\<lambda>_. Some [2]), OpRead (\<lambda>_. None) True, OpAck,
     OpRead (\<lambda>_. Some NetTimeout) True, OpWriteOrBlock (\<lambda>_. Some [3])]"

definition demo_channel :: ByteChannel where
  "demo_channel = the (NewByteChannel 2 1)"

lemma demo_new: "NewByteChannel 2 1 = Some demo_channel"
  by (simp add: demo_channel_def NewByteChannel_def)

lemma demo_ok: "run_ok demo_ops demo_channel" "run_ok (OpWriteOrReplace (\<lambda>_. Some [9]) # demo_ops) demo_channel"
  by code_simp+


theorem channel_holds_latest_witness:
  "\<exists>s'. ch_run (OpWriteOrReplace (\<lambda>_. Some [9]) # demo_ops) (start_ledger demo_channel) = Some s' \<and>
    channel_ok (l_ch s') \<and> suffix (sent (l_ch s') @ pending (l_ch s')) (l_accepted s')"
  by (rule channel_holds_latest [OF demo_new]) (rule demo_ok(2) | simp)+


subsection \<open>Condition variables\<close>

text \<open>When a call that waits blocks.\<close>

lemma blocked_iff:
  "ch_Wait ch = Blocked \<longleftrightarrow> \<not> toRead ch \<and> \<not> closed ch \<and> \<not> closedWriting ch"
  "WaitUntilRead ch = Blocked \<longleftrightarrow> \<not> toAck ch \<and> \<not> closed ch"
  "WaitUntilEmpty ch = Blocked \<longleftrightarrow> \<not> ch_empty ch \<and> \<not> closed ch"
  "WriteOrBlock ch cb = Some Blocked \<longleftrightarrow> \<not> closedWriting ch \<and> \<not> spaceLeft ch"
  by (simp_all add: ch_Wait_def WaitUntilRead_def WaitUntilEmpty_def WriteOrBlock_def bind_eq_Some_conv)

lemma write_conds:
  assumes "channel_ok ch" "fill_ok ch cb" "ch_write ch cb = Some ch'"
  shows "readCond ch' = Suc (readCond ch)" "chLength ch \<le> chLength ch'" "awaitingAck ch' \<le> awaitingAck ch"
    "capacity ch' = capacity ch" "closed ch' = closed ch" "closedWriting ch' = closedWriting ch"
proof -
  obtain x where x: "cb (next_slot ch) = Some x" using assms(2) by (auto simp: fill_ok_def split: option.splits)
  show "readCond ch' = Suc (readCond ch)" "chLength ch \<le> chLength ch'" "awaitingAck ch' \<le> awaitingAck ch"
    "capacity ch' = capacity ch" "closed ch' = closed ch" "closedWriting ch' = closedWriting ch"
    using ch_write_frame [of ch cb x ch', OF assms(1) x assms(3)] by simp_all
qed

text \<open>What an operation does to the lengths, the flags and the condition variables.\<close>

lemma exec_write_cases:
  assumes "channel_ok ch" "op_ok ch op" "ch_exec op ch = Some ch'"
    "op = OpWriteOrBlock cb \<or> op = OpWriteOrFail cb \<or> op = OpWriteOrReplace cb"
  shows "ch' = ch \<or> (ch_write ch cb = Some ch' \<and> fill_ok ch cb)"
  using assms by (auto simp: WriteOrBlock_def WriteOrFail_def WriteOrReplace_def settle_def bind_eq_Some_conv
      split: if_splits)

lemma exec_read_cases:
  assumes "channel_ok ch" "op_ok ch (OpRead r undo)" "ch_exec (OpRead r undo) ch = Some ch'"
  shows "ch' = ch \<or> (toRead ch \<and> chLength ch' = chLength ch \<and> capacity ch' = capacity ch \<and> closed ch' = closed ch \<and>
    closedWriting ch' = closedWriting ch \<and>
    (awaitingAck ch' = awaitingAck ch \<or> awaitingAck ch' = awaitingAck ch + 1 \<and> writeCond ch < writeCond ch'))"
proof (cases "toRead ch")
  case True
  then have "\<not> ch_empty ch" using assms(1) by (simp add: ch_tests channel_ok_def)
  with True assms(3) show ?thesis
    by (auto simp: ReadToCallback_def ch_read_ok [OF assms(1) True] undoRead_def Let_def split: if_splits)
next
  case False
  with assms show ?thesis by (simp add: ReadToCallback_def)
qed


text \<open>
  C39: \<open>CloseWriting\<close> is the exception: it makes a waiting \<open>Wait\<close> return \<^verbatim>\<open>io.EOF\<close>, but
  broadcasts only \<^verbatim>\<open>writeCond\<close>, so the reader is not woken.
\<close>

theorem CloseWriting_leaves_reader_asleep:
  assumes "ch_Wait ch = Blocked"
  shows "ch_Wait (CloseWriting ch) = Done (0, Some EOF) \<and> readCond (CloseWriting ch) = readCond ch"
  using assms by (auto simp: ch_Wait_def CloseWriting_def ch_tests split: if_splits)

theorem CloseWriting_leaves_reader_asleep_witness:
  "ch_Wait demo_channel = Blocked \<and> ch_Wait (CloseWriting demo_channel) = Done (0, Some EOF) \<and>
    readCond (CloseWriting demo_channel) = readCond demo_channel"
  using CloseWriting_leaves_reader_asleep [of demo_channel] by (auto simp: demo_channel_def NewByteChannel_def ch_Wait_def ch_tests)


subsection \<open>Reading with nothing unread\<close>

text \<open>
  \<open>ReadToCallback\<close> tests whether the channel is empty, not whether an item is unread. When
  every item it holds has been read and awaits its acknowledgement, it hands out a slot again and
  counts one item more as read than it holds.
\<close>

lemma read_of_nothing_unread:
  assumes "channel_ok ch" and "0 < chLength ch" and "awaitingAck ch = chLength ch"
  shows "\<exists>ch'. ReadToCallback (\<lambda>b _. Some (b, None)) True ch [] = Some (ch', next_slot ch, None) \<and>
    unread ch' = -1 \<and> \<not> channel_ok ch'"
proof -
  let ?i = "(startIdx ch + chLength ch) mod capacity ch"
  note ok = channel_okD [OF assms(1)]
  have i: "0 \<le> ?i" "?i < capacity ch" using ok by simp_all
  have "ch_slice (ch\<lparr>awaitingAck := chLength ch + 1, itemsRead := itemsRead ch + 1\<rparr>) ?i = Some (next_slot ch)"
    using ch_slice_ok [OF assms(1) i] ch_slice_frame [of "ch\<lparr>awaitingAck := chLength ch + 1, itemsRead := itemsRead ch + 1\<rparr>" ch]
    by (simp add: next_slot_def)
  then have "ch_read ch = Some (ch\<lparr>awaitingAck := chLength ch + 1, itemsRead := itemsRead ch + 1\<rparr>, next_slot ch)"
    using ch_index_ok [OF assms(1) ok(8)] assms(3) by (simp add: ch_read_def)
  then show ?thesis using assms(2) by (simp add: ReadToCallback_def ch_tests channel_ok_def)
qed

definition all_sent :: ByteChannel where
  "all_sent = demo_channel\<lparr>data := [7, 0], chLength := 1, awaitingAck := 1\<rparr>"

lemma read_of_nothing_unread_witness:
  "channel_ok all_sent \<and>
    (\<exists>ch'. ReadToCallback (\<lambda>b _. Some (b, None)) True all_sent [] = Some (ch', next_slot all_sent, None) \<and>
      unread ch' = -1 \<and> \<not> channel_ok ch')"
proof -
  have ok: "channel_ok all_sent" "0 < chLength all_sent" "awaitingAck all_sent = chLength all_sent" by code_simp+
  then show ?thesis using read_of_nothing_unread [OF ok] by simp
qed

subsection \<open>CopyTo\<close>

lemma copy_block_eq [simp]: "length b = length x \<Longrightarrow> copy_block b x = x"
  by (simp add: copy_block_def)

lemma copy_slots_ok:
  assumes "channel_ok ch" "channel_ok dst" "itemSize dst = itemSize ch" "awaitingAck dst = 0"
    "nat (chLength dst) + n \<le> nat (capacity dst)" "i + n = nat (capacity ch)"
  shows "\<exists>dst'. copy_slots ch [i..<nat (capacity ch)] dst = Some dst' \<and> channel_ok dst' \<and> itemSize dst' = itemSize ch \<and>
    capacity dst' = capacity dst \<and> awaitingAck dst' = 0 \<and>
    items dst' = items dst @ drop i (rotate (nat (startIdx ch)) (slots ch))"
  using assms(2-)
proof (induction n arbitrary: i dst)
  case (Suc n)
  let ?k = "(startIdx ch + int i) mod capacity ch"
  let ?x = "slot ch (nat ?k)"
  note ok = channel_okD [OF assms(1)]
  have k: "0 \<le> ?k" "?k < capacity ch" using ok by simp_all
  let ?cb = "\<lambda>b. do { s \<leftarrow> ch_slice ch ?k; Some (copy_block b s) }"
  have len: "length (next_slot dst) = nat (itemSize ch)"
    using length_slot [OF Suc.prems(1)] channel_okD(1) [OF Suc.prems(1)] Suc.prems(2) by (simp add: next_slot_def nat_less_iff)
  have "length ?x = nat (itemSize ch)" using length_slot [OF assms(1)] k by simp
  then have cb: "?cb (next_slot dst) = Some ?x" "length ?x = nat (itemSize dst)"
    using ch_slice_ok [OF assms(1) k] len Suc.prems(2) by simp_all
  have "spaceLeft dst" using Suc.prems(4) by (simp add: spaceLeft_def)
  from ch_write_room [of dst ?cb ?x, OF Suc.prems(1) cb this] obtain d1 where
    d1: "ch_write dst ?cb = Some d1" "channel_ok d1" "items d1 = items dst @ [?x]" "awaitingAck d1 = 0"
      "capacity d1 = capacity dst" "itemSize d1 = itemSize ch"
    using Suc.prems(2,3) by auto
  have "length (items d1) = Suc (length (items dst))" using d1(3) by simp
  then have "nat (chLength d1) = Suc (nat (chLength dst))"
    by (simp only: length_items [OF d1(2)] length_items [OF Suc.prems(1)])
  with Suc.prems d1 obtain d' where d': "copy_slots ch [Suc i..<nat (capacity ch)] d1 = Some d'" "channel_ok d'"
      "itemSize d' = itemSize ch" "capacity d' = capacity dst" "awaitingAck d' = 0"
      "items d' = items d1 @ drop (Suc i) (rotate (nat (startIdx ch)) (slots ch))"
    using Suc.IH [of d1 "Suc i"] by auto
  have "i < length (rotate (nat (startIdx ch)) (slots ch))" using Suc.prems(5) by simp
  then have "drop i (rotate (nat (startIdx ch)) (slots ch)) = ?x # drop (Suc i) (rotate (nat (startIdx ch)) (slots ch))"
    using ok by (simp add: Cons_nth_drop_Suc [symmetric] nth_rotate slots_def nat_mod_distrib nat_add_distrib)
  moreover have "[i..<nat (capacity ch)] = i # [Suc i..<nat (capacity ch)]" using Suc.prems(5) by (simp add: upt_conv_Cons)
  ultimately show ?case
    using d' d1 ch_index_ok [OF assms(1), of "int i"] by simp
qed simp

text \<open>
  C29: \<open>CopyTo\<close> into an empty channel with at least the capacity and the same item size copies
  the items of the source in order, all of them unread.
\<close>

theorem CopyTo_copies:
  assumes "channel_ok ch" and "channel_ok dst" and "itemSize dst = itemSize ch" and "chLength dst = 0"
    and "capacity ch \<le> capacity dst"
  shows "\<exists>dst'. CopyTo ch dst = Some dst' \<and> channel_ok dst' \<and> sent dst' = [] \<and> pending dst' = sent ch @ pending ch"
proof -
  have "awaitingAck dst = 0" "items dst = []" using assms(2,4) by (auto simp: channel_ok_def items_def)
  with copy_slots_ok [OF assms(1-3), of "nat (capacity ch)" 0] assms(4,5) obtain d where
    d: "copy_slots ch [0..<nat (capacity ch)] dst = Some d" "channel_ok d" "capacity d = capacity dst"
      "items d = rotate (nat (startIdx ch)) (slots ch)"
    by (auto simp: nat_mono)
  note ok = channel_okD [OF assms(1)]
  let ?d = "d\<lparr>awaitingAck := 0, chLength := chLength ch\<rparr>"
  have "nat (chLength d) = nat (capacity ch)" using length_items [OF d(2)] d(4) by simp
  then have len: "chLength d = capacity ch" using channel_okD [OF d(2)] ok by simp
  have "slots ?d = slots d" by (intro slots_frame) simp_all
  then have "items ?d = take (nat (chLength ch)) (items d)"
    using ok by (simp add: items_def len min_absorb1 nat_mono)
  then have "items ?d = items ch" by (simp only: d(4) items_def [of ch])
  moreover have "channel_ok ?d" using d(2,3) assms(5) ok by (simp add: channel_ok_def)
  moreover have "CopyTo ch dst = Some ?d"
    using d(1,3) assms(5) ok by (auto simp: CopyTo_def Let_def)
  ultimately show ?thesis by (simp add: sent_pending sent_def [of ?d] pending_def [of ?d])
qed

theorem CopyTo_copies_witness:
  "\<exists>dst'. CopyTo all_sent demo_channel = Some dst' \<and> channel_ok dst' \<and> sent dst' = [] \<and>
    pending dst' = sent all_sent @ pending all_sent"
  by (rule CopyTo_copies) (code_simp+)

text \<open>
  Into a smaller channel \<open>CopyTo\<close> loses what it should copy: it copies every slot of the
  source, used or not, and the unused ones push the items out.
\<close>

lemma CopyTo_smaller_loses:
  "\<exists>dst dst'. NewByteChannel 1 1 = Some dst \<and> CopyTo all_sent dst = Some dst' \<and>
    items all_sent = [[7]] \<and> items dst' = [[0]]"
proof -
  have "case NewByteChannel 1 1 of None \<Rightarrow> False | Some dst \<Rightarrow>
      (case CopyTo all_sent dst of None \<Rightarrow> False | Some dst' \<Rightarrow> items all_sent = [[7]] \<and> items dst' = [[0]])"
    by code_simp
  then show ?thesis by (auto split: option.splits)
qed

end
