(* ===== verification/Tls_Client.thy ===== *)
theory Tls_Client
  imports Auth Channel_Spec
begin

text \<open>
  \<^verbatim>\<open>peer/tls_client.go\<close> and \<^verbatim>\<open>peer_write_method.go\<close>: the client that buffers encoded entries in a
  byte channel, the goroutine that connects and sends (\<^verbatim>\<open>processEntries\<close>) and the one that takes
  the server's responses (\<^verbatim>\<open>processResponses\<close>).

  The goroutines share the channel, whose operations are atomic, and the pointer \<^verbatim>\<open>conn\<close>, which
  each of them loads and swaps atomically. Every goroutine is a program counter, and a step runs it
  to its next access of shared state; \<open>client_exec\<close> is one step of one goroutine, and any order of
  steps is an interleaving. What the network does is part of the event: the result of each dial,
  write, read and close. \<^verbatim>\<open>processEntry\<close> runs inside a channel operation but loads \<^verbatim>\<open>conn\<close>
  before each write, so another goroutine can disconnect between two of its writes: \<open>Dropped\<close>.
  A connection is a number; \<open>wires\<close> holds the bytes written to each of them. \<open>None\<close> is a panic.
\<close>

subsection \<open>The connection\<close>

datatype WriteMethod = MWriteOrReplace | MWriteOrBlock | MWriteOrFail

record net =
  conn :: "nat option"        \<comment> \<open>the atomic pointer; \<open>None\<close> is nil\<close>
  wires :: "byte list list"
  reported :: "io_error list" \<comment> \<open>the calls of \<^verbatim>\<open>opt.ErrorHandler\<close>\<close>

datatype dial =
    DialErr io_error
  | DialNotTls
  | DialTls gostring \<comment> \<open>the negotiated protocol\<close>

datatype net_write =
    Dropped                   \<comment> \<open>another goroutine disconnects before the write\<close>
  | WriteErr nat io_error     \<comment> \<open>some bytes were written, and then an error\<close>

definition report :: "io_error \<Rightarrow> net \<Rightarrow> net" where
  "report err n = n\<lparr>reported := reported n @ [err]\<rparr>"

definition entrySize :: "byte list \<Rightarrow> nat option" where
  "entrySize b = do { h \<leftarrow> sub_slice (of_bytes b) 0 2; map_option unat (Uint16 h) }"

definition wire_append :: "nat \<Rightarrow> byte list \<Rightarrow> net \<Rightarrow> net" where
  "wire_append k bs n = n\<lparr>wires := (wires n)[k := wires n ! k @ bs]\<rparr>"

text \<open>
  The write loop of \<^verbatim>\<open>processEntry\<close> on the bytes not written yet. The list holds the outcomes of
  the writes that do not write all they are given; after them a write succeeds, since
  \<^verbatim>\<open>io.Writer\<close> reports an error whenever it writes less than it was given.
\<close>

fun write_loop :: "net_write list \<Rightarrow> byte list \<Rightarrow> net \<Rightarrow> (net \<times> io_error option) option" where
  "write_loop [] b n =
    (if b = [] then Some (n, None)
     else case conn n of None \<Rightarrow> None | Some k \<Rightarrow> Some (wire_append k b n, None))"
| "write_loop (Dropped # ws) b n =
    (if b = [] then Some (n, None) else write_loop ws b (n\<lparr>conn := None\<rparr>))"
| "write_loop (WriteErr s err # ws) b n =
    (if b = [] then Some (n, None)
     else case conn n of None \<Rightarrow> None
       | Some k \<Rightarrow>
         let n = wire_append k (take s b) n in
         if err \<noteq> ErrShortWrite then Some (n, Some err) else write_loop ws (drop s b) n)"

definition size_zero :: io_error where
  "size_zero = ErrOther (lit ''size zero - this should not happen'')"

definition processEntry :: "net_write list \<Rightarrow> byte list \<Rightarrow> net \<Rightarrow> (net \<times> io_error option) option" where
  "processEntry ws b n = do {
     size \<leftarrow> entrySize b;
     let n = (if size = 0 then report size_zero n else n);
     b \<leftarrow> sub_slice (of_bytes b) 0 size;
     write_loop ws b n }"

definition disconnect :: "io_error option \<Rightarrow> net \<Rightarrow> net \<times> io_error option" where
  \<comment> \<open>\<open>r\<close> is what closing a connection returns\<close>
  "disconnect r n = (n\<lparr>conn := None\<rparr>, if conn n \<noteq> None then r else None)"

definition connect :: "dial \<Rightarrow> net \<Rightarrow> net \<times> io_error option" where
  "connect d n = (case d of
     DialErr err \<Rightarrow> (n, Some err)
   | DialNotTls \<Rightarrow> (n, Some (ErrOther (lit ''expected TLS connection'')))
   | DialTls proto \<Rightarrow>
       if proto \<noteq> protoV11Ack then (n, Some (ErrOther (lit ''unsupported protocol'')))
       else (n\<lparr>conn := Some (length (wires n)), wires := wires n @ [[]]\<rparr>, None))"

text \<open>The dials of the loop are consumed one by one; \<open>None\<close> is a loop that has not ended yet.\<close>

fun retryConnect :: "dial list \<Rightarrow> net \<Rightarrow> net option" where
  "retryConnect [] n = None"
| "retryConnect (d # ds) n = (case connect d n of (n, Some _) \<Rightarrow> retryConnect ds n | (n, None) \<Rightarrow> Some n)"

definition reconnect :: "io_error option \<Rightarrow> dial \<Rightarrow> net \<Rightarrow> net \<times> io_error option" where
  "reconnect r d n = (case disconnect r n of (n, Some err) \<Rightarrow> (n, Some err) | (n, None) \<Rightarrow> connect d n)"

definition tryConnect :: "io_error option \<Rightarrow> dial \<Rightarrow> dial list \<Rightarrow> net \<Rightarrow> net option" where
  \<comment> \<open>\<open>d\<close> is the dial of \<open>reconnect\<close>, \<open>ds\<close> those of \<open>retryConnect\<close>\<close>
  "tryConnect r d ds n = (case reconnect r d n of (n, Some _) \<Rightarrow> retryConnect ds n | (n, None) \<Rightarrow> Some n)"

definition ensureConnection :: "io_error option \<Rightarrow> dial \<Rightarrow> dial list \<Rightarrow> net \<Rightarrow> net option" where
  "ensureConnection r d ds n = (if conn n = None then tryConnect r d ds n else Some n)"

subsection \<open>The client\<close>

datatype sender_pc = SWait | SConnect | SRead | SDisconnect | SStopped
datatype receiver_pc = RWait | RLoad | RRead nat | RDisconnect | RRewind | RStopped

record TlsClient =
  ch :: ByteChannel
  cwrite :: WriteMethod
  cnet :: net
  sender :: sender_pc
  receiver :: receiver_pc
  accepted :: "byte list list" \<comment> \<open>history: the slots written\<close>
  acked :: "byte list list"    \<comment> \<open>history: the slots given up after a response\<close>

record TlsClientOptions =
  BufferSize :: int
  opt_WriteMethod :: WriteMethod
  ServerAckTimeout :: int \<comment> \<open>nanoseconds\<close>

definition Client_setDefaults :: "TlsClientOptions \<Rightarrow> TlsClientOptions" where
  "Client_setDefaults op =
    (let op = (if BufferSize op \<le> 0 then op\<lparr>BufferSize := 128\<rparr> else op)
     in if ServerAckTimeout op \<le> 0 then op\<lparr>ServerAckTimeout := 3 * 10 ^ 9\<rparr> else op)"

definition NewTlsClient :: "crypto \<Rightarrow> Certificate \<Rightarrow> byte list \<Rightarrow> TlsClientOptions \<Rightarrow> (auth_error + TlsClient) option" where
  \<comment> \<open>the certificate and the private key are fields of the options\<close>
  "NewTlsClient cr cert key op = (let op = Client_setDefaults op in
     case Certificate_Validate cr cert key of
       Some err \<Rightarrow> Some (Inl err)
     | None \<Rightarrow>
       if Certificate_Type cr cert \<noteq> Client then Some (Inl (AuthErr (lit ''not a client certificate'')))
       else do {
         c \<leftarrow> NewByteChannel (BufferSize op) (int MaxEntrySize);
         Some (Inr \<lparr>ch = c, cwrite = opt_WriteMethod op, cnet = \<lparr>conn = None, wires = [], reported = []\<rparr>,
           sender = SWait, receiver = RWait, accepted = [], acked = []\<rparr>) })"

definition encode_fill :: "Entry \<Rightarrow> fill" where
  "encode_fill e b = map_option fst (Entry_Encode e b)"

definition client_write :: "WriteMethod \<Rightarrow> ByteChannel \<Rightarrow> fill \<Rightarrow> (ByteChannel \<times> bool) waiting option" where
  "client_write m c cb =
    (if m = MWriteOrBlock then WriteOrBlock c cb
     else if m = MWriteOrFail then map_option Done (WriteOrFail c cb)
     else map_option Done (WriteOrReplace c cb))"

definition Client_ProcessEntry :: "Entry \<Rightarrow> TlsClient \<Rightarrow> TlsClient option" where
  \<comment> \<open>a writer that blocks leaves the client as it is\<close>
  "Client_ProcessEntry e c = do {
     r \<leftarrow> client_write (cwrite c) (ch c) (encode_fill e);
     Some (case r of
       Blocked \<Rightarrow> c
     | Done (ch', ok) \<Rightarrow> c\<lparr>ch := ch', accepted := accepted c @ (if ok then [last (items ch')] else [])\<rparr>) }"

definition sender_step :: "io_error option \<Rightarrow> dial \<Rightarrow> dial list \<Rightarrow> net_write list \<Rightarrow> TlsClient \<Rightarrow> TlsClient option" where
  "sender_step r d ds ws c = (case sender c of
     SWait \<Rightarrow> Some (case ch_Wait (ch c) of
         Blocked \<Rightarrow> c
       | Done (_, Some err) \<Rightarrow> c\<lparr>sender := SStopped, cnet := (if err \<noteq> EOF then report err (cnet c) else cnet c)\<rparr>
       | Done (_, None) \<Rightarrow> c\<lparr>sender := SConnect\<rparr>)
   | SConnect \<Rightarrow> Some (case ensureConnection r d ds (cnet c) of
         None \<Rightarrow> c
       | Some n \<Rightarrow> c\<lparr>cnet := n, sender := SRead\<rparr>)
   | SRead \<Rightarrow> do {
       (ch', n, err) \<leftarrow> ReadToCallback (processEntry ws) True (ch c) (cnet c);
       Some (c\<lparr>ch := ch', cnet := n, sender := (if err \<noteq> None \<and> err \<noteq> Some EOF then SDisconnect else SWait)\<rparr>) }
   | SDisconnect \<Rightarrow> Some (c\<lparr>cnet := fst (disconnect r (cnet c)), sender := SWait\<rparr>)
   | SStopped \<Rightarrow> Some c)"

datatype net_read = ReadErr io_error | ReadNothing | ReadByte byte

definition receiver_step :: "io_error option \<Rightarrow> net_read \<Rightarrow> TlsClient \<Rightarrow> TlsClient option" where
  "receiver_step r rd c = (case receiver c of
     RWait \<Rightarrow> Some (case WaitUntilRead (ch c) of
         Blocked \<Rightarrow> c
       | Done (_, Some err) \<Rightarrow> c\<lparr>receiver := RStopped, cnet := report err (cnet c)\<rparr>
       | Done (_, None) \<Rightarrow> c\<lparr>receiver := RLoad\<rparr>)
   | RLoad \<Rightarrow> Some (case conn (cnet c) of None \<Rightarrow> c\<lparr>receiver := RWait\<rparr> | Some k \<Rightarrow> c\<lparr>receiver := RRead k\<rparr>)
   | RRead k \<Rightarrow> (case rd of
         ReadErr err \<Rightarrow> Some (c\<lparr>receiver := RDisconnect\<rparr>)
       | ReadNothing \<Rightarrow> Some (c\<lparr>receiver := RWait\<rparr>)
       | ReadByte b \<Rightarrow> do {
           ch' \<leftarrow> ch_Ack (ch c);
           Some (c\<lparr>ch := ch', receiver := RWait, acked := acked c @ take 1 (sent (ch c))\<rparr>) })
   | RDisconnect \<Rightarrow> Some (c\<lparr>cnet := fst (disconnect r (cnet c)), receiver := RRewind\<rparr>)
   | RRewind \<Rightarrow> Some (c\<lparr>ch := fst (ch_Rewind (ch c)), receiver := RWait\<rparr>)
   | RStopped \<Rightarrow> Some c)"

text \<open>\<^verbatim>\<open>Close\<close> in its two steps on shared state, and the first step of \<^verbatim>\<open>CloseWithContext\<close>.\<close>

definition Client_CloseWriting :: "TlsClient \<Rightarrow> TlsClient" where
  "Client_CloseWriting c = c\<lparr>ch := CloseWriting (ch c)\<rparr>"

definition Client_CloseChannel :: "TlsClient \<Rightarrow> TlsClient" where
  "Client_CloseChannel c = c\<lparr>ch := ch_Close (ch c)\<rparr>"

definition Client_Disconnect :: "io_error option \<Rightarrow> TlsClient \<Rightarrow> TlsClient \<times> io_error option" where
  "Client_Disconnect r c = (case disconnect r (cnet c) of (n, err) \<Rightarrow> (c\<lparr>cnet := n\<rparr>, err))"

definition Client_Close :: "io_error option \<Rightarrow> TlsClient \<Rightarrow> TlsClient \<times> io_error option" where
  "Client_Close r c = Client_Disconnect r (Client_CloseChannel c)"

definition WaitUntilSent :: "TlsClient \<Rightarrow> io_error option waiting" where
  "WaitUntilSent c = WaitUntilEmpty (ch c)"

definition CloseWithContext :: "TlsClient \<Rightarrow> TlsClient \<times> io_error option waiting" where
  "CloseWithContext c = (let c = Client_CloseWriting c in (c, WaitUntilSent c))"

datatype client_event =
    Produce Entry
  | Sender "io_error option" dial "dial list" "net_write list"
  | Receiver "io_error option" net_read
  | StopWriting
  | CloseChannel
  | Disconnect "io_error option"

fun client_exec :: "client_event \<Rightarrow> TlsClient \<Rightarrow> TlsClient option" where
  "client_exec (Produce e) c = Client_ProcessEntry e c"
| "client_exec (Sender r d ds ws) c = sender_step r d ds ws c"
| "client_exec (Receiver r rd) c = receiver_step r rd c"
| "client_exec StopWriting c = Some (Client_CloseWriting c)"
| "client_exec CloseChannel c = Some (Client_CloseChannel c)"
| "client_exec (Disconnect r) c = Some (fst (Client_Disconnect r c))"

fun client_run :: "client_event list \<Rightarrow> TlsClient \<Rightarrow> TlsClient option" where
  "client_run [] c = Some c"
| "client_run (ev # evs) c = do { c \<leftarrow> client_exec ev c; client_run evs c }"

end
