(* ===== verification/Client_Spec.thy ===== *)
theory Client_Spec
  imports Tls_Client
begin

text \<open>
  The invariant of the client: each slot of the buffer holds one frame, every connection carries
  whole frames, and what was accepted is still held or was given up after a response. Every step of
  every goroutine keeps it, whatever the network does.
\<close>

subsection \<open>A slot holds one frame\<close>

definition grows :: "writer \<Rightarrow> writer \<Rightarrow> bool" where
  "grows w w' \<longleftrightarrow> length (fst w') = length (fst w) \<and> snd w \<le> snd w' \<and>
     (snd w \<le> length (fst w) \<longrightarrow> snd w' \<le> length (fst w'))"

lemma grows_trans: "grows w w' \<Longrightarrow> grows w' w'' \<Longrightarrow> grows w w''"
  by (auto simp: grows_def)

lemma grows_refl [simp]: "grows w w"
  by (simp add: grows_def)

lemma wr_grows:
  "wr_byte v w = Some w' \<Longrightarrow> grows w w'" "wr_copy s w = Some w' \<Longrightarrow> grows w w'" "wr_fixed bs w = Some w' \<Longrightarrow> grows w w'"
  by (auto simp: grows_def wr_byte_def wr_copy_def wr_fixed_def put_def Let_def split: prod.splits if_splits)

lemma put_grows: "put (fst w) i v = Some b \<Longrightarrow> grows w (b, snd w)"
  by (auto simp: grows_def put_def split: if_splits)

lemma enc_loops_grow:
  "enc_tags e is w = Some w' \<Longrightarrow> grows w w'"
  "enc_metrics e pos is w = Some w' \<Longrightarrow> grows w w'"
  "enc_meta e pos is w = Some w' \<Longrightarrow> grows w w'"
  "enc_trace e pos is w = Some w' \<Longrightarrow> grows w w'"
  by (induction "is" arbitrary: w)
    (auto simp: bind_eq_Some_conv Let_def split: if_splits dest!: wr_grows dest: put_grows intro: grows_trans,
      (meson grows_trans)+)

lemma enc_level_grows: "enc_level e l w = Some w' \<Longrightarrow> grows w w'"
  by (auto simp: enc_level_def bind_eq_Some_conv Let_def split: if_splits dest!: wr_grows enc_loops_grow intro: grows_trans)

lemma enc_levels_grow: "enc_levels e ls w = Some w' \<Longrightarrow> grows w w'"
  by (induction ls arbitrary: w) (auto simp: bind_eq_Some_conv dest!: enc_level_grows intro: grows_trans)

definition frame :: "byte list \<Rightarrow> byte list" where
  \<comment> \<open>the part of a slot that goes on the wire\<close>
  "frame x = take (unat (the (Uint16 x))) x"

definition slot_ok :: "byte list \<Rightarrow> bool" where
  "slot_ok x \<longleftrightarrow> length x = MaxEntrySize \<and> frame x \<noteq> []"

lemma Uint16_take2: "2 \<le> length b \<Longrightarrow> Uint16 (take 2 b) = Uint16 b"
  by (cases b; cases "tl b") (auto simp: Uint16_def)

lemma encoded_slot:
  assumes "Entry_Encode e b = Some (x, n)" "length b = MaxEntrySize"
  shows "slot_ok x" "frame x = take n x" "2 \<le> n" "n \<le> MaxEntrySize"
proof -
  obtain b1 where b1: "enc_levels e [0..<Suc (level e)] (b, 2) = Some (b1, n)"
    and x: "wr_fixed (be16 (word_of_nat n)) (b1, 0) = Some (x, 2)"
    using assms(1) by (auto simp: Entry_Encode_def bind_eq_Some_conv wr_fixed_def split: if_splits)
  from enc_levels_grow [OF b1] assms(2) have n: "2 \<le> n" "n \<le> 65535" "length b1 = 65535" by (simp_all add: grows_def)
  then have x: "x = be16 (word_of_nat n) @ drop 2 b1" using x by (simp add: wr_fixed_def numeral_2_eq_2)
  then have "Uint16 x = Some (word_of_nat n)" by simp
  moreover have "unat (word_of_nat n :: u16) = n" using n by (simp add: unat_pos)
  ultimately show f: "frame x = take n x" by (simp add: frame_def)
  have "length x = 65535" using n x by simp
  then show "slot_ok x" using f n by (auto simp: slot_ok_def)
  show "2 \<le> n" "n \<le> MaxEntrySize" using n by simp_all
qed

subsection \<open>Writing a frame\<close>

definition outcomes_ok :: "net_write list \<Rightarrow> bool" where
  \<comment> \<open>a write to a connection does not fail with \<^verbatim>\<open>io.EOF\<close>\<close>
  "outcomes_ok ws \<longleftrightarrow> (\<forall>s. WriteErr s EOF \<notin> set ws)"

lemma wire_append_append:
  "k < length (wires n) \<Longrightarrow> wire_append k b (wire_append k a n) = wire_append k (a @ b) n"
  by (simp add: wire_append_def)

lemma write_loop_cases:
  assumes "write_loop ws b n = Some (n', err)" "b \<noteq> []" "pred_option (\<lambda>k. k < length (wires n)) (conn n)"
  obtains k p where "conn n = Some k" "n' = wire_append k p n" "prefix p b" "err = None \<longrightarrow> p = b"
    "err = Some EOF \<longrightarrow> \<not> outcomes_ok ws"
proof -
  have "\<exists>k p. conn n = Some k \<and> n' = wire_append k p n \<and> prefix p b \<and> (err = None \<longrightarrow> p = b) \<and>
    (err = Some EOF \<longrightarrow> \<not> outcomes_ok ws)"
    using assms
  proof (induction ws b n rule: write_loop.induct)
    case (1 b n)
    then show ?case by (auto split: option.splits)
  next
    case (2 ws b n)
    then show ?case by (auto simp: outcomes_ok_def)
  next
    case (3 s e ws b n)
    then obtain k where k: "conn n = Some k" "k < length (wires n)" by (auto split: option.splits)
    let ?n = "wire_append k (take s b) n"
    have frame: "conn ?n = Some k" "length (wires ?n) = length (wires n)" using k by (simp_all add: wire_append_def)
    show ?case
    proof (cases "e \<noteq> ErrShortWrite")
      case True
      with 3 k show ?thesis by (auto simp: take_is_prefix outcomes_ok_def)
    next
      case False
      then have r: "write_loop ws (drop s b) ?n = Some (n', err)" using 3(2,3) k by simp
      show ?thesis
      proof (cases "drop s b = []")
        case True
        then have "n' = ?n" "err = None" using r by (cases ws; cases "hd ws"; simp)+
        then show ?thesis using True k by auto
      next
        case ne: False
        obtain p where p: "n' = wire_append k p ?n" "prefix p (drop s b)" "err = None \<longrightarrow> p = drop s b"
          "err = Some EOF \<longrightarrow> \<not> outcomes_ok ws"
          using 3(1) [OF 3(3) k(1) refl] False r ne frame k by auto
        then have "n' = wire_append k (take s b @ p) n" "prefix (take s b @ p) b"
          using k(2) by (simp_all add: wire_append_append) (metis append_take_drop_id same_prefix_prefix)
        with p(3,4) k(1) show ?thesis by (auto simp: outcomes_ok_def)
      qed
    qed
  qed
  then show thesis using that by blast
qed

lemma processEntry_frame:
  assumes "slot_ok x"
  shows "processEntry ws x n = write_loop ws (frame x) n"
proof -
  obtain z where z: "Uint16 x = Some z" using assms by (cases "Uint16 x") (auto simp: Uint16_None_iff slot_ok_def)
  have "z \<noteq> 0" using assms z by (auto simp: slot_ok_def frame_def)
  then have "unat z \<noteq> 0" by (simp add: unat_eq_0)
  moreover have "unat z \<le> 65535" using unsigned_less [of z, where ?'a = nat] by simp
  ultimately show ?thesis using assms z
    by (simp add: processEntry_def entrySize_def sub_slice_def of_bytes_def slot_ok_def Uint16_take2 frame_def)
qed

subsection \<open>The invariant\<close>

definition carries :: "bool \<Rightarrow> byte list set \<Rightarrow> byte list list \<Rightarrow> byte list \<Rightarrow> bool" where
  \<comment> \<open>a connection carries the frames \<open>fs\<close> of slots in \<open>A\<close>, followed by at most a part of one unless
    it is \<open>whole\<close>\<close>
  "carries whole A fs w \<longleftrightarrow> set fs \<subseteq> frame ` A \<and>
     (\<exists>p. w = concat fs @ p \<and> (p = [] \<or> \<not> whole \<and> (\<exists>x\<in>A. prefix p (frame x))))"

lemma carries_Nil [simp]: "carries whole A [] []"
  by (simp add: carries_def)

lemma carries_mono: "carries whole A fs w \<Longrightarrow> (whole' \<Longrightarrow> whole) \<Longrightarrow> A \<subseteq> B \<Longrightarrow> carries whole' B fs w"
  unfolding carries_def by blast

lemma carries_frame: "carries True A fs w \<Longrightarrow> x \<in> A \<Longrightarrow> carries whole A (fs @ [frame x]) (w @ frame x)"
  by (auto simp: carries_def)

lemma carries_part: "carries True A fs w \<Longrightarrow> x \<in> A \<Longrightarrow> prefix p (frame x) \<Longrightarrow> carries False A fs (w @ p)"
  by (auto simp: carries_def)

definition wires_ok :: "bool \<Rightarrow> byte list set \<Rightarrow> net \<Rightarrow> byte list list list \<Rightarrow> bool" where
  \<comment> \<open>connection \<open>k\<close> carries the frames \<open>F ! k\<close>; a part of a frame is on the current connection only
    between a failed write and the disconnect that follows it\<close>
  "wires_ok failed A n F \<longleftrightarrow> length F = length (wires n) \<and> pred_option (\<lambda>k. k < length F) (conn n) \<and>
     (\<forall>k<length F. carries (conn n = Some k \<and> \<not> failed) A (F ! k) (wires n ! k))"

definition client_ok :: "TlsClient \<Rightarrow> bool" where
  "client_ok c \<longleftrightarrow> channel_ok (ch c) \<and> itemSize (ch c) = int MaxEntrySize \<and>
     (\<forall>x\<in>set (accepted c). slot_ok x) \<and>
     (sender c = SConnect \<or> sender c = SRead \<longrightarrow> pending (ch c) \<noteq> []) \<and>
     (\<exists>F. wires_ok (sender c = SDisconnect) (set (accepted c)) (cnet c) F \<and> frame ` set (acked c @ sent (ch c)) \<subseteq> set (concat F)) \<and>
     suffix (sent (ch c) @ pending (ch c)) (accepted c) \<and>
     (cwrite c \<noteq> MWriteOrReplace \<longrightarrow> accepted c = acked c @ sent (ch c) @ pending (ch c))"

lemma wires_ok_mono:
  assumes "wires_ok failed A n F" "A \<subseteq> B" "wires n' = wires n" "conn n' = None \<or> (conn n' = conn n \<and> (failed \<longrightarrow> failed'))"
  shows "wires_ok failed' B n' F"
proof -
  have "carries (conn n' = Some k \<and> \<not> failed') B (F ! k) (wires n ! k)" if "k < length F" for k
    by (rule carries_mono [of "conn n = Some k \<and> \<not> failed" A]) (use assms that in \<open>auto simp: wires_ok_def\<close>)
  with assms show ?thesis by (auto simp: wires_ok_def)
qed

lemma client_okD:
  assumes "client_ok c"
  shows "channel_ok (ch c)" "itemSize (ch c) = 65535" "set (sent (ch c)) \<subseteq> set (accepted c)" "set (pending (ch c)) \<subseteq> set (accepted c)"
    "x \<in> set (sent (ch c)) \<union> set (pending (ch c)) \<Longrightarrow> slot_ok x"
proof -
  have "set (sent (ch c) @ pending (ch c)) \<subseteq> set (accepted c)"
    using assms by (auto simp: client_ok_def dest!: set_mono_suffix)
  then show "set (sent (ch c)) \<subseteq> set (accepted c)" "set (pending (ch c)) \<subseteq> set (accepted c)"
    "x \<in> set (sent (ch c)) \<union> set (pending (ch c)) \<Longrightarrow> slot_ok x"
    using assms by (auto simp: client_ok_def)
qed (use assms in \<open>simp_all add: client_ok_def\<close>)

lemma set_concat_update: "k < length F \<Longrightarrow> set (concat (F[k := F ! k @ [f]])) = insert f (set (concat F))"
proof -
  assume "k < length F"
  then have "F = take k F @ F ! k # drop (Suc k) F" "F[k := F ! k @ [f]] = take k F @ (F ! k @ [f]) # drop (Suc k) F"
    by (simp_all add: upd_conv_take_nth_drop Cons_nth_drop_Suc)
  then have "set (concat F) = set (concat (take k F @ F ! k # drop (Suc k) F))"
    "set (concat (F[k := F ! k @ [f]])) = set (concat (take k F @ (F ! k @ [f]) # drop (Suc k) F))" by metis+
  then show ?thesis by auto
qed

lemma wires_ok_write:
  assumes "wires_ok False A n F" "conn n = Some k" "x \<in> A"
  shows "wires_ok failed A (wire_append k (frame x) n) (F[k := F ! k @ [frame x]])"
    "prefix p (frame x) \<Longrightarrow> wires_ok True A (wire_append k p n) F"
proof -
  have k: "k < length F" "length F = length (wires n)" using assms(1,2) by (simp_all add: wires_ok_def)
  have c: "carries (k = j) A (F ! j) (wires n ! j)" if "j < length F" for j
    using assms(1,2) that by (simp add: wires_ok_def)
  have ck: "carries True A (F ! k) (wires n ! k)" using c [OF k(1)] by simp
  show "wires_ok failed A (wire_append k (frame x) n) (F[k := F ! k @ [frame x]])"
    using assms(2) k carries_frame [OF ck assms(3)] carries_mono [OF c]
    by (auto simp: wires_ok_def wire_append_def nth_list_update)
  show "wires_ok True A (wire_append k p n) F" if "prefix p (frame x)"
    using assms(2) k carries_part [OF ck assms(3) that] carries_mono [OF c]
    by (auto simp: wires_ok_def wire_append_def nth_list_update)
qed

lemma wires_ok_connect:
  assumes "wires_ok failed A n F" "connect d n = (n', err)"
  shows "\<exists>F'. wires_ok failed A n' F' \<and> set (concat F) \<subseteq> set (concat F')"
proof (cases "n' = n")
  case True
  with assms(1) show ?thesis by blast
next
  case False
  then have n': "n' = n\<lparr>conn := Some (length (wires n)), wires := wires n @ [[]]\<rparr>"
    using assms(2) by (auto simp: connect_def split: dial.splits if_splits)
  have "wires_ok failed A n' (F @ [[]])"
    using assms(1) n' by (auto simp: wires_ok_def nth_append elim: carries_mono)
  then show ?thesis by (intro exI [of _ "F @ [[]]"]) simp
qed

lemma wires_ok_retry:
  assumes "wires_ok failed A n F" "retryConnect ds n = Some n'"
  shows "\<exists>F'. wires_ok failed A n' F' \<and> set (concat F) \<subseteq> set (concat F')"
  using assms
proof (induction ds arbitrary: n F)
  case (Cons d ds)
  obtain n1 err where c: "connect d n = (n1, err)" by force
  obtain F1 where F1: "wires_ok failed A n1 F1" "set (concat F) \<subseteq> set (concat F1)" using wires_ok_connect [OF Cons.prems(1) c] by blast
  show ?case
  proof (cases err)
    case None
    with Cons.prems(2) c F1 show ?thesis by auto
  next
    case (Some e)
    then have "retryConnect ds n1 = Some n'" using Cons.prems(2) c by simp
    from Cons.IH [OF F1(1) this] F1(2) show ?thesis by blast
  qed
qed simp

lemma wires_ok_ensure:
  assumes "wires_ok failed A n F" "ensureConnection r d ds n = Some n'"
  shows "\<exists>F'. wires_ok failed A n' F' \<and> set (concat F) \<subseteq> set (concat F')"
proof (cases "conn n")
  case (Some k)
  with assms show ?thesis by (auto simp: ensureConnection_def)
next
  case None
  then have n: "n\<lparr>conn := None\<rparr> = n" by simp
  obtain n1 err where c: "connect d n = (n1, err)" by force
  obtain F1 where F1: "wires_ok failed A n1 F1" "set (concat F) \<subseteq> set (concat F1)" using wires_ok_connect [OF assms(1) c] by blast
  have t: "(case (n1, err) of (n, Some _) \<Rightarrow> retryConnect ds n | (n, None) \<Rightarrow> Some n) = Some n'"
    using assms(2) None c n by (simp add: ensureConnection_def tryConnect_def reconnect_def disconnect_def)
  show ?thesis
  proof (cases err)
    case (Some e)
    then have "retryConnect ds n1 = Some n'" using t by simp
    from wires_ok_retry [OF F1(1) this] F1(2) show ?thesis by blast
  qed (use t F1 in auto)
qed

subsection \<open>Every step keeps the invariant\<close>

fun event_ok :: "client_event \<Rightarrow> bool" where
  "event_ok (Sender r d ds ws) = outcomes_ok ws"
| "event_ok ev = True"

lemma length_next_slot:
  assumes "channel_ok c"
  shows "length (next_slot c) = nat (itemSize c)"
proof -
  have "nat ((startIdx c + chLength c) mod capacity c) < nat (capacity c)" using channel_okD(1) [OF assms] by simp
  then show ?thesis by (simp add: next_slot_def length_slot [OF assms])
qed

lemma client_write_done:
  assumes "channel_ok c" "itemSize c = 65535" "client_write m c (encode_fill e) = Some (Done (c', did))"
  obtains "\<not> did" "c' = c"
  | x where "did" "slot_ok x" "channel_ok c'" "absq c' = q_put x (absq c)" "itemSize c' = 65535"
      "m \<noteq> MWriteOrReplace \<Longrightarrow> \<not> q_full (absq c)" "\<exists>b n. length b = MaxEntrySize \<and> Entry_Encode e b = Some (x, n)"
      "closed c' = closed c" "\<not> closedWriting c"
proof (cases did)
  case False
  with assms(3) that(1) show thesis
    by (auto simp: client_write_def WriteOrBlock_def WriteOrFail_def WriteOrReplace_def bind_eq_Some_conv split: if_splits)
next
  case True
  with assms(3) have w: "ch_write c (encode_fill e) = Some c'"
    by (auto simp: client_write_def WriteOrBlock_def WriteOrFail_def WriteOrReplace_def bind_eq_Some_conv split: if_splits)
  from True assms(3) have full: "m \<noteq> MWriteOrReplace \<Longrightarrow> spaceLeft c"
    by (cases m) (auto simp: client_write_def WriteOrBlock_def WriteOrFail_def bind_eq_Some_conv split: if_splits)
  from True assms(3) have writable: "\<not> closedWriting c"
    by (auto simp: client_write_def WriteOrBlock_def WriteOrFail_def WriteOrReplace_def bind_eq_Some_conv split: if_splits)
  have "encode_fill e (next_slot c) \<noteq> None"
  proof
    assume n: "encode_fill e (next_slot c) = None"
    have ok: "0 \<le> (startIdx c + chLength c) mod capacity c" "(startIdx c + chLength c) mod capacity c < capacity c"
      using channel_okD(1) [OF assms(1)] by simp_all
    from n w show False
      using ch_slice_ok [OF assms(1) ok] ch_index_ok [OF assms(1), of "chLength c"] channel_okD(8) [OF assms(1)]
      by (simp add: ch_write_def next_slot_def)
  qed
  then obtain x n where x: "Entry_Encode e (next_slot c) = Some (x, n)" by (auto simp: encode_fill_def)
  have len: "length (next_slot c) = 65535" using length_next_slot [OF assms(1)] assms(2) by simp
  note sl = encoded_slot [OF x len]
  have f: "encode_fill e (next_slot c) = Some x" using x by (simp add: encode_fill_def)
  then have "fill_ok c (encode_fill e)" using sl(1) assms(2) by (simp add: fill_ok_def item_fits_def slot_ok_def)
  from ch_write_refines [OF assms(1) this] w f have r: "channel_ok c'" "absq c' = q_put x (absq c)" by auto
  show thesis using that(2) [OF True sl(1) r] ch_write_frame(2,3) [OF assms(1) f w] assms(2) full q_full_absq [OF assms(1)] x len writable by auto
qed

lemma q_put_views:
  assumes "absq c' = q_put x (absq c)"
  shows "sent c' = (if q_full (absq c) then tl (sent c) else sent c)"
    "pending c' = (if q_full (absq c) \<and> sent c = [] then tl (pending c) else pending c) @ [x]"
  using arg_cong [OF assms, of q_sent] arg_cong [OF assms, of q_pend] by (auto simp: q_put_def)

lemma produce_ok:
  assumes "client_ok c" "Client_ProcessEntry e c = Some c'"
  shows "client_ok c'"
proof -
  obtain r where r: "client_write (cwrite c) (ch c) (encode_fill e) = Some r"
    using assms(2) by (auto simp: Client_ProcessEntry_def bind_eq_Some_conv)
  show ?thesis
  proof (cases r)
    case Blocked
    with r assms show ?thesis by (simp add: Client_ProcessEntry_def)
  next
    case (Done q)
    obtain h d where q: "q = (h, d)" by force
    have ok: "channel_ok (ch c)" "itemSize (ch c) = 65535" using assms(1) by (simp_all add: client_ok_def)
    have c': "c' = c\<lparr>ch := h, accepted := accepted c @ (if d then [last (items h)] else [])\<rparr>"
      using assms(2) r Done q by (simp add: Client_ProcessEntry_def)
    from ok r [unfolded Done q] show ?thesis
    proof (cases rule: client_write_done)
      case 1
      with c' assms(1) show ?thesis by simp
    next
      case (2 x)
      note v = q_put_views [OF 2(4)]
      have last: "last (items h) = x" using v(2) sent_pending [of h] by (metis append_is_Nil_conv last_appendR last_snoc list.distinct(1))
      have sub: "set (sent h) \<subseteq> set (sent (ch c))" by (cases "sent (ch c)") (auto simp: v)
      have "suffix (sent h @ pending h) (accepted c @ [x])"
        using assms(1) by (cases "sent (ch c)"; cases "pending (ch c)") (auto simp: v client_ok_def dest: suffix_ConsD)
      moreover have "accepted c @ [x] = acked c @ sent h @ pending h" if "cwrite c \<noteq> MWriteOrReplace"
        using that 2(6) assms(1) by (simp add: v client_ok_def)
      moreover have "\<exists>F. wires_ok (sender c = SDisconnect) (set (accepted c @ [x])) (cnet c) F \<and> frame ` set (acked c @ sent h) \<subseteq> set (concat F)"
      proof -
        obtain F where F: "wires_ok (sender c = SDisconnect) (set (accepted c)) (cnet c) F" "frame ` set (acked c @ sent (ch c)) \<subseteq> set (concat F)"
          using assms(1) by (auto simp: client_ok_def)
        have "frame ` set (acked c @ sent h) \<subseteq> frame ` set (acked c @ sent (ch c))" using sub by auto
        with F(2) have "frame ` set (acked c @ sent h) \<subseteq> set (concat F)" by (rule subset_trans [rotated])
        moreover have "wires_ok (sender c = SDisconnect) (set (accepted c @ [x])) (cnet c) F"
          by (rule wires_ok_mono [OF F(1)]) auto
        ultimately show ?thesis by blast
      qed
      ultimately show ?thesis
        using assms(1) 2 c' last by (auto simp: client_ok_def v)
    qed
  qed
qed

lemma report_frame [simp]: "conn (report err n) = conn n" "wires (report err n) = wires n"
  by (simp_all add: report_def)

lemma client_ok_frame:
  assumes "client_ok c" "ch c' = ch c" "cwrite c' = cwrite c" "acked c' = acked c" "accepted c' = accepted c"
    "wires (cnet c') = wires (cnet c)" "conn (cnet c') = None \<or> conn (cnet c') = conn (cnet c) \<and> (sender c = SDisconnect \<longrightarrow> sender c' = SDisconnect)"
    "sender c' = SConnect \<or> sender c' = SRead \<longrightarrow> pending (ch c) \<noteq> []"
  shows "client_ok c'"
proof -
  obtain F where F: "wires_ok (sender c = SDisconnect) (set (accepted c)) (cnet c) F" "frame ` set (acked c @ sent (ch c)) \<subseteq> set (concat F)"
    using assms(1) by (auto simp: client_ok_def)
  have "wires_ok (sender c' = SDisconnect) (set (accepted c')) (cnet c') F"
    using wires_ok_mono [OF F(1) order_refl assms(6)] assms(5,7) by simp
  then have "\<exists>F. wires_ok (sender c' = SDisconnect) (set (accepted c')) (cnet c') F \<and> frame ` set (acked c' @ sent (ch c')) \<subseteq> set (concat F)"
    using F(2) assms(2,4) by auto
  with assms show ?thesis by (simp add: client_ok_def)
qed

lemma sender_read_ok:
  assumes "client_ok c" "outcomes_ok ws" "sender c = SRead" "sender_step r d ds ws c = Some c'"
  shows "client_ok c'"
proof -
  let ?x = "hd (pending (ch c))"
  have ok: "channel_ok (ch c)" "pending (ch c) \<noteq> []" using assms(1,3) by (simp_all add: client_ok_def)
  have x: "slot_ok ?x" "?x \<in> set (accepted c)" using client_okD(4,5) [OF assms(1)] ok(2) by auto
  have rd: "toRead (ch c)" using ok by (simp add: toRead_pending)
  obtain F where F: "wires_ok False (set (accepted c)) (cnet c) F" "frame ` set (acked c @ sent (ch c)) \<subseteq> set (concat F)"
    using assms(1,3) by (auto simp: client_ok_def)
  have ne: "\<not> ch_empty (ch c)" using empty_pending ok by blast
  obtain n err where w: "write_loop ws (frame ?x) (cnet c) = Some (n, err)"
    using assms(3,4) ne ch_read_ok [OF ok(1) rd] processEntry_frame [OF x(1), of ws "cnet c"]
    by (auto simp: sender_step_def ReadToCallback_def bind_eq_Some_conv)
  then have cb: "processEntry ws ?x (cnet c) = Some (n, err)" by (simp add: processEntry_frame [OF x(1)])
  obtain h where h: "ReadToCallback (processEntry ws) True (ch c) (cnet c) = Some (h, n, err)" "channel_ok h"
    "if err \<noteq> None then sent h = sent (ch c) \<and> pending h = pending (ch c)
     else sent h = sent (ch c) @ [?x] \<and> pending h = tl (pending (ch c))" "itemSize h = itemSize (ch c)"
    using ReadToCallback_unread [where cb = "processEntry ws" and undo = True, OF ok(1) rd cb] by auto
  have c': "c' = c\<lparr>ch := h, cnet := n, sender := (if err \<noteq> None \<and> err \<noteq> Some EOF then SDisconnect else SWait)\<rparr>"
    using assms(3,4) h(1) by (simp add: sender_step_def)
  have fne: "frame ?x \<noteq> []" using x by (simp add: slot_ok_def)
  have cn: "pred_option (\<lambda>k. k < length (wires (cnet c))) (conn (cnet c))" using F(1) by (auto simp: wires_ok_def)
  obtain k p where k: "conn (cnet c) = Some k" "n = wire_append k p (cnet c)" "prefix p (frame ?x)" "err = None \<longrightarrow> p = frame ?x"
    "err = Some EOF \<longrightarrow> \<not> outcomes_ok ws" using write_loop_cases [OF w fne cn] by blast
  have kF: "k < length F" using F(1) k(1) by (simp add: wires_ok_def)
  show ?thesis
  proof (cases err)
    case None
    then have "wires_ok (sender c' = SDisconnect) (set (accepted c)) n (F[k := F ! k @ [frame ?x]])"
      using wires_ok_write(1) [OF F(1) k(1) x(2)] k(2,4) c' by simp
    moreover have "frame ` set (acked c @ sent h) \<subseteq> set (concat (F[k := F ! k @ [frame ?x]]))"
      using F(2) h(3) None set_concat_update [OF kF, of "frame ?x"] by auto
    moreover have "sent h @ pending h = sent (ch c) @ pending (ch c)" using h(3) None ok(2) by simp
    ultimately show ?thesis using assms(1) h(2,4) c' None unfolding client_ok_def by (auto simp del: set_append)
  next
    case (Some er)
    then have "wires_ok True (set (accepted c)) n F" using wires_ok_write(2) [OF F(1) k(1) x(2) k(3)] k(2) by simp
    moreover have "err \<noteq> Some EOF" using k(5) assms(2) by blast
    ultimately show ?thesis using assms(1) h(2,3,4) c' Some F(2) unfolding client_ok_def by auto
  qed
qed

lemma sender_ok:
  assumes "client_ok c" "outcomes_ok ws" "sender_step r d ds ws c = Some c'"
  shows "client_ok c'"
proof (cases "sender c")
  case SWait
  have "channel_ok (ch c)" using assms(1) by (simp add: client_ok_def)
  then have "pending (ch c) \<noteq> []" if "ch_Wait (ch c) = Done (i, None)" for i
    using that by (auto simp: ch_Wait_def toRead_pending split: if_splits)
  with SWait assms(1,3) show ?thesis
    by (auto simp: sender_step_def split: waiting.splits option.splits prod.splits if_splits
        intro!: client_ok_frame [OF assms(1)])
next
  case SConnect
  show ?thesis
  proof (cases "ensureConnection r d ds (cnet c)")
    case None
    with SConnect assms(1,3) show ?thesis by (simp add: sender_step_def)
  next
    case (Some n)
    obtain F where F: "wires_ok False (set (accepted c)) (cnet c) F" "frame ` set (acked c @ sent (ch c)) \<subseteq> set (concat F)"
      using assms(1) SConnect by (auto simp: client_ok_def)
    from wires_ok_ensure [OF F(1) Some] F(2) have "\<exists>F. wires_ok False (set (accepted c)) n F \<and> frame ` set (acked c @ sent (ch c)) \<subseteq> set (concat F)" by blast
    with Some SConnect assms(1,3) show ?thesis by (auto simp: sender_step_def client_ok_def)
  qed
next
  case SRead
  then show ?thesis by (rule sender_read_ok [OF assms(1,2) _ assms(3)])
next
  case SDisconnect
  with assms(3) show ?thesis
    by (auto simp: sender_step_def disconnect_def intro!: client_ok_frame [OF assms(1)])
next
  case SStopped
  with assms(1,3) show ?thesis by (simp add: sender_step_def)
qed

lemma receiver_ok:
  assumes "client_ok c" "receiver_step r rd c = Some c'"
  shows "client_ok c'"
proof -
  have ok: "channel_ok (ch c)" using assms(1) by (simp add: client_ok_def)
  note fr = client_ok_frame [OF assms(1)]
  obtain F where F: "wires_ok (sender c = SDisconnect) (set (accepted c)) (cnet c) F" "frame ` set (acked c @ sent (ch c)) \<subseteq> set (concat F)"
    using assms(1) by (auto simp: client_ok_def)
  have fr': "client_ok c'" if "c' = c\<lparr>receiver := pc\<rparr> \<or> c' = c\<lparr>receiver := pc, cnet := report err (cnet c)\<rparr> \<or>
      c' = c\<lparr>cnet := fst (disconnect r (cnet c)), receiver := pc\<rparr>" for pc err
    by (rule fr) (use that assms(1) in \<open>auto simp: report_def disconnect_def client_ok_def\<close>)
  show ?thesis
  proof (cases "receiver c")
    case RWait
    then show ?thesis using assms fr' by (auto simp: receiver_step_def split: waiting.splits option.splits prod.splits)
  next
    case RLoad
    then show ?thesis using assms fr' by (auto simp: receiver_step_def split: option.splits)
  next
    case (RRead k)
    show ?thesis
    proof (cases rd)
      case (ReadByte b)
      obtain h where h: "ch_Ack (ch c) = Some h" "channel_ok h" "sent h = tl (sent (ch c))" "pending h = pending (ch c)"
        "itemSize h = itemSize (ch c)" using ch_Ack_ok [OF ok] by blast
      have c': "c' = c\<lparr>ch := h, receiver := RWait, acked := acked c @ take 1 (sent (ch c))\<rparr>"
        using assms(2) RRead ReadByte h(1) by (simp add: receiver_step_def)
      have tl: "take 1 (sent (ch c)) @ tl (sent (ch c)) = sent (ch c)" by (cases "sent (ch c)") simp_all
      have "suffix (tl (sent (ch c)) @ pending (ch c)) (sent (ch c) @ pending (ch c))"
        by (cases "sent (ch c)") (auto simp: suffix_def)
      then have "suffix (sent h @ pending h) (accepted c)"
        using assms(1) h(3,4) suffix_order.trans unfolding client_ok_def by metis
      moreover have "frame ` set (acked c' @ sent h) \<subseteq> set (concat F)"
        using F(2) h(3) c' arg_cong [OF tl, of set] by (auto simp: image_Un)
      moreover have "acked c' @ sent h @ pending h = acked c @ sent (ch c) @ pending (ch c)"
        using arg_cong [OF tl, of "\<lambda>xs. xs @ pending (ch c)"] h(3,4) c' by simp
      ultimately show ?thesis using assms(1) h(2,4,5) F(1) c' unfolding client_ok_def by auto
    qed (use RRead assms fr' in \<open>auto simp: receiver_step_def\<close>)
  next
    case RDisconnect
    then show ?thesis using assms fr' by (auto simp: receiver_step_def)
  next
    case RRewind
    let ?h = "fst (ch_Rewind (ch c))"
    have c': "c' = c\<lparr>ch := ?h, receiver := RWait\<rparr>" using assms(2) RRewind by (simp add: receiver_step_def)
    have "itemSize ?h = itemSize (ch c)" by (simp add: ch_Rewind_def Let_def)
    moreover have "frame ` set (acked c) \<subseteq> set (concat F)" using F(2) by auto
    ultimately show ?thesis using assms(1) c' ch_Rewind_ok [OF ok] F(1) unfolding client_ok_def by auto
  next
    case RStopped
    with assms show ?thesis by (simp add: receiver_step_def)
  qed
qed

lemma closing_ok:
  assumes "client_ok c"
  shows "client_ok (Client_CloseWriting c)" "client_ok (Client_CloseChannel c)" "client_ok (fst (Client_Disconnect r c))"
proof -
  have "items (CloseWriting (ch c)) = items (ch c)" "items (ch_Close (ch c)) = items (ch c)"
    by (intro items_frame; simp add: CloseWriting_def ch_Close_def)+
  then have v: "sent (CloseWriting (ch c)) = sent (ch c)" "pending (CloseWriting (ch c)) = pending (ch c)"
    "sent (ch_Close (ch c)) = sent (ch c)" "pending (ch_Close (ch c)) = pending (ch c)"
    by (simp_all add: sent_def pending_def) (simp_all add: CloseWriting_def ch_Close_def)
  have "channel_ok (CloseWriting (ch c)) = channel_ok (ch c)" "channel_ok (ch_Close (ch c)) = channel_ok (ch c)"
    "itemSize (CloseWriting (ch c)) = itemSize (ch c)" "itemSize (ch_Close (ch c)) = itemSize (ch c)"
    by (simp_all add: channel_ok_def CloseWriting_def ch_Close_def)
  with assms v show "client_ok (Client_CloseWriting c)" "client_ok (Client_CloseChannel c)"
    by (simp_all add: client_ok_def Client_CloseWriting_def Client_CloseChannel_def)
  show "client_ok (fst (Client_Disconnect r c))"
    by (rule client_ok_frame [OF assms]) (use assms in \<open>auto simp: Client_Disconnect_def disconnect_def client_ok_def\<close>)
qed

lemma exec_ok: "client_ok c \<Longrightarrow> event_ok ev \<Longrightarrow> client_exec ev c = Some c' \<Longrightarrow> client_ok c'"
  by (cases ev) (auto intro: produce_ok sender_ok receiver_ok closing_ok)

lemma exec_accepted:
  assumes "client_ok c" "client_exec ev c = Some c'"
  obtains "accepted c' = accepted c"
  | e x b n where "ev = Produce e" "accepted c' = accepted c @ [x]" "length b = MaxEntrySize" "Entry_Encode e b = Some (x, n)"
proof (cases ev)
  case (Produce e)
  then obtain r where r: "client_write (cwrite c) (ch c) (encode_fill e) = Some r" "c' = (case r of Blocked \<Rightarrow> c
      | Done (ch', ok) \<Rightarrow> c\<lparr>ch := ch', accepted := accepted c @ (if ok then [last (items ch')] else [])\<rparr>)"
    using assms(2) by (auto simp: Client_ProcessEntry_def bind_eq_Some_conv)
  show thesis
  proof (cases r)
    case Blocked
    with r that(1) show thesis by simp
  next
    case (Done q)
    obtain h d where q: "q = (h, d)" by force
    from client_okD(1,2) [OF assms(1)] r(1) [unfolded Done q] show thesis
    proof (cases rule: client_write_done)
      case 1
      with r(2) Done q that(1) show thesis by simp
    next
      case (2 x)
      have "last (items h) = x" using q_put_views(2) [OF 2(4)] sent_pending [of h] by (metis append_is_Nil_conv last_appendR last_snoc list.distinct(1))
      with 2(1,7) r(2) Done q Produce that(2) show thesis by auto
    qed
  qed
qed (use assms(2) that(1) in \<open>auto simp: sender_step_def receiver_step_def Client_CloseWriting_def Client_CloseChannel_def
      Client_Disconnect_def bind_eq_Some_conv
      split: waiting.splits sender_pc.splits receiver_pc.splits option.splits prod.splits net_read.splits\<close>)

text \<open>Every accepted slot holds the encoding of an entry given to \<^verbatim>\<open>ProcessEntry\<close>.\<close>

lemma run_accepted:
  assumes "client_ok c" "list_all event_ok evs" "client_run evs c = Some c'" "x \<in> set (accepted c')"
  shows "x \<in> set (accepted c) \<or> (\<exists>e b n. Produce e \<in> set evs \<and> length b = MaxEntrySize \<and> Entry_Encode e b = Some (x, n))"
  using assms
proof (induction evs arbitrary: c)
  case (Cons ev evs)
  then obtain c1 where c1: "client_exec ev c = Some c1" "client_run evs c1 = Some c'" by (auto simp: bind_eq_Some_conv)
  have "client_ok c1" using Cons.prems(1,2) c1(1) by (auto intro: exec_ok)
  from Cons.IH [OF this _ c1(2)] Cons.prems have
    "x \<in> set (accepted c1) \<or> (\<exists>e b n. Produce e \<in> set evs \<and> length b = MaxEntrySize \<and> Entry_Encode e b = Some (x, n))" by simp
  moreover from Cons.prems(1) c1(1) have "x \<in> set (accepted c1) \<Longrightarrow> x \<in> set (accepted c) \<or>
      (\<exists>e b n. ev = Produce e \<and> length b = MaxEntrySize \<and> Entry_Encode e b = Some (x, n))"
    by (cases rule: exec_accepted) auto
  ultimately show ?case by auto
qed simp

lemma run_ok: "client_ok c \<Longrightarrow> list_all event_ok evs \<Longrightarrow> client_run evs c = Some c' \<Longrightarrow> client_ok c'"
  by (induction evs arbitrary: c) (auto simp: bind_eq_Some_conv intro: exec_ok)

subsection \<open>A new client\<close>

lemma new_client_ok:
  assumes "NewTlsClient cr cert key op = Some (Inr c)"
  shows "client_ok c" "sent (ch c) = []" "pending (ch c) = []" "capacity (ch c) = BufferSize (Client_setDefaults op)"
    "\<not> closed (ch c)" "\<not> closedWriting (ch c)" "cnet c = \<lparr>conn = None, wires = [], reported = []\<rparr>"
    "sender c = SWait" "receiver c = RWait" "acked c = []" "cwrite c = opt_WriteMethod op"
    "accepted c = []"
proof -
  let ?cap = "BufferSize (Client_setDefaults op)"
  have cap: "0 < ?cap" by (simp add: Client_setDefaults_def Let_def)
  obtain h where h: "NewByteChannel ?cap 65535 = Some h" "channel_ok h" "sent h = []" "pending h = []" "itemSize h = 65535"
    "capacity h = ?cap" "\<not> closed h" "\<not> closedWriting h" using New_ok [OF cap, of 65535] by auto
  have m: "opt_WriteMethod (Client_setDefaults op) = opt_WriteMethod op" by (simp add: Client_setDefaults_def Let_def)
  have c: "c = \<lparr>ch = h, cwrite = opt_WriteMethod op, cnet = \<lparr>conn = None, wires = [], reported = []\<rparr>,
      sender = SWait, receiver = RWait, accepted = [], acked = []\<rparr>"
    using assms h(1) m by (simp add: NewTlsClient_def Let_def split: option.splits if_splits)
  with h show "client_ok c" "sent (ch c) = []" "pending (ch c) = []" "capacity (ch c) = ?cap"
    "\<not> closed (ch c)" "\<not> closedWriting (ch c)" "cnet c = \<lparr>conn = None, wires = [], reported = []\<rparr>"
    "sender c = SWait" "receiver c = RWait" "acked c = []" "cwrite c = opt_WriteMethod op"
    "accepted c = []"
    by (simp_all add: client_ok_def wires_ok_def)
qed

lemma run_write_method: "client_run evs c = Some c' \<Longrightarrow> cwrite c' = cwrite c"
proof -
  have pr: "cwrite c' = cwrite c" if "Client_ProcessEntry e c = Some c'" for e c c'
  proof -
    from that obtain r where "c' = (case r of Blocked \<Rightarrow> c
      | Done (ch', ok) \<Rightarrow> c\<lparr>ch := ch', accepted := accepted c @ (if ok then [last (items ch')] else [])\<rparr>)"
      by (auto simp: Client_ProcessEntry_def bind_eq_Some_conv)
    then show ?thesis by (cases r) (simp_all add: case_prod_beta)
  qed
  have "cwrite c' = cwrite c" if "client_exec ev c = Some c'" for ev c c'
    using that
    by (cases ev)
      (auto simp: pr sender_step_def receiver_step_def Client_CloseWriting_def Client_CloseChannel_def
        Client_Disconnect_def bind_eq_Some_conv
        split: waiting.splits sender_pc.splits receiver_pc.splits option.splits prod.splits net_read.splits)
  then show "client_run evs c = Some c' \<Longrightarrow> cwrite c' = cwrite c"
    by (induction evs arbitrary: c) (auto simp: bind_eq_Some_conv)
qed

end
