(* ===== verification/Client_Runs.thy ===== *)
theory Client_Runs
  imports Client_Spec
begin

text \<open>
  What the client guarantees in every interleaving of its goroutines, and what it does not: runs
  built step by step (\<open>moves\<close>, \<open>reaches\<close>) that lose an entry and that crash.
\<close>

subsection \<open>What holds in every interleaving\<close>


text \<open>
  C12: the bytes of a connection are always whole frames of accepted entries, followed by at most a part of one, and
  nothing is ever written after a part: whenever the sender is not about to disconnect, the current
  connection carries whole frames only.
\<close>

theorem client_frames_intact:
  assumes "NewTlsClient cr cert key op = Some (Inr c0)" and "list_all event_ok evs" and "client_run evs c0 = Some c"
  shows "\<exists>F. length F = length (wires (cnet c)) \<and>
    (\<forall>k<length F. carries (conn (cnet c) = Some k \<and> sender c \<noteq> SDisconnect) (set (accepted c)) (F ! k) (wires (cnet c) ! k))"
proof -
  have "client_ok c" using run_ok [OF new_client_ok(1) [OF assms(1)] assms(2,3)] .
  then show ?thesis by (auto simp: client_ok_def wires_ok_def)
qed

subsection \<open>Single steps\<close>

record client_view =
  v_sent :: "byte list list"
  v_pend :: "byte list list"
  v_acked :: "byte list list"
  v_wires :: "byte list list"
  v_conn :: "nat option"
  v_sender :: sender_pc
  v_receiver :: receiver_pc
  v_cap :: int
  v_cw :: bool \<comment> \<open>closed for writing\<close>

definition view :: "TlsClient \<Rightarrow> client_view" where
  "view c = \<lparr>v_sent = sent (ch c), v_pend = pending (ch c), v_acked = acked c, v_wires = wires (cnet c),
     v_conn = conn (cnet c), v_sender = sender c, v_receiver = receiver c, v_cap = capacity (ch c),
     v_cw = closedWriting (ch c)\<rparr>"

definition client_at :: "client_view \<Rightarrow> TlsClient \<Rightarrow> bool" where
  "client_at v c \<longleftrightarrow> client_ok c \<and> \<not> closed (ch c) \<and> view c = v"

abbreviation new_view :: "int \<Rightarrow> client_view" where
  "new_view n \<equiv> \<lparr>v_sent = [], v_pend = [], v_acked = [], v_wires = [], v_conn = None, v_sender = SWait,
     v_receiver = RWait, v_cap = n, v_cw = False\<rparr>"

lemma new_client_at:
  assumes "NewTlsClient cr cert key op = Some (Inr c0)"
  shows "client_at (new_view (BufferSize (Client_setDefaults op))) c0"
  using new_client_ok [OF assms] by (simp add: client_at_def view_def)

definition moves :: "client_event \<Rightarrow> TlsClient \<Rightarrow> client_view \<Rightarrow> bool" where
  "moves ev c v \<longleftrightarrow> event_ok ev \<and> (\<exists>c'. client_exec ev c = Some c' \<and> client_at v c')"

lemma movesI:
  assumes "client_at v c" "event_ok ev" "client_exec ev c = Some c'" "\<not> closed (ch c')" "view c' = v'"
  shows "moves ev c v'"
  using assms exec_ok [of c ev c'] by (auto simp: moves_def client_at_def)

abbreviation (input) go :: client_event where "go \<equiv> Sender None (DialTls protoV11Ack) [] []"

lemma move_wait:
  assumes "client_at v c" "v_sender v = SWait" "v_pend v \<noteq> []"
  shows "moves go c (v\<lparr>v_sender := SConnect\<rparr>)"
proof -
  have c: "client_ok c" "\<not> closed (ch c)" "closedWriting (ch c) = v_cw v" "view c = v" "sender c = SWait" "pending (ch c) \<noteq> []"
    using assms by (auto simp: client_at_def view_def)
  then have "toRead (ch c)" by (simp add: toRead_pending client_ok_def)
  then have "client_exec go c = Some (c\<lparr>sender := SConnect\<rparr>)" using c by (simp add: sender_step_def ch_Wait_def)
  then show ?thesis by (rule movesI [OF assms(1), rotated]) (use c in \<open>auto simp: outcomes_ok_def view_def\<close>)
qed

lemma move_connect:
  assumes "client_at v c" "v_sender v = SConnect"
  shows "moves go c (case v_conn v of
      None \<Rightarrow> v\<lparr>v_sender := SRead, v_conn := Some (length (v_wires v)), v_wires := v_wires v @ [[]]\<rparr>
    | Some _ \<Rightarrow> v\<lparr>v_sender := SRead\<rparr>)"
proof -
  have c: "client_ok c" "\<not> closed (ch c)" "closedWriting (ch c) = v_cw v" "view c = v" "sender c = SConnect" "conn (cnet c) = v_conn v"
    using assms by (auto simp: client_at_def view_def)
  have "client_exec go c = Some (c\<lparr>cnet := (case v_conn v of
        None \<Rightarrow> (cnet c)\<lparr>conn := Some (length (wires (cnet c))), wires := wires (cnet c) @ [[]]\<rparr> | Some _ \<Rightarrow> cnet c), sender := SRead\<rparr>)"
    using c by (simp add: sender_step_def ensureConnection_def tryConnect_def reconnect_def disconnect_def connect_def split: option.split)
  then show ?thesis
    by (rule movesI [OF assms(1), rotated]) (use c in \<open>auto simp: outcomes_ok_def view_def split: option.split\<close>)
qed

lemma move_write:
  assumes "client_at v c" "v_sender v = SRead" "v_pend v = y # ys" "v_conn v = Some k"
  shows "moves go c (v\<lparr>v_sent := v_sent v @ [y], v_pend := ys, v_wires := (v_wires v)[k := v_wires v ! k @ frame y], v_sender := SWait\<rparr>)"
    "moves (Sender None (DialTls protoV11Ack) [] [WriteErr 0 NetTimeout]) c (v\<lparr>v_sender := SDisconnect\<rparr>)"
proof -
  have c: "client_ok c" "\<not> closed (ch c)" "closedWriting (ch c) = v_cw v" "view c = v" "sender c = SRead" "pending (ch c) = y # ys"
    "conn (cnet c) = Some k" using assms by (auto simp: client_at_def view_def)
  have ok: "channel_ok (ch c)" "slot_ok y" using client_okD(1,5) [OF c(1)] c(6) by simp_all
  have rd: "toRead (ch c)" using ok(1) c(6) by (simp add: toRead_pending)
  have fne: "frame y \<noteq> []" using ok(2) by (simp add: slot_ok_def)
  have w1: "processEntry [] (hd (pending (ch c))) (cnet c) = Some (wire_append k (frame y) (cnet c), None)"
    using processEntry_frame [OF ok(2)] fne c(6,7) by simp
  have w2: "processEntry [WriteErr 0 NetTimeout] (hd (pending (ch c))) (cnet c) = Some (cnet c, Some NetTimeout)"
    using processEntry_frame [OF ok(2)] fne c(6,7) by (simp add: wire_append_def)
  from ReadToCallback_unread [where cb = "processEntry []" and undo = True, OF ok(1) rd w1] obtain h where
    h: "ReadToCallback (processEntry []) True (ch c) (cnet c) = Some (h, wire_append k (frame y) (cnet c), None)"
      "sent h = sent (ch c) @ [y]" "pending h = ys" "capacity h = capacity (ch c)" "\<not> closed h" "closedWriting h = closedWriting (ch c)"
    using c by auto
  then have "client_exec go c = Some (c\<lparr>ch := h, cnet := wire_append k (frame y) (cnet c), sender := SWait\<rparr>)"
    using c(5) by (simp add: sender_step_def)
  then show "moves go c (v\<lparr>v_sent := v_sent v @ [y], v_pend := ys, v_wires := (v_wires v)[k := v_wires v ! k @ frame y], v_sender := SWait\<rparr>)"
    by (rule movesI [OF assms(1), rotated]) (use c h in \<open>auto simp: outcomes_ok_def view_def wire_append_def\<close>)
  from ReadToCallback_unread [where cb = "processEntry [WriteErr 0 NetTimeout]" and undo = True, OF ok(1) rd w2] obtain g where
    g: "ReadToCallback (processEntry [WriteErr 0 NetTimeout]) True (ch c) (cnet c) = Some (g, cnet c, Some NetTimeout)"
      "sent g = sent (ch c)" "pending g = pending (ch c)" "capacity g = capacity (ch c)" "\<not> closed g" "closedWriting g = closedWriting (ch c)"
    using c by auto
  then have "client_exec (Sender None (DialTls protoV11Ack) [] [WriteErr 0 NetTimeout]) c = Some (c\<lparr>ch := g, sender := SDisconnect\<rparr>)"
    using c(5) by (simp add: sender_step_def)
  then show "moves (Sender None (DialTls protoV11Ack) [] [WriteErr 0 NetTimeout]) c (v\<lparr>v_sender := SDisconnect\<rparr>)"
    by (rule movesI [OF assms(1), rotated]) (use c g in \<open>auto simp: outcomes_ok_def view_def\<close>)
qed

lemma move_disconnect:
  assumes "client_at v c" "v_sender v = SDisconnect"
  shows "moves go c (v\<lparr>v_sender := SWait, v_conn := None\<rparr>)"
proof -
  have c: "\<not> closed (ch c)" "closedWriting (ch c) = v_cw v" "view c = v" "sender c = SDisconnect" using assms by (auto simp: client_at_def view_def)
  then have "client_exec go c = Some (c\<lparr>cnet := (cnet c)\<lparr>conn := None\<rparr>, sender := SWait\<rparr>)"
    by (simp add: sender_step_def disconnect_def)
  then show ?thesis by (rule movesI [OF assms(1), rotated]) (use c in \<open>auto simp: outcomes_ok_def view_def\<close>)
qed

lemma move_receiver:
  assumes "client_at v c"
  shows "v_receiver v = RWait \<Longrightarrow> v_sent v \<noteq> [] \<Longrightarrow> moves (Receiver None ReadNothing) c (v\<lparr>v_receiver := RLoad\<rparr>)"
    "v_receiver v = RLoad \<Longrightarrow> v_conn v = Some k \<Longrightarrow> moves (Receiver None ReadNothing) c (v\<lparr>v_receiver := RRead k\<rparr>)"
    "v_receiver v = RRead k \<Longrightarrow> v_sent v = x # xs \<Longrightarrow>
      moves (Receiver None (ReadByte b)) c (v\<lparr>v_receiver := RWait, v_sent := xs, v_acked := v_acked v @ [x]\<rparr>)"
    "v_receiver v = RRead k \<Longrightarrow> moves (Receiver None (ReadErr EOF)) c (v\<lparr>v_receiver := RDisconnect\<rparr>)"
    "v_receiver v = RDisconnect \<Longrightarrow> moves (Receiver None ReadNothing) c (v\<lparr>v_receiver := RRewind, v_conn := None\<rparr>)"
proof -
  note I = movesI [OF assms, rotated]
  have c: "client_ok c" "\<not> closed (ch c)" "closedWriting (ch c) = v_cw v" "view c = v" using assms by (auto simp: client_at_def view_def)
  have ok: "channel_ok (ch c)" using c(1) by (simp add: client_ok_def)
  show "moves (Receiver None ReadNothing) c (v\<lparr>v_receiver := RLoad\<rparr>)" if "v_receiver v = RWait" "v_sent v \<noteq> []"
  proof -
    have r: "receiver c = RWait" "sent (ch c) \<noteq> []" using that c(4) by (auto simp: view_def)
    have "toAck (ch c)" using length_sent [OF ok] r(2) by (simp add: toAck_def flip: length_greater_0_conv)
    with r c(2) have "client_exec (Receiver None ReadNothing) c = Some (c\<lparr>receiver := RLoad\<rparr>)"
      by (simp add: receiver_step_def WaitUntilRead_def)
    then show ?thesis by (rule I) (use c in \<open>auto simp: view_def\<close>)
  qed
  show "moves (Receiver None ReadNothing) c (v\<lparr>v_receiver := RRead k\<rparr>)" if "v_receiver v = RLoad" "v_conn v = Some k"
  proof -
    have "client_exec (Receiver None ReadNothing) c = Some (c\<lparr>receiver := RRead k\<rparr>)"
      using that c(4) by (auto simp: receiver_step_def view_def)
    then show ?thesis by (rule I) (use c in \<open>auto simp: view_def\<close>)
  qed
  show "moves (Receiver None (ReadByte b)) c (v\<lparr>v_receiver := RWait, v_sent := xs, v_acked := v_acked v @ [x]\<rparr>)"
    if "v_receiver v = RRead k" "v_sent v = x # xs"
  proof -
    have r: "receiver c = RRead k" "sent (ch c) = x # xs" using that c(4) by (auto simp: view_def)
    obtain h where h: "ch_Ack (ch c) = Some h" "sent h = tl (sent (ch c))" "pending h = pending (ch c)"
      "capacity h = capacity (ch c)" "closedWriting h = closedWriting (ch c)" "closed h = closed (ch c)" using ch_Ack_ok [OF ok] by blast
    then have "client_exec (Receiver None (ReadByte b)) c = Some (c\<lparr>ch := h, receiver := RWait, acked := acked c @ [x]\<rparr>)"
      using r by (simp add: receiver_step_def)
    then show ?thesis by (rule I) (use c r h in \<open>auto simp: view_def\<close>)
  qed
  show "moves (Receiver None (ReadErr EOF)) c (v\<lparr>v_receiver := RDisconnect\<rparr>)" if "v_receiver v = RRead k"
  proof -
    have "client_exec (Receiver None (ReadErr EOF)) c = Some (c\<lparr>receiver := RDisconnect\<rparr>)"
      using that c(4) by (auto simp: receiver_step_def view_def)
    then show ?thesis by (rule I) (use c in \<open>auto simp: view_def\<close>)
  qed
  show "moves (Receiver None ReadNothing) c (v\<lparr>v_receiver := RRewind, v_conn := None\<rparr>)" if "v_receiver v = RDisconnect"
  proof -
    have "client_exec (Receiver None ReadNothing) c = Some (c\<lparr>cnet := (cnet c)\<lparr>conn := None\<rparr>, receiver := RRewind\<rparr>)"
      using that c(4) by (auto simp: receiver_step_def disconnect_def view_def)
    then show ?thesis by (rule I) (use c in \<open>auto simp: view_def\<close>)
  qed
qed

definition sendable_entry :: "Entry \<Rightarrow> bool" where
  "sendable_entry e \<longleftrightarrow> enc_ready e \<and> length (wire_bytes e) \<le> MaxEntrySize"

lemma move_produce:
  assumes "client_at v c" "sendable_entry e" "int (length (v_sent v) + length (v_pend v)) < v_cap v" "\<not> v_cw v"
  shows "\<exists>x. moves (Produce e) c (v\<lparr>v_pend := v_pend v @ [x]\<rparr>) \<and> frame x = wire_bytes e"
proof -
  have c: "client_ok c" "\<not> closed (ch c)" "closedWriting (ch c) = v_cw v" "view c = v" using assms by (auto simp: client_at_def view_def)
  have ok: "channel_ok (ch c)" "itemSize (ch c) = 65535" using c(1) by (simp_all add: client_ok_def)
  have len: "length (next_slot (ch c)) = 65535" using length_next_slot [OF ok(1)] ok(2) by simp
  let ?x = "wire_bytes e @ drop (length (wire_bytes e)) (next_slot (ch c))"
  have enc: "Entry_Encode e (next_slot (ch c)) = Some (?x, length (wire_bytes e))"
    using assms(2) len by (intro Encode_wire) (simp_all add: sendable_entry_def)
  then have cb: "encode_fill e (next_slot (ch c)) = Some ?x" by (simp add: encode_fill_def)
  have x: "slot_ok ?x" "frame ?x = wire_bytes e" using encoded_slot [OF enc len] by simp_all
  have full: "\<not> q_full (absq (ch c))" using assms(3) c(4) by (auto simp: q_full_def view_def)
  have sp: "spaceLeft (ch c)" using full q_full_absq [OF ok(1)] by simp
  have "fill_ok (ch c) (encode_fill e)" using cb x(1) ok(2) by (simp add: fill_ok_def item_fits_def slot_ok_def)
  then obtain h where h: "ch_write (ch c) (encode_fill e) = Some h" "absq h = q_put ?x (absq (ch c))"
    using ch_write_refines [OF ok(1), of "encode_fill e"] cb by auto
  note fr = ch_write_frame [OF ok(1) cb h(1)]
  have "client_exec (Produce e) c = Some (c\<lparr>ch := h, accepted := accepted c @ [last (items h)]\<rparr>)"
    using h(1) c(3) sp assms(4) by (simp add: Client_ProcessEntry_def client_write_def WriteOrBlock_def WriteOrFail_def WriteOrReplace_def)
  then have "moves (Produce e) c (v\<lparr>v_pend := v_pend v @ [?x]\<rparr>)"
    by (rule movesI [OF assms(1), rotated]) (use c fr q_put_views [OF h(2)] full in \<open>auto simp: view_def\<close>)
  then show ?thesis using x(2) by blast
qed

inductive reaches :: "client_view \<Rightarrow> client_view \<Rightarrow> bool" where
  refl: "reaches v v"
| step: "reaches v v' \<Longrightarrow> (\<And>c. client_at v' c \<Longrightarrow> moves ev c v'') \<Longrightarrow> reaches v v''"

lemma reaches_run:
  assumes "reaches v v'" "client_at v c"
  shows "\<exists>evs c'. list_all event_ok evs \<and> client_run evs c = Some c' \<and> client_at v' c'"
  using assms
proof (induction rule: reaches.induct)
  case (refl v)
  then show ?case by (intro exI [of _ "[]"]) simp
next
  case (step v v' ev v'')
  then obtain evs c' where r: "list_all event_ok evs" "client_run evs c = Some c'" "client_at v' c'" by blast
  obtain c'' where "event_ok ev" "client_exec ev c' = Some c''" "client_at v'' c''" using step.hyps(2) [OF r(3)] by (auto simp: moves_def)
  moreover have "client_run (evs @ [ev]) c = client_run [ev] c'" using r(2)
    by (induction evs arbitrary: c) (auto simp: bind_eq_Some_conv)
  ultimately show ?case using r(1) by (intro exI [of _ "evs @ [ev]"] exI [of _ c'']) simp
qed

lemma reaches_trans [trans]: "reaches v v' \<Longrightarrow> reaches v' v'' \<Longrightarrow> reaches v v''"
proof (rotate_tac, induction rule: reaches.induct)
  case (step v' w ev w')
  then show ?case by (blast intro: reaches.step)
qed

lemma reaches1: "(\<And>c. client_at v c \<Longrightarrow> moves ev c v') \<Longrightarrow> reaches v v'"
  by (rule reaches.step [OF reaches.refl])

lemma reaches_send:
  assumes "v_sender v = SWait" "v_pend v = y # ys"
  shows "v_conn v = Some k \<Longrightarrow> reaches v (v\<lparr>v_sender := SRead\<rparr>)"
    "v_conn v = Some k \<Longrightarrow> reaches v (v\<lparr>v_sent := v_sent v @ [y], v_pend := ys, v_wires := (v_wires v)[k := v_wires v ! k @ frame y], v_sender := SWait\<rparr>)"
    "v_conn v = None \<Longrightarrow> reaches v (v\<lparr>v_conn := Some (length (v_wires v)), v_sent := v_sent v @ [y], v_pend := ys, v_wires := v_wires v @ [frame y], v_sender := SWait\<rparr>)"
proof -
  have w: "reaches v (v\<lparr>v_sender := SConnect\<rparr>)" by (rule reaches1) (use assms in \<open>auto intro: move_wait\<close>)
  have c: "reaches (v\<lparr>v_sender := SConnect\<rparr>) (case v_conn v of
      None \<Rightarrow> v\<lparr>v_sender := SRead, v_conn := Some (length (v_wires v)), v_wires := v_wires v @ [[]]\<rparr> | Some _ \<Rightarrow> v\<lparr>v_sender := SRead\<rparr>)"
    by (rule reaches1) (use move_connect [of "v\<lparr>v_sender := SConnect\<rparr>"] in \<open>cases "v_conn v"; force\<close>)
  show rd: "reaches v (v\<lparr>v_sender := SRead\<rparr>)" if "v_conn v = Some k" for k
    using reaches_trans [OF w c] that by simp
  have wr: "reaches u (u\<lparr>v_sent := v_sent u @ [y], v_pend := ys, v_wires := (v_wires u)[k := v_wires u ! k @ frame y], v_sender := SWait\<rparr>)"
    if "v_sender u = SRead" "v_pend u = y # ys" "v_conn u = Some k" for u k
    by (rule reaches1) (use that move_write(1) in blast)
  show "reaches v (v\<lparr>v_sent := v_sent v @ [y], v_pend := ys, v_wires := (v_wires v)[k := v_wires v ! k @ frame y], v_sender := SWait\<rparr>)" if "v_conn v = Some k" for k
    using reaches_trans [OF rd [OF that] wr [of "v\<lparr>v_sender := SRead\<rparr>" k]] assms that by simp
  show "reaches v (v\<lparr>v_conn := Some (length (v_wires v)), v_sent := v_sent v @ [y], v_pend := ys, v_wires := v_wires v @ [frame y], v_sender := SWait\<rparr>)" if n: "v_conn v = None"
  proof -
    let ?u = "v\<lparr>v_sender := SRead, v_conn := Some (length (v_wires v)), v_wires := v_wires v @ [[]]\<rparr>"
    have "reaches v ?u" using reaches_trans [OF w c] n by simp
    from reaches_trans [OF this wr [of ?u "length (v_wires v)"]] assms show ?thesis by (simp add: list_update_append)
  qed
qed

text \<open>The state after two entries were accepted and the first was sent on the first connection.\<close>

lemma first_sent:
  assumes "NewTlsClient cr cert key op = Some (Inr c0)" "2 \<le> BufferSize (Client_setDefaults op)"
    "sendable_entry e1" "sendable_entry e2"
  obtains x y evs c where "frame x = wire_bytes e1" "frame y = wire_bytes e2" "list_all event_ok evs" "client_run evs c0 = Some c"
    "client_at \<lparr>v_sent = [x], v_pend = [y], v_acked = [], v_wires = [wire_bytes e1], v_conn = Some 0, v_sender = SRead,
       v_receiver = RWait, v_cap = BufferSize (Client_setDefaults op), v_cw = False\<rparr> c"
proof -
  let ?v = "\<lambda>p. \<lparr>v_sent = [], v_pend = p, v_acked = [], v_wires = [], v_conn = None, v_sender = SWait,
       v_receiver = RWait, v_cap = BufferSize (Client_setDefaults op), v_cw = False\<rparr>"
  from move_produce [OF new_client_at [OF assms(1)] assms(3)] assms(2) obtain x c1 where x: "frame x = wire_bytes e1" "client_exec (Produce e1) c0 = Some c1"
    "client_at (?v [x]) c1" by (auto simp: moves_def)
  from move_produce [OF x(3) assms(4)] assms(2) obtain y c2 where y: "frame y = wire_bytes e2" "client_exec (Produce e2) c1 = Some c2"
    "client_at (?v [x, y]) c2" by (auto simp: moves_def)
  let ?w = "\<lparr>v_sent = [x], v_pend = [y], v_acked = [], v_wires = [wire_bytes e1], v_conn = Some 0, v_sender = SWait,
       v_receiver = RWait, v_cap = BufferSize (Client_setDefaults op), v_cw = False\<rparr>"
  have "reaches (?v [x, y]) ?w" using reaches_send(3) [of "?v [x, y]" x "[y]"] x(1) by simp
  moreover have "reaches ?w (?w\<lparr>v_sender := SRead\<rparr>)" by (rule reaches_send(1) [of _ y "[]" 0]) simp_all
  ultimately have "reaches (?v [x, y]) (?w\<lparr>v_sender := SRead\<rparr>)" by (rule reaches_trans)
  from reaches_run [OF this y(3)] obtain evs c where "list_all event_ok evs" "client_run evs c2 = Some c" "client_at (?w\<lparr>v_sender := SRead\<rparr>) c"
    by blast
  then show thesis using that [of x y "Produce e1 # Produce e2 # evs" c] x(1,2) y(1,2) by simp
qed

text \<open>
  C31: a response is credited to the oldest entry that awaits one, whatever connection it was sent on.
  After a failed write the sender reconnects without rewinding, so a response on the new connection
  can give up an entry that was only ever sent on the broken one: here the first entry is given up
  although only the second was sent on the connection that the response came from.
\<close>

theorem ack_credited_across_connections:
  assumes "NewTlsClient cr cert key op = Some (Inr c0)" and "2 \<le> BufferSize (Client_setDefaults op)"
    and "sendable_entry e1" and "sendable_entry e2"
  shows "\<exists>evs c c' x. list_all event_ok evs \<and> client_run evs c0 = Some c \<and> receiver c = RRead 1 \<and>
    wires (cnet c) = [wire_bytes e1, wire_bytes e2] \<and> acked c = [] \<and>
    client_exec (Receiver None (ReadByte 1)) c = Some c' \<and> acked c' = [x] \<and> frame x = wire_bytes e1"
proof -
  obtain x y evs c where s: "frame x = wire_bytes e1" "frame y = wire_bytes e2" "list_all event_ok evs" "client_run evs c0 = Some c"
    "client_at \<lparr>v_sent = [x], v_pend = [y], v_acked = [], v_wires = [wire_bytes e1], v_conn = Some 0, v_sender = SRead,
       v_receiver = RWait, v_cap = BufferSize (Client_setDefaults op), v_cw = False\<rparr> c" (is "client_at ?a c")
    using first_sent [OF assms] by blast
  let ?b = "?a\<lparr>v_sender := SDisconnect\<rparr>"
  let ?d = "?a\<lparr>v_sender := SWait, v_conn := None\<rparr>"
  let ?e = "?a\<lparr>v_sent := [x, y], v_pend := [], v_wires := [wire_bytes e1, wire_bytes e2], v_conn := Some 1, v_sender := SWait\<rparr>"
  have "reaches ?a ?b" by (rule reaches1, rule move_write(2)) simp_all
  also have "reaches ?b ?d" using move_disconnect [of ?b] by (intro reaches1) simp
  also have "reaches ?d ?e" using reaches_send(3) [of ?d y "[]"] s(2) by simp
  also have "reaches ?e (?e\<lparr>v_receiver := RLoad\<rparr>)" by (rule reaches1, rule move_receiver(1)) simp_all
  also have "reaches (?e\<lparr>v_receiver := RLoad\<rparr>) (?e\<lparr>v_receiver := RRead 1\<rparr>)"
    using move_receiver(2) [of "?e\<lparr>v_receiver := RLoad\<rparr>" _ 1] by (intro reaches1) simp
  finally have "reaches ?a (?e\<lparr>v_receiver := RRead 1\<rparr>)" .
  from reaches_run [OF this s(5)] obtain evs' c1 where r: "list_all event_ok evs'" "client_run evs' c = Some c1"
    "client_at (?e\<lparr>v_receiver := RRead 1\<rparr>) c1" by blast
  from move_receiver(3) [OF r(3), of 1 x "[y]" 1] obtain c2 where c2: "client_exec (Receiver None (ReadByte 1)) c1 = Some c2" "acked c2 = [x]"
    by (auto simp: moves_def client_at_def view_def)
  have "client_run (evs @ evs') c0 = Some c1" using s(4) r(2) by (induction evs arbitrary: c0) (auto simp: bind_eq_Some_conv)
  moreover have "receiver c1 = RRead 1" "wires (cnet c1) = [wire_bytes e1, wire_bytes e2]" "acked c1 = []"
    using r(3) by (auto simp: client_at_def view_def)
  ultimately show ?thesis using s(1,3) r(1) c2
    by (intro exI [of _ "evs @ evs'"] exI [of _ c1] exI [of _ c2] exI [of _ x]) simp
qed

text \<open>
  C32: the client can crash on a server that closes the connection: when the receiver sees the end of
  the connection and disconnects after the sender has found the connection in place, the sender
  loads a nil pointer and calls its \<open>Write\<close>.
\<close>

theorem client_panics_on_lost_connection:
  assumes "NewTlsClient cr cert key op = Some (Inr c0)" and "2 \<le> BufferSize (Client_setDefaults op)"
    and "sendable_entry e1" and "sendable_entry e2"
  shows "\<exists>evs c. list_all event_ok evs \<and> client_run evs c0 = Some c \<and> sender c = SRead \<and> conn (cnet c) = None \<and>
    client_exec (Sender None (DialTls protoV11Ack) [] []) c = None"
proof -
  obtain x y evs c where s: "frame x = wire_bytes e1" "frame y = wire_bytes e2" "list_all event_ok evs" "client_run evs c0 = Some c"
    "client_at \<lparr>v_sent = [x], v_pend = [y], v_acked = [], v_wires = [wire_bytes e1], v_conn = Some 0, v_sender = SRead,
       v_receiver = RWait, v_cap = BufferSize (Client_setDefaults op), v_cw = False\<rparr> c" (is "client_at ?a c")
    using first_sent [OF assms] by blast
  have "reaches ?a (?a\<lparr>v_receiver := RLoad\<rparr>)" by (rule reaches1, rule move_receiver(1)) simp_all
  also have "reaches (?a\<lparr>v_receiver := RLoad\<rparr>) (?a\<lparr>v_receiver := RRead 0\<rparr>)"
    using move_receiver(2) [of "?a\<lparr>v_receiver := RLoad\<rparr>" _ 0] by (intro reaches1) simp
  also have "reaches (?a\<lparr>v_receiver := RRead 0\<rparr>) (?a\<lparr>v_receiver := RDisconnect\<rparr>)"
    using move_receiver(4) [of "?a\<lparr>v_receiver := RRead 0\<rparr>" _ 0] by (intro reaches1) simp
  also have "reaches (?a\<lparr>v_receiver := RDisconnect\<rparr>) (?a\<lparr>v_receiver := RRewind, v_conn := None\<rparr>)"
    using move_receiver(5) [of "?a\<lparr>v_receiver := RDisconnect\<rparr>"] by (intro reaches1) simp
  finally have "reaches ?a (?a\<lparr>v_receiver := RRewind, v_conn := None\<rparr>)" .
  from reaches_run [OF this s(5)] obtain evs' c1 where r: "list_all event_ok evs'" "client_run evs' c = Some c1"
    "client_at (?a\<lparr>v_receiver := RRewind, v_conn := None\<rparr>) c1" by blast
  have c1: "client_ok c1" "sender c1 = SRead" "conn (cnet c1) = None" "pending (ch c1) = [y]"
    using r(3) by (auto simp: client_at_def view_def)
  then have ok: "channel_ok (ch c1)" "slot_ok y" using client_okD(1,5) [OF c1(1)] by simp_all
  have "toRead (ch c1)" using ok(1) c1(4) by (simp add: toRead_pending)
  moreover have "\<not> ch_empty (ch c1)" using empty_pending [OF ok(1)] c1(4) by auto
  moreover have "processEntry [] y (cnet c1) = None" using processEntry_frame [OF ok(2)] c1(3) ok(2) by (simp add: slot_ok_def)
  ultimately have "client_exec (Sender None (DialTls protoV11Ack) [] []) c1 = None"
    using c1(2,4) ch_read_ok [OF ok(1)] by (simp add: sender_step_def ReadToCallback_def)
  moreover have "client_run (evs @ evs') c0 = Some c1" using s(4) r(2) by (induction evs arbitrary: c0) (auto simp: bind_eq_Some_conv)
  ultimately show ?thesis using s(3) r(1) c1(2,3) by (intro exI [of _ "evs @ evs'"] exI [of _ c1]) simp
qed

subsection \<open>A concrete client\<close>

definition small_client :: TlsClientOptions where
  "small_client = \<lparr>BufferSize = 4, opt_WriteMethod = MWriteOrBlock, ServerAckTimeout = 0\<rparr>"

lemma small_client_new: "\<exists>c0. NewTlsClient demo_crypto (Some [1]) [5] small_client = Some (Inr c0)"
proof -
  have "Certificate_Validate demo_crypto (Some [1]) [5] = None" "Certificate_Type demo_crypto (Some [1]) = Client"
    by (simp_all add: Certificate_Validate_def Certificate_Type_def Certificate_X509_def certPublicKey_def PrivateKey_Public_def
        demo_crypto_def demo_template_def)
  then show ?thesis by (simp add: NewTlsClient_def Let_def Client_setDefaults_def small_client_def NewByteChannel_def)
qed

lemma small_client_size: "2 \<le> BufferSize (Client_setDefaults small_client)"
  by (simp add: Client_setDefaults_def small_client_def)

lemma sample_sendable: "sendable_entry sample_entry"
  using enc_ready_of_wire [OF sample_entry_ok(1,2)] sample_entry_size by (simp add: sendable_entry_def)

theorem ack_credited_across_connections_witness:
  "\<exists>c0 evs c c' x. NewTlsClient demo_crypto (Some [1]) [5] small_client = Some (Inr c0) \<and> client_run evs c0 = Some c \<and> receiver c = RRead 1 \<and>
    client_exec (Receiver None (ReadByte 1)) c = Some c' \<and> acked c = [] \<and> acked c' = [x]"
  using small_client_new ack_credited_across_connections [OF _ small_client_size sample_sendable sample_sendable] by blast

theorem client_panics_on_lost_connection_witness:
  "\<exists>c0 evs c. NewTlsClient demo_crypto (Some [1]) [5] small_client = Some (Inr c0) \<and> client_run evs c0 = Some c \<and>
    client_exec (Sender None (DialTls protoV11Ack) [] []) c = None"
  using small_client_new client_panics_on_lost_connection [OF _ small_client_size sample_sendable sample_sendable] by blast

lemma small_client_run:
  "\<exists>c0 evs c. NewTlsClient demo_crypto (Some [1]) [5] small_client = Some (Inr c0) \<and> list_all event_ok evs \<and> client_run evs c0 = Some c \<and>
    length (sent (ch c)) = 1 \<and> length (pending (ch c)) = 1 \<and> wires (cnet c) = [wire_bytes sample_entry]"
proof -
  obtain c0 where c0: "NewTlsClient demo_crypto (Some [1]) [5] small_client = Some (Inr c0)" using small_client_new by blast
  from first_sent [OF c0 small_client_size sample_sendable sample_sendable] c0 show ?thesis
    by (auto simp: client_at_def view_def) (metis One_nat_def length_Cons list.size(3))
qed


theorem client_frames_intact_witness:
  "\<exists>c0 evs c F. NewTlsClient demo_crypto (Some [1]) [5] small_client = Some (Inr c0) \<and> client_run evs c0 = Some c \<and>
    wires (cnet c) = [wire_bytes sample_entry] \<and> length F = 1 \<and> carries (conn (cnet c) = Some 0 \<and> sender c \<noteq> SDisconnect) (set (accepted c)) (F ! 0) (wire_bytes sample_entry)"
proof -
  obtain c0 evs c where r: "NewTlsClient demo_crypto (Some [1]) [5] small_client = Some (Inr c0)" "list_all event_ok evs" "client_run evs c0 = Some c"
    "wires (cnet c) = [wire_bytes sample_entry]" using small_client_run by blast
  obtain F where "length F = 1" "carries (conn (cnet c) = Some 0 \<and> sender c \<noteq> SDisconnect) (set (accepted c)) (F ! 0) (wire_bytes sample_entry)"
    using client_frames_intact [OF r(1-3)] r(4) by auto
  with r show ?thesis by blast
qed

end
