(* ===== verification/Peers.thy ===== *)
theory Peers
  imports Tls_Accept Client_Runs
begin

text \<open>
  The client's dialer (\<^verbatim>\<open>setupDialer\<close> of \<^verbatim>\<open>peer/tls_client.go\<close>) against the server's configuration:
  what the two sides negotiate and whether they know each other's authority.
\<close>

definition setupDialer :: "crypto \<Rightarrow> Certificate \<Rightarrow> Certificate \<Rightarrow> byte list \<Rightarrow> tls_config option" where
  \<comment> \<open>a certificate that cannot be parsed is presented as nil\<close>
  "setupDialer cr rootCa cert key = do {
     cas \<leftarrow> Certificate_X509Pool cr rootCa None;
     Some \<lparr>MinVersion = 13, MaxVersion = 13, NextProtos = [protoV11Ack, protoV10], trusted = cas,
       presents = (case Certificate_TLS cr cert key of None \<Rightarrow> [] | Some t \<Rightarrow> [t])\<rparr> }"

definition Client_CloseGracefully :: "TlsClient \<Rightarrow> TlsClient \<times> io_error option waiting" where
  \<comment> \<open>the timeout is an event of its own, which closes the client\<close>
  "Client_CloseGracefully c = CloseWithContext c"

fun negotiate :: "gostring list \<Rightarrow> gostring list \<Rightarrow> gostring option" where
  \<comment> \<open>the choice of a protocol in \<^verbatim>\<open>crypto/tls\<close>: the server's first that the client offers\<close>
  "negotiate [] cs = None"
| "negotiate (p # ps) cs = (if p \<in> set cs then Some p else negotiate ps cs)"


definition two_certs :: crypto where
  \<comment> \<open>\<open>[1]\<close> is a server's certificate, every other one a client's\<close>
  "two_certs = demo_crypto\<lparr>parseCert := (\<lambda>der. Inr (if der = [1] then demo_template\<lparr>ExtKeyUsage := [ExtKeyUsageServerAuth]\<rparr> else demo_template))\<rparr>"


end
