(* ===== verification/Example_Certs.thy ===== *)
theory Example_Certs
  imports Peers
begin

text \<open>
  \<^verbatim>\<open>example3/certs.go\<close> and \<^verbatim>\<open>example3/perm.go\<close>, which the example programs share: the keys and
  certificates of an authority, a server and a client, loaded from a directory or created in it.
  Files have contents and attributes by path; a path is the string the program uses, and what the
  operating system returns for a call is part of the environment; paths are those of Unix. The same two files stand in
  \<^verbatim>\<open>example/\<close> and \<^verbatim>\<open>example4/\<close> under other package names.
\<close>

subsection \<open>Paths\<close>

abbreviation (input) slash :: byte where "slash \<equiv> 47"

fun split_path :: "gostring \<Rightarrow> gostring list" where
  \<comment> \<open>the elements between the slashes\<close>
  "split_path [] = [[]]"
| "split_path (b # bs) = (if b = slash then [] # split_path bs
     else case split_path bs of p # ps \<Rightarrow> (b # p) # ps | [] \<Rightarrow> [[b]])"

fun clean_parts :: "bool \<Rightarrow> gostring list \<Rightarrow> gostring list \<Rightarrow> gostring list" where
  "clean_parts rooted [] acc = rev acc"
| "clean_parts rooted (p # ps) acc =
    (if p = [] \<or> p = lit ''.'' then clean_parts rooted ps acc
     else if p = lit ''..'' then
       (case acc of
          [] \<Rightarrow> clean_parts rooted ps (if rooted then [] else [p])
        | q # qs \<Rightarrow> if q = lit ''..'' then clean_parts rooted ps (p # acc) else clean_parts rooted ps qs)
     else clean_parts rooted ps (p # acc))"

fun join_parts :: "gostring list \<Rightarrow> gostring" where
  "join_parts [] = []"
| "join_parts [p] = p"
| "join_parts (p # ps) = p @ slash # join_parts ps"

definition path_Clean :: "gostring \<Rightarrow> gostring" where
  \<comment> \<open>\<^verbatim>\<open>filepath.Clean\<close>\<close>
  "path_Clean p =
    (if p = [] then lit ''.''
     else let rooted = (hd p = slash); q = join_parts (clean_parts rooted (split_path p) [])
       in if rooted then slash # q else if q = [] then lit ''.'' else q)"

definition path_Join :: "gostring \<Rightarrow> gostring \<Rightarrow> gostring" where
  \<comment> \<open>\<^verbatim>\<open>filepath.Join\<close> of two elements\<close>
  "path_Join d n = (if d \<noteq> [] then path_Clean (d @ slash # n) else if n \<noteq> [] then path_Clean n else [])"

subsection \<open>The operating system\<close>

abbreviation (input) ModeDir :: u32 where "ModeDir \<equiv> 0x80000000"
abbreviation (input) ModeType :: u32 where "ModeType \<equiv> 0x8F280000"
abbreviation (input) PermPrivDir :: u32 where "PermPrivDir \<equiv> 0x1C0" \<comment> \<open>0700\<close>
abbreviation (input) PermPrivFile :: u32 where "PermPrivFile \<equiv> 0x180" \<comment> \<open>0600\<close>
abbreviation (input) PermPublicFile :: u32 where "PermPublicFile \<equiv> 0x1A4" \<comment> \<open>0644\<close>

record file_info =
  fi_mode :: u32 \<comment> \<open>an \<^verbatim>\<open>fs.FileMode\<close>: kind and permissions\<close>
  fi_uid :: int
  fi_gid :: int

definition fi_IsDir :: "file_info \<Rightarrow> bool" where
  "fi_IsDir i \<longleftrightarrow> fi_mode i AND ModeDir \<noteq> 0"

record os_state =
  os_files :: files
  os_info :: "gostring \<Rightarrow> file_info option"

record os_env =
  os_uid :: int \<comment> \<open>\<open>-1\<close> where there are no user IDs\<close>
  os_gid :: int
  os_unix :: bool \<comment> \<open>the attributes tell the owner\<close>
  umask :: u32
  stat_err :: "gostring \<Rightarrow> auth_error option"
  dir_err :: "auth_error option" \<comment> \<open>of the second \<^verbatim>\<open>os.Stat\<close> of the directory\<close>
  mkdir_err :: "auth_error option"
  chown_err :: "gostring \<Rightarrow> auth_error option"
  chmod_err :: "gostring \<Rightarrow> auth_error option"
  read_err :: "gostring \<Rightarrow> auth_error option"
  write_out :: "gostring \<Rightarrow> file_write"

abbreviation (input) ErrNoEntry :: auth_error where "ErrNoEntry \<equiv> AuthErr (lit ''no such file or directory'')"

definition os_IsNotExist :: "auth_error \<Rightarrow> bool" where
  "os_IsNotExist err \<longleftrightarrow> err = ErrNoEntry"

definition os_Stat :: "auth_error option \<Rightarrow> gostring \<Rightarrow> os_state \<Rightarrow> auth_error + file_info" where
  "os_Stat fault path st = (case (fault, os_info st path) of
     (Some err, _) \<Rightarrow> Inl err | (None, None) \<Rightarrow> Inl ErrNoEntry | (None, Some i) \<Rightarrow> Inr i)"

definition on_info :: "auth_error option \<Rightarrow> (file_info \<Rightarrow> file_info) \<Rightarrow> gostring \<Rightarrow> os_state \<Rightarrow> os_state \<times> auth_error option" where
  "on_info fault f path st = (case (fault, os_info st path) of
     (Some err, _) \<Rightarrow> (st, Some err)
   | (None, None) \<Rightarrow> (st, Some ErrNoEntry)
   | (None, Some i) \<Rightarrow> (st\<lparr>os_info := (os_info st)(path \<mapsto> f i)\<rparr>, None))"

definition os_Chown :: "os_env \<Rightarrow> gostring \<Rightarrow> int \<Rightarrow> int \<Rightarrow> os_state \<Rightarrow> os_state \<times> auth_error option" where
  "os_Chown env path u g = on_info (chown_err env path) (\<lambda>i. i\<lparr>fi_uid := u, fi_gid := g\<rparr>) path"

definition os_Chmod :: "os_env \<Rightarrow> gostring \<Rightarrow> u32 \<Rightarrow> os_state \<Rightarrow> os_state \<times> auth_error option" where
  "os_Chmod env path perm = on_info (chmod_err env path) (\<lambda>i. i\<lparr>fi_mode := (fi_mode i AND ModeType) OR perm\<rparr>) path"

definition new_info :: "os_env \<Rightarrow> u32 \<Rightarrow> file_info" where
  "new_info env mode = \<lparr>fi_mode = mode AND NOT (umask env), fi_uid = os_uid env, fi_gid = os_gid env\<rparr>"

definition os_Mkdir :: "os_env \<Rightarrow> gostring \<Rightarrow> u32 \<Rightarrow> os_state \<Rightarrow> os_state \<times> auth_error option" where
  "os_Mkdir env path perm st = (case mkdir_err env of
     Some err \<Rightarrow> (st, Some err)
   | None \<Rightarrow> if os_info st path \<noteq> None then (st, Some (AuthErr (lit ''file exists'')))
       else (st\<lparr>os_info := (os_info st)(path \<mapsto> (new_info env perm)\<lparr>fi_mode := ModeDir OR (perm AND NOT (umask env))\<rparr>)\<rparr>, None))"

definition opened :: "os_env \<Rightarrow> u32 \<Rightarrow> gostring \<Rightarrow> os_state \<Rightarrow> files \<times> auth_error option \<Rightarrow> os_state \<times> auth_error option" where
  \<comment> \<open>the attributes after \<^verbatim>\<open>os.OpenFile\<close> with \<^verbatim>\<open>O_CREATE\<close>, which leaves those of a file that exists\<close>
  "opened env perm path st r = (case r of (fs, err) \<Rightarrow>
     (st\<lparr>os_files := fs, os_info := (case (write_out env path, os_info st path) of
          (OpenFails _, _) \<Rightarrow> os_info st
        | (_, Some _) \<Rightarrow> os_info st
        | (_, None) \<Rightarrow> (os_info st)(path \<mapsto> new_info env perm))\<rparr>, err))"

subsection \<open>Private files\<close>

abbreviation (input) ErrNotDir :: auth_error where "ErrNotDir \<equiv> AuthErr (lit ''path is not a directory'')"

definition make_private :: "os_env \<Rightarrow> gostring \<Rightarrow> u32 \<Rightarrow> file_info \<Rightarrow> os_state \<Rightarrow> os_state \<times> auth_error option" where
  "make_private env path perm info st =
    (case (if os_unix env \<and> (fi_uid info \<noteq> os_uid env \<or> fi_gid info \<noteq> os_gid env)
         then os_Chown env path (os_uid env) (os_gid env) st else (st, None)) of
       (st, Some err) \<Rightarrow> (st, Some err)
     | (st, None) \<Rightarrow> if fi_mode info \<noteq> perm then os_Chmod env path perm st else (st, None))"

definition SetPrivFilePerm :: "os_env \<Rightarrow> gostring \<Rightarrow> bool list option \<Rightarrow> os_state \<Rightarrow> (os_state \<times> auth_error option) option" where
  \<comment> \<open>\<open>isDir\<close> is the variadic slice, \<open>None\<close> when no argument is given\<close>
  "SetPrivFilePerm env path isDir st = do {
     dir \<leftarrow> (case isDir of None \<Rightarrow> Some False | Some bs \<Rightarrow> nth_opt bs 0);
     let perm = (if dir then PermPrivDir else PermPrivFile);
     Some (case os_Stat (stat_err env path) path st of
       Inl err \<Rightarrow> (st, Some err)
     | Inr info \<Rightarrow>
       if dir \<and> \<not> fi_IsDir info then (st, Some ErrNotDir)
       else if os_uid env = - 1 \<or> os_gid env = - 1 then (st, None)
       else make_private env path perm info st) }"

subsection \<open>Loading or creating\<close>

record Certs =
  RootKey :: "byte list"
  RootCa :: Certificate
  ServerKey :: "byte list"
  ServerCert :: Certificate
  ClientKey :: "byte list"
  ClientCert :: Certificate

text \<open>
  The sections for a key and for a certificate are the same up to the type of what they load: \<open>from_file\<close>
  and \<open>to_file\<close> are its methods, and \<open>created\<close> is the result and error of the call that creates it.
\<close>

definition load_item :: "os_env \<Rightarrow> (auth_error option \<Rightarrow> gostring \<Rightarrow> files \<Rightarrow> 'a \<Rightarrow> 'a \<times> auth_error option) \<Rightarrow>
    (file_write \<Rightarrow> gostring \<Rightarrow> 'a \<Rightarrow> files \<Rightarrow> files \<times> auth_error option) \<Rightarrow> u32 \<Rightarrow> ('a \<times> auth_error option) option \<Rightarrow>
    gostring \<Rightarrow> 'a \<Rightarrow> os_state \<Rightarrow> ('a \<times> os_state \<times> auth_error option) option" where
  "load_item env from_file to_file perm created path x st = do {
     (st, err) \<leftarrow> SetPrivFilePerm env path None st;
     case err of
       None \<Rightarrow> Some (case from_file (read_err env path) path (os_files st) x of (x, err) \<Rightarrow> (x, st, err))
     | Some e \<Rightarrow>
       if \<not> os_IsNotExist e then Some (x, st, Some e)
       else do {
         (x, err) \<leftarrow> created;
         Some (if err \<noteq> None then (x, st, err)
           else case opened env perm path st (to_file (write_out env path) path x (os_files st)) of (st, err) \<Rightarrow> (x, st, err)) } }"

definition load_key :: "pem_codec \<Rightarrow> os_env \<Rightarrow> auth_error + byte list \<Rightarrow> gostring \<Rightarrow> byte list \<Rightarrow> os_state \<Rightarrow>
    (byte list \<times> os_state \<times> auth_error option) option" where
  "load_key pc env gen = load_item env (PrivateKey_FromFile pc) (PrivateKey_ToFile pc) PermPrivFile (Some (CreatePrivateKey gen))"

definition load_cert :: "pem_codec \<Rightarrow> os_env \<Rightarrow> (auth_error + byte list) option \<Rightarrow> gostring \<Rightarrow> Certificate \<Rightarrow> os_state \<Rightarrow>
    (Certificate \<times> os_state \<times> auth_error option) option" where
  \<comment> \<open>with the result of \<^verbatim>\<open>auth.CreateCertificate\<close>, which is nil with an error\<close>
  "load_cert pc env created = load_item env (Certificate_FromFile pc) (Certificate_ToFile pc) PermPublicFile
     (map_option (\<lambda>r. case r of Inl e \<Rightarrow> (None, Some e) | Inr der \<Rightarrow> (Some der, None)) created)"

definition no_options :: CertificateOptions where
  "no_options = \<lparr>o_Subject = empty_name, o_BucketIds = None, o_PublicKey = None, o_Expiry = None, o_DNSNames = None,
     o_IPAddresses = None, o_Type = Unset\<rparr>"

definition root_options :: "crypto \<Rightarrow> Certs \<Rightarrow> CertificateOptions" where
  "root_options cr c = no_options\<lparr>o_PublicKey := Some (PrivateKey_Public cr (RootKey c)),
     o_Subject := empty_name\<lparr>Organization := [lit ''The Web Mafia Ltd.''], OrganizationalUnit := [lit ''Log''],
       CommonName := lit ''webmafia.com''\<rparr>, o_Type := Root\<rparr>"

definition server_options :: "crypto \<Rightarrow> gostring \<Rightarrow> Certs \<Rightarrow> CertificateOptions" where
  "server_options cr domain c = no_options\<lparr>o_PublicKey := Some (PrivateKey_Public cr (ServerKey c)),
     o_DNSNames := Some [domain], o_IPAddresses := Some [localhost], o_Type := Server\<rparr>"

definition client_options :: "crypto \<Rightarrow> Certs \<Rightarrow> CertificateOptions" where
  "client_options cr c = no_options\<lparr>o_BucketIds := Some [123], o_PublicKey := Some (PrivateKey_Public cr (ClientKey c)),
     o_Type := Client\<rparr>"

text \<open>
  The six sections of \<^verbatim>\<open>LoadOrCreate\<close>. Each call that needs random numbers has its own: \<open>gen\<close> gives the
  generated keys and \<open>crs\<close> the library with the random ID of each certificate.
\<close>

type_synonym certs_step = "Certs \<Rightarrow> os_state \<Rightarrow> (Certs \<times> os_state \<times> auth_error option) option"

definition root_key_step :: "pem_codec \<Rightarrow> os_env \<Rightarrow> (nat \<Rightarrow> auth_error + byte list) \<Rightarrow> gostring \<Rightarrow> certs_step" where
  "root_key_step pc env gen dir c st = map_option (\<lambda>(k, st, err). (c\<lparr>RootKey := k\<rparr>, st, err))
     (load_key pc env (gen 0) (path_Join dir (lit ''root.key'')) (RootKey c) st)"

definition root_ca_step :: "pem_codec \<Rightarrow> os_env \<Rightarrow> (nat \<Rightarrow> crypto) \<Rightarrow> gostring \<Rightarrow> certs_step" where
  "root_ca_step pc env crs dir c st = map_option (\<lambda>(k, st, err). (c\<lparr>RootCa := k\<rparr>, st, err))
     (load_cert pc env (CreateCertificate (crs 0) (RootKey c) None [FromOptions (root_options (crs 0) c)])
       (path_Join dir (lit ''root.pem'')) (RootCa c) st)"

definition server_key_step :: "pem_codec \<Rightarrow> os_env \<Rightarrow> (nat \<Rightarrow> auth_error + byte list) \<Rightarrow> gostring \<Rightarrow> certs_step" where
  "server_key_step pc env gen dir c st = map_option (\<lambda>(k, st, err). (c\<lparr>ServerKey := k\<rparr>, st, err))
     (load_key pc env (gen 1) (path_Join dir (lit ''server.key'')) (ServerKey c) st)"

definition server_cert_step :: "pem_codec \<Rightarrow> os_env \<Rightarrow> (nat \<Rightarrow> crypto) \<Rightarrow> gostring \<Rightarrow> gostring \<Rightarrow> certs_step" where
  "server_cert_step pc env crs dir domain c st = map_option (\<lambda>(k, st, err). (c\<lparr>ServerCert := k\<rparr>, st, err))
     (load_cert pc env (CreateCertificate (crs 1) (RootKey c) (RootCa c) [FromOptions (server_options (crs 1) domain c)])
       (path_Join dir (lit ''server.pem'')) (ServerCert c) st)"

definition client_key_step :: "pem_codec \<Rightarrow> os_env \<Rightarrow> (nat \<Rightarrow> auth_error + byte list) \<Rightarrow> gostring \<Rightarrow> certs_step" where
  "client_key_step pc env gen dir c st = map_option (\<lambda>(k, st, err). (c\<lparr>ClientKey := k\<rparr>, st, err))
     (load_key pc env (gen 2) (path_Join dir (lit ''client.key'')) (ClientKey c) st)"

definition client_cert_step :: "pem_codec \<Rightarrow> os_env \<Rightarrow> (nat \<Rightarrow> crypto) \<Rightarrow> gostring \<Rightarrow> certs_step" where
  "client_cert_step pc env crs dir c st = map_option (\<lambda>(k, st, err). (c\<lparr>ClientCert := k\<rparr>, st, err))
     (load_cert pc env (CreateCertificate (crs 2) (RootKey c) (RootCa c) [FromOptions (client_options (crs 2) c)])
       (path_Join dir (lit ''client.pem'')) (ClientCert c) st)"

definition certs_dir :: "os_env \<Rightarrow> gostring \<Rightarrow> os_state \<Rightarrow> (os_state \<times> auth_error option) option" where
  \<comment> \<open>an error of \<open>SetPrivFilePerm\<close> other than a missing directory is overwritten by the next call\<close>
  "certs_dir env dir st = do {
     (st, err) \<leftarrow> SetPrivFilePerm env dir (Some [True]) st;
     let (st, err) = (case err of
         Some e \<Rightarrow> if os_IsNotExist e then os_Mkdir env dir PermPrivDir st else (st, None)
       | None \<Rightarrow> (st, None));
     Some (case err of
       Some e \<Rightarrow> (st, Some e)
     | None \<Rightarrow> (case os_Stat (dir_err env) dir st of
         Inl e \<Rightarrow> (st, Some e)
       | Inr info \<Rightarrow> (st, if fi_IsDir info then None else Some (AuthErr (lit ''certs: invalid directory''))))) }"

fun run_steps :: "certs_step list \<Rightarrow> certs_step" where
  "run_steps [] c st = Some (c, st, None)"
| "run_steps (s # ss) c st = do {
     (c, st, err) \<leftarrow> s c st;
     case err of Some e \<Rightarrow> Some (c, st, Some e) | None \<Rightarrow> run_steps ss c st }"

definition LoadOrCreate :: "pem_codec \<Rightarrow> os_env \<Rightarrow> (nat \<Rightarrow> auth_error + byte list) \<Rightarrow> (nat \<Rightarrow> crypto) \<Rightarrow> gostring \<Rightarrow> gostring \<Rightarrow> certs_step" where
  "LoadOrCreate pc env gen crs dir domain c st = run_steps
     [\<lambda>c st. map_option (\<lambda>(st, err). (c, st, err)) (certs_dir env dir st),
      root_key_step pc env gen dir, root_ca_step pc env crs dir,
      server_key_step pc env gen dir, server_cert_step pc env crs dir domain,
      client_key_step pc env gen dir, client_cert_step pc env crs dir] c st"

subsection \<open>The files of a directory have different paths\<close>

definition base_name :: "gostring \<Rightarrow> gostring" where
  "base_name p = rev (takeWhile (\<lambda>b. b \<noteq> slash) (rev p))"

definition plain_name :: "gostring \<Rightarrow> bool" where
  "plain_name n \<longleftrightarrow> n \<noteq> [] \<and> n \<noteq> lit ''.'' \<and> n \<noteq> lit ''..'' \<and> slash \<notin> set n"

lemma split_path_nonempty [simp]: "split_path p \<noteq> []"
  by (induction p) (auto split: list.split)

lemma split_path_plain: "slash \<notin> set n \<Longrightarrow> split_path n = [n]"
  by (induction n) auto

lemma split_path_append: "slash \<notin> set n \<Longrightarrow> split_path (d @ slash # n) = split_path d @ [n]"
proof (induction d)
  case (Cons b d)
  then show ?case by (cases "split_path d") auto
qed (simp add: split_path_plain)

lemma clean_parts_append: "clean_parts r (ps @ qs) acc = clean_parts r qs (rev (clean_parts r ps acc))"
  by (induction ps arbitrary: acc) (auto split: list.split)

lemma join_parts_snoc: "join_parts (xs @ [n]) = (if xs = [] then n else join_parts xs @ slash # n)"
  by (induction xs rule: join_parts.induct) simp_all

lemma base_name_append:
  assumes "slash \<notin> set n"
  shows "base_name (p @ slash # n) = n"
proof -
  have "takeWhile (\<lambda>b. b \<noteq> slash) (rev n @ slash # rev p) = rev n" using assms by (subst takeWhile_append2) auto
  then show ?thesis by (simp add: base_name_def)
qed

lemma base_name_plain:
  assumes "slash \<notin> set n"
  shows "base_name n = n"
proof -
  have "takeWhile (\<lambda>b. b \<noteq> slash) (rev n) = rev n" using assms by (subst takeWhile_eq_all_conv) auto
  then show ?thesis by (simp only: base_name_def rev_rev_ident)
qed

lemma base_name_Join:
  assumes "plain_name n"
  shows "base_name (path_Join d n) = n"
proof -
  have n: "n \<noteq> []" "slash \<notin> set n" using assms by (simp_all add: plain_name_def)
  have parts: "clean_parts r (ps @ [n]) [] = clean_parts r ps [] @ [n]" for r ps
    using assms by (simp add: clean_parts_append plain_name_def)
  have cl: "base_name (path_Clean p) = n" if "split_path p = ps @ [n]" "p \<noteq> []" for p ps
  proof -
    let ?x = "clean_parts (hd p = slash) ps []"
    have q: "join_parts (clean_parts (hd p = slash) (split_path p) []) = (if ?x = [] then n else join_parts ?x @ slash # n)"
      using that(1) by (simp add: parts join_parts_snoc)
    have "base_name (slash # n) = n" "base_name (slash # join_parts ?x @ slash # n) = n"
      using base_name_append [OF n(2), of "[]"] base_name_append [OF n(2), of "slash # join_parts ?x"] by simp_all
    then show ?thesis using that(2) n unfolding path_Clean_def q Let_def
      by (cases "hd p = slash") (simp_all add: base_name_append base_name_plain)
  qed
  show ?thesis
  proof (cases "d = []")
    case True
    with n cl [of n "[]"] show ?thesis by (simp add: path_Join_def split_path_plain)
  next
    case False
    with cl [of "d @ slash # n" "split_path d"] n show ?thesis by (simp add: path_Join_def split_path_append)
  qed
qed

lemma Join_neq: "plain_name n \<Longrightarrow> plain_name m \<Longrightarrow> n \<noteq> m \<Longrightarrow> path_Join d n \<noteq> path_Join d m"
  using base_name_Join by metis

lemma file_names:
  "plain_name (lit ''root.key'')" "plain_name (lit ''root.pem'')" "plain_name (lit ''server.key'')"
  "plain_name (lit ''server.pem'')" "plain_name (lit ''client.key'')" "plain_name (lit ''client.pem'')"
  by (simp_all add: plain_name_def lit_def)

lemma file_names_neq:
  "distinct [lit ''root.key'', lit ''root.pem'', lit ''server.key'', lit ''server.pem'', lit ''client.key'', lit ''client.pem'']"
  by (simp add: lit_def)

lemma paths_neq [simp]:
  "distinct [path_Join d (lit ''root.key''), path_Join d (lit ''root.pem''), path_Join d (lit ''server.key''),
     path_Join d (lit ''server.pem''), path_Join d (lit ''client.key''), path_Join d (lit ''client.pem'')]"
  using file_names_neq Join_neq file_names by simp

text \<open>No file of a directory has the path of the directory, since cleaning a clean path changes nothing.\<close>

fun cleaned :: "bool \<Rightarrow> gostring list \<Rightarrow> bool" where
  \<comment> \<open>the elements of a clean path, the last one first\<close>
  "cleaned r [] = True"
| "cleaned r (p # ps) \<longleftrightarrow> p \<noteq> [] \<and> p \<noteq> lit ''.'' \<and> slash \<notin> set p \<and> (p = lit ''..'' \<longrightarrow> \<not> r \<and> set ps \<subseteq> {lit ''..''}) \<and> cleaned r ps"

lemma clean_parts_cleaned:
  "cleaned r acc \<Longrightarrow> \<forall>p\<in>set ps. slash \<notin> set p \<Longrightarrow> cleaned r (rev (clean_parts r ps acc))"
proof (induction ps arbitrary: acc)
  case (Cons p ps)
  have "slash \<notin> set (lit ''..'')" "lit ''..'' \<noteq> []" "lit ''..'' \<noteq> lit ''.''" by (simp_all add: lit_def)
  with Cons show ?case by (cases acc) auto
qed simp

lemma clean_parts_id: "cleaned r (rev xs @ acc) \<Longrightarrow> clean_parts r xs acc = rev acc @ xs"
proof (induction xs arbitrary: acc)
  case (Cons x xs)
  have suf: "cleaned r (ys @ zs) \<Longrightarrow> cleaned r zs" for ys zs by (induction ys) simp_all
  have "cleaned r (x # acc)" using suf [of "rev xs" "x # acc"] Cons.prems by simp
  then have "clean_parts r (x # xs) acc = clean_parts r xs (x # acc)" by (cases acc) simp_all
  moreover have "clean_parts r xs (x # acc) = rev (x # acc) @ xs" using Cons.IH [of "x # acc"] Cons.prems by simp
  ultimately show ?case by simp
qed simp

lemma split_path_parts: "\<forall>p\<in>set (split_path d). slash \<notin> set p"
  by (induction d) (auto split: list.splits)

lemma split_path_join: "xs \<noteq> [] \<Longrightarrow> \<forall>p\<in>set xs. slash \<notin> set p \<Longrightarrow> split_path (join_parts xs) = xs"
proof (induction xs rule: rev_induct)
  case (snoc n xs)
  then show ?case by (cases "xs = []") (simp_all add: join_parts_snoc split_path_plain split_path_append)
qed simp

lemma Join_neq_dir:
  assumes "plain_name n"
  shows "path_Join d n \<noteq> d"
proof
  assume eq: "path_Join d n = d"
  have n: "n \<noteq> []" "slash \<notin> set n" using assms by (simp_all add: plain_name_def)
  have d: "d \<noteq> []" using eq n base_name_Join [OF assms, of "[]"] by (auto simp: base_name_def)
  let ?r = "hd d = slash"
  define x where "x = clean_parts ?r (split_path d) []"
  have c: "cleaned ?r (rev x)" unfolding x_def by (rule clean_parts_cleaned) (simp_all add: split_path_parts)
  have sl: "\<forall>p\<in>set (x @ [n]). slash \<notin> set p"
  proof -
    have "cleaned r ys \<Longrightarrow> \<forall>p\<in>set ys. slash \<notin> set p" for r ys by (induction ys) auto
    from this [OF c] n(2) show ?thesis by simp
  qed
  have cn: "cleaned ?r (rev (x @ [n]))" using c assms by (auto simp: plain_name_def)
  have "clean_parts ?r (split_path (d @ slash # n)) [] = x @ [n]"
    using assms n(2) by (simp add: split_path_append clean_parts_append plain_name_def x_def)
  moreover have "join_parts (x @ [n]) \<noteq> []" using n(1) by (simp add: join_parts_snoc)
  moreover have "hd (d @ slash # n) = hd d" using d by simp
  ultimately have "d = (if ?r then slash # join_parts (x @ [n]) else join_parts (x @ [n]))"
    using eq d by (cases ?r) (simp_all add: path_Join_def path_Clean_def Let_def)
  then have "split_path d = (if ?r then [] # (x @ [n]) else x @ [n])"
    using split_path_join [OF _ sl] by (metis append_is_Nil_conv not_Cons_self2 split_path.simps(2))
  then have "clean_parts ?r (split_path d) [] = clean_parts ?r (x @ [n]) []" by (cases ?r) simp_all
  moreover have "clean_parts ?r (x @ [n]) [] = x @ [n]" using clean_parts_id [of ?r "x @ [n]" "[]"] cn by (simp only: append_Nil append_Nil2 rev.simps(1))
  ultimately have "x = x @ [n]" unfolding x_def [symmetric] by (rule trans)
  then show False by simp
qed

subsection \<open>What the calls do to the files\<close>

definition dir_at :: "os_state \<Rightarrow> gostring \<Rightarrow> bool" where
  "dir_at st p \<longleftrightarrow> (\<exists>i. os_info st p = Some i \<and> fi_IsDir i)"

definition evolves :: "gostring \<Rightarrow> os_state \<Rightarrow> os_state \<Rightarrow> bool" where
  \<comment> \<open>nothing disappears or stops being a directory, and nothing but \<open>p\<close> changes\<close>
  "evolves p st st' \<longleftrightarrow> dom (os_info st) \<subseteq> dom (os_info st') \<and> (\<forall>q. dir_at st q \<longrightarrow> dir_at st' q) \<and>
     (\<forall>q. q \<noteq> p \<longrightarrow> os_info st' q = os_info st q \<and> os_files st' q = os_files st q)"

definition private_at :: "os_env \<Rightarrow> os_state \<Rightarrow> gostring \<Rightarrow> bool" where
  \<comment> \<open>owned by the user, without any permission for the group or others\<close>
  "private_at env st p \<longleftrightarrow> (\<exists>i. os_info st p = Some i \<and> fi_uid i = os_uid env \<and> fi_gid i = os_gid env \<and> fi_mode i AND 0x3F = 0)"

definition has_owners :: "os_env \<Rightarrow> bool" where
  "has_owners env \<longleftrightarrow> os_unix env \<and> 0 \<le> os_uid env \<and> 0 \<le> os_gid env"

lemma evolves_refl [simp]: "evolves p st st"
  by (simp add: evolves_def)

lemma evolves_trans: "evolves p st st' \<Longrightarrow> evolves p st' st'' \<Longrightarrow> evolves p st st''"
  by (fastforce simp: evolves_def)

lemma mode_bits:
  "m AND 0x80000000 \<noteq> 0 \<Longrightarrow> ((m AND 0x8F280000) OR perm) AND 0x80000000 \<noteq> (0 :: u32)"
  "perm AND 0x3F = 0 \<Longrightarrow> ((m AND 0x8F280000) OR perm) AND 0x3F = (0 :: u32)"
  by (simp_all add: bit.conj_disj_distrib2 and.assoc or_eq_0_iff)

lemma on_info_evolves:
  assumes "on_info fault f p st = (st', err)" "\<And>i. fi_IsDir i \<Longrightarrow> fi_IsDir (f i)"
  shows "evolves p st st'" "os_files st' = os_files st" "err = None \<Longrightarrow> \<exists>i. os_info st p = Some i \<and> os_info st' p = Some (f i)"
    "err \<noteq> None \<Longrightarrow> st' = st"
  using assms by (auto simp: on_info_def evolves_def dir_at_def split: option.splits)

lemma chown_evolves:
  assumes "os_Chown env p u g st = (st', err)"
  shows "evolves p st st'" "os_files st' = os_files st"
    "err = None \<Longrightarrow> \<exists>i. os_info st p = Some i \<and> os_info st' p = Some (i\<lparr>fi_uid := u, fi_gid := g\<rparr>)" "err \<noteq> None \<Longrightarrow> st' = st"
  using on_info_evolves [OF assms [unfolded os_Chown_def]] by (simp_all add: fi_IsDir_def)

lemma chmod_evolves:
  assumes "os_Chmod env p perm st = (st', err)"
  shows "evolves p st st'" "os_files st' = os_files st"
    "err = None \<Longrightarrow> \<exists>i. os_info st p = Some i \<and> os_info st' p = Some (i\<lparr>fi_mode := (fi_mode i AND ModeType) OR perm\<rparr>)" "err \<noteq> None \<Longrightarrow> st' = st"
  using on_info_evolves [OF assms [unfolded os_Chmod_def]] by (simp_all add: fi_IsDir_def mode_bits)

lemma make_private_evolves:
  assumes "make_private env p perm info st = (st', err)" "os_info st p = Some info" "perm AND 0x3F = 0"
  shows "evolves p st st' \<and> os_files st' = os_files st \<and> os_info st' p \<noteq> None \<and> (err = None \<longrightarrow> os_unix env \<longrightarrow> private_at env st' p)"
proof -
  obtain st1 e1 where 1: "(if os_unix env \<and> (fi_uid info \<noteq> os_uid env \<or> fi_gid info \<noteq> os_gid env)
      then os_Chown env p (os_uid env) (os_gid env) st else (st, None)) = (st1, e1)" by force
  have g1: "evolves p st st1" "os_files st1 = os_files st"
    using 1 chown_evolves(1,2) [of env p "os_uid env" "os_gid env" st st1 e1] by (auto split: if_splits)
  have i1: "e1 = None \<Longrightarrow> os_unix env \<Longrightarrow> \<exists>i. os_info st1 p = Some i \<and> fi_uid i = os_uid env \<and> fi_gid i = os_gid env \<and> fi_mode i = fi_mode info"
    using 1 assms(2) chown_evolves(3) [of env p "os_uid env" "os_gid env" st st1 e1] by (auto split: if_splits)
  have x1: "os_info st1 p \<noteq> None" using g1(1) assms(2) by (auto simp: evolves_def)
  show ?thesis
  proof (cases "e1 = None \<and> fi_mode info \<noteq> perm")
    case True
    then have c: "os_Chmod env p perm st1 = (st', err)" using assms(1) 1 by (simp add: make_private_def)
    note m = chmod_evolves [OF c]
    have "private_at env st' p" if "err = None" "os_unix env"
      using m(3) [OF that(1)] i1 [OF _ that(2)] True mode_bits(2) [OF assms(3)] by (auto simp: private_at_def)
    moreover have "os_info st' p \<noteq> None" using m(1) x1 by (auto simp: evolves_def)
    ultimately show ?thesis using evolves_trans [OF g1(1) m(1)] g1(2) m(2) by simp
  next
    case False
    then have "st' = st1" "err = e1" using assms(1) 1 by (auto simp: make_private_def split: option.splits)
    with g1 x1 i1 False assms(3) show ?thesis by (auto simp: private_at_def)
  qed
qed

lemma SetPriv_total: "\<exists>st' err. SetPrivFilePerm env p None st = Some (st', err)" "\<exists>st' err. SetPrivFilePerm env p (Some [True]) st = Some (st', err)"
  by (simp_all add: SetPrivFilePerm_def Let_def prod_eq_iff [symmetric])

lemma SetPriv_evolves:
  assumes "SetPrivFilePerm env p isDir st = Some (st', err)"
  shows "evolves p st st'" "os_files st' = os_files st" "err = None \<Longrightarrow> os_info st' p \<noteq> None"
    "err = None \<Longrightarrow> has_owners env \<Longrightarrow> private_at env st' p"
proof -
  obtain dir where dir: "(case os_Stat (stat_err env p) p st of
       Inl err \<Rightarrow> (st, Some err)
     | Inr info \<Rightarrow> if dir \<and> \<not> fi_IsDir info then (st, Some ErrNotDir)
       else if os_uid env = - 1 \<or> os_gid env = - 1 then (st, None)
       else make_private env p (if dir then PermPrivDir else PermPrivFile) info st) = (st', err)"
    using assms by (auto simp: SetPrivFilePerm_def Let_def bind_eq_Some_conv)
  have perm: "(if dir then PermPrivDir else PermPrivFile) AND 0x3F = 0" by simp
  have "evolves p st st' \<and> os_files st' = os_files st \<and> (err = None \<longrightarrow> os_info st' p \<noteq> None) \<and>
    (err = None \<longrightarrow> has_owners env \<longrightarrow> private_at env st' p)"
  proof (cases "os_Stat (stat_err env p) p st")
    case (Inl e)
    with dir show ?thesis by auto
  next
    case (Inr info)
    then have i: "os_info st p = Some info" by (auto simp: os_Stat_def split: option.splits)
    show ?thesis
    proof (cases "make_private env p (if dir then PermPrivDir else PermPrivFile) info st = (st', err)")
      case True
      from make_private_evolves [OF True i perm] show ?thesis by (simp add: has_owners_def)
    next
      case False
      with dir Inr i show ?thesis by (auto simp: has_owners_def split: if_splits)
    qed
  qed
  then show "evolves p st st'" "os_files st' = os_files st" "err = None \<Longrightarrow> os_info st' p \<noteq> None"
    "err = None \<Longrightarrow> has_owners env \<Longrightarrow> private_at env st' p" by blast+
qed

lemma SetPriv_missing:
  assumes "SetPrivFilePerm env p isDir st = Some (st', Some ErrNoEntry)"
    "stat_err env p \<noteq> Some ErrNoEntry" "chown_err env p \<noteq> Some ErrNoEntry" "chmod_err env p \<noteq> Some ErrNoEntry"
  shows "os_info st p = None"
proof (rule ccontr)
  assume "os_info st p \<noteq> None"
  then obtain i where i: "os_info st p = Some i" by blast
  have ne: "ErrNoEntry \<noteq> ErrNotDir" by (simp add: lit_def)
  obtain perm where "make_private env p perm i st = (st', Some ErrNoEntry)"
    using assms(1,2) i ne by (auto simp: SetPrivFilePerm_def Let_def bind_eq_Some_conv os_Stat_def split: option.splits if_splits)
  then show False using i assms(3,4)
    by (auto simp: make_private_def os_Chown_def os_Chmod_def on_info_def split: option.splits if_splits prod.splits)
qed

definition calm :: "os_env \<Rightarrow> bool" where
  \<comment> \<open>the operating system refuses nothing\<close>
  "calm env \<longleftrightarrow> (\<forall>p. stat_err env p = None \<and> chown_err env p = None \<and> chmod_err env p = None \<and> read_err env p = None \<and>
     write_out env p = WriteDone) \<and> dir_err env = None \<and> mkdir_err env = None"

lemma SetPriv_calm:
  assumes "calm env" "os_info st p = Some i" "isDir = None \<or> (isDir = Some [True] \<and> fi_IsDir i)"
  shows "\<exists>st'. SetPrivFilePerm env p isDir st = Some (st', None)"
proof -
  have "\<exists>st'. make_private env p perm i st = (st', None)" for perm
    using assms(1,2) by (auto simp: make_private_def os_Chown_def os_Chmod_def on_info_def calm_def)
  then show ?thesis using assms by (auto simp: SetPrivFilePerm_def os_Stat_def calm_def)
qed

subsection \<open>What is stored in a file\<close>

locale file_item =
  fixes from_file :: "auth_error option \<Rightarrow> gostring \<Rightarrow> files \<Rightarrow> 'a \<Rightarrow> 'a \<times> auth_error option"
    and to_file :: "file_write \<Rightarrow> gostring \<Rightarrow> 'a \<Rightarrow> files \<Rightarrow> files \<times> auth_error option"
    and storable :: "'a \<Rightarrow> bool"
  assumes read_back: "storable x \<Longrightarrow> to_file w p x fs = (fs', None) \<Longrightarrow> from_file None p fs' y = (x, None)"
    and writes: "\<exists>fs'. to_file WriteDone p x fs = (fs', None)"
    and writes_one: "to_file w p x fs = (fs', err) \<Longrightarrow> q \<noteq> p \<Longrightarrow> fs' q = fs q"
    and writes_fully: "to_file w p x fs = (fs', None) \<Longrightarrow> w = WriteDone"
    and reads_value: "from_file e p fs y = (x, None) \<Longrightarrow> from_file None p fs z = (x, None)"
    and reads_one: "fs' p = fs p \<Longrightarrow> from_file e p fs' y = from_file e p fs y"
begin

definition holds :: "os_state \<Rightarrow> gostring \<Rightarrow> 'a \<Rightarrow> bool" where
  "holds st p x \<longleftrightarrow> os_info st p \<noteq> None \<and> (\<forall>y. from_file None p (os_files st) y = (x, None))"

lemma holds_other: "holds st q x \<Longrightarrow> evolves p st st' \<Longrightarrow> q \<noteq> p \<Longrightarrow> holds st' q x"
  using reads_one [of "os_files st'" q "os_files st"] by (auto simp: holds_def evolves_def)

lemma holds_same: "holds st q x \<Longrightarrow> os_files st' = os_files st \<Longrightarrow> evolves p st st' \<Longrightarrow> holds st' q x"
  by (auto simp: holds_def evolves_def)

lemma load_cases:
  assumes "load_item env from_file to_file perm created p x st = Some (y, st', None)"
  obtains (Loaded) "SetPrivFilePerm env p None st = Some (st', None)" "from_file (read_err env p) p (os_files st') x = (y, None)"
  | (Created) st1 fs where "SetPrivFilePerm env p None st = Some (st1, Some ErrNoEntry)" "created = Some (y, None)"
      "to_file WriteDone p y (os_files st1) = (fs, None)" "write_out env p = WriteDone"
      "st' = st1\<lparr>os_files := fs, os_info := (case os_info st1 p of Some _ \<Rightarrow> os_info st1 | None \<Rightarrow> (os_info st1)(p \<mapsto> new_info env perm))\<rparr>"
proof -
  obtain st1 err where s: "SetPrivFilePerm env p None st = Some (st1, err)" using SetPriv_total(1) by blast
  show thesis
  proof (cases err)
    case None
    then show thesis using Loaded assms s by (auto simp: load_item_def split: prod.splits)
  next
    case (Some e)
    then have e: "e = ErrNoEntry" using assms s by (auto simp: load_item_def os_IsNotExist_def split: if_splits)
    obtain fs where c: "created = Some (y, None)" "to_file (write_out env p) p y (os_files st1) = (fs, None)"
      "opened env perm p st1 (fs, None) = (st', None)"
      using assms s Some by (auto simp: load_item_def opened_def bind_eq_Some_conv split: if_splits prod.splits)
    have w: "write_out env p = WriteDone" using writes_fully [OF c(2)] .
    with c(3) have "st' = st1\<lparr>os_files := fs, os_info := (case os_info st1 p of Some _ \<Rightarrow> os_info st1 | None \<Rightarrow> (os_info st1)(p \<mapsto> new_info env perm))\<rparr>"
      by (auto simp: opened_def split: option.splits)
    with Created [of st1 fs] s Some e c(1,2) w show thesis by simp
  qed
qed

lemma load_evolves:
  assumes "load_item env from_file to_file perm created p x st = Some (y, st', None)"
  shows "evolves p st st'"
  using assms
proof (cases rule: load_cases)
  case Loaded
  from SetPriv_evolves(1) [OF Loaded(1)] show ?thesis .
next
  case (Created st1 fs)
  have "evolves p st1 st'"
    using Created(5) writes_one [OF Created(3)] by (auto simp: evolves_def dir_at_def split: option.splits)
  with SetPriv_evolves(1) [OF Created(1)] show ?thesis by (rule evolves_trans)
qed

lemma load_holds:
  assumes "load_item env from_file to_file perm created p x st = Some (y, st', None)" "\<forall>v. created = Some (v, None) \<longrightarrow> storable v"
  shows "holds st' p y"
  using assms(1)
proof (cases rule: load_cases)
  case Loaded
  then show ?thesis using reads_value [OF Loaded(2)] SetPriv_evolves(3) [OF Loaded(1)] by (simp add: holds_def)
next
  case (Created st1 fs)
  have "storable y" using assms(2) Created(2) by simp
  then show ?thesis using Created(5) read_back [OF _ Created(3)] by (auto simp: holds_def split: option.splits)
qed

lemma load_missing:
  assumes "load_item env from_file to_file perm created p x st = Some (y, st', None)" "os_info st p = None"
  shows "created = Some (y, None)"
  using assms(1)
proof (cases rule: load_cases)
  case Loaded
  then show ?thesis using assms(2) by (auto simp: SetPrivFilePerm_def Let_def os_Stat_def split: option.splits)
qed

lemma load_creates:
  assumes "calm env" "os_info st p = None" "created = Some (y, None)"
  shows "\<exists>st'. load_item env from_file to_file perm created p x st = Some (y, st', None) \<and> evolves p st st'"
proof -
  have "SetPrivFilePerm env p None st = Some (st, Some ErrNoEntry)"
    using assms(1,2) by (simp add: SetPrivFilePerm_def Let_def os_Stat_def calm_def)
  moreover have "write_out env p = WriteDone" using assms(1) by (simp add: calm_def)
  then obtain fs' where "to_file (write_out env p) p y (os_files st) = (fs', None)" using writes [of p y "os_files st"] by auto
  ultimately have "\<exists>st'. load_item env from_file to_file perm created p x st = Some (y, st', None)"
    using assms(3) by (simp add: load_item_def os_IsNotExist_def opened_def)
  then show ?thesis using load_evolves by blast
qed

lemma load_again:
  assumes "holds st p y" "calm env"
  shows "\<exists>st'. load_item env from_file to_file perm created p x st = Some (y, st', None) \<and> os_files st' = os_files st \<and> evolves p st st'"
proof -
  obtain i where "os_info st p = Some i" using assms(1) by (auto simp: holds_def)
  then obtain st' where st': "SetPrivFilePerm env p None st = Some (st', None)" using SetPriv_calm [OF assms(2), of st p i None] by blast
  note g = SetPriv_evolves(1,2) [OF st']
  have "from_file (read_err env p) p (os_files st') x = (y, None)" using assms g(2) by (simp add: holds_def calm_def)
  with st' g show ?thesis by (simp add: load_item_def)
qed

lemma load_private:
  assumes "load_item env from_file to_file perm created p x st = Some (y, st', None)" "has_owners env" "perm AND 0x3F = 0"
    "stat_err env p \<noteq> Some ErrNoEntry" "chown_err env p \<noteq> Some ErrNoEntry" "chmod_err env p \<noteq> Some ErrNoEntry"
  shows "private_at env st' p"
  using assms(1)
proof (cases rule: load_cases)
  case Loaded
  from SetPriv_evolves(4) [OF Loaded(1)] assms(2) show ?thesis by simp
next
  case (Created st1 fs)
  have "os_info st p = None" using SetPriv_missing [OF Created(1) assms(4-6)] .
  moreover from this have "st1 = st" using Created(1)
    by (auto simp: SetPrivFilePerm_def Let_def os_Stat_def split: option.splits)
  ultimately have "os_info st' p = Some (new_info env perm)" using Created(5) by simp
  moreover have "(perm AND NOT (umask env)) AND 0x3F = NOT (umask env) AND (perm AND 0x3F)" by (simp only: and.assoc and.commute and.left_commute)
  then have "(perm AND NOT (umask env)) AND 0x3F = 0" using assms(3) by simp
  ultimately show ?thesis by (simp add: private_at_def new_info_def)
qed

end

interpretation key_file: file_item "PrivateKey_FromFile pc" "PrivateKey_ToFile pc" "\<lambda>_. pem_ok pc" for pc
proof unfold_locales
  fix x w p fs fs' y
  assume "pem_ok pc" "PrivateKey_ToFile pc w p x fs = (fs', None)"
  then show "PrivateKey_FromFile pc None p fs' y = (x, None)"
    by (auto simp: PrivateKey_FromFile_def PrivateKey_ToFile_def write_file_def read_file_def pem_roundtrip split: file_write.splits)
next
  fix e p fs y x z
  assume "PrivateKey_FromFile pc e p fs y = (x, None)"
  then show "PrivateKey_FromFile pc None p fs z = (x, None)"
    by (auto simp: PrivateKey_FromFile_def PrivateKey_DecodePEM_def read_file_def split: option.splits sum.splits if_splits)
qed (auto simp: PrivateKey_FromFile_def PrivateKey_ToFile_def write_file_def read_file_def split: file_write.splits)

interpretation cert_file: file_item "Certificate_FromFile pc" "Certificate_ToFile pc" "\<lambda>c. pem_ok pc \<and> c \<noteq> None" for pc
proof unfold_locales
  fix x w p fs fs' y
  assume "pem_ok pc \<and> x \<noteq> None" "Certificate_ToFile pc w p x fs = (fs', None)"
  then show "Certificate_FromFile pc None p fs' y = (x, None)"
    by (auto simp: Certificate_FromFile_def Certificate_ToFile_def write_file_def read_file_def pem_roundtrip split: file_write.splits)
next
  fix e p fs y x z
  assume "Certificate_FromFile pc e p fs y = (x, None)"
  then show "Certificate_FromFile pc None p fs z = (x, None)"
    by (auto simp: Certificate_FromFile_def Certificate_DecodePEM_def read_file_def split: option.splits sum.splits if_splits)
qed (auto simp: Certificate_FromFile_def Certificate_ToFile_def write_file_def read_file_def split: file_write.splits)

subsection \<open>Runs of LoadOrCreate\<close>

lemma certs_dir_evolves:
  assumes "certs_dir env dir st = Some (st', None)"
  shows "evolves dir st st'" "os_files st' = os_files st" "dir_at st' dir"
proof -
  obtain st1 err where s: "SetPrivFilePerm env dir (Some [True]) st = Some (st1, err)" using SetPriv_total(2) by blast
  note g = SetPriv_evolves(1,2) [OF s]
  let ?m = "case err of Some e \<Rightarrow> if os_IsNotExist e then os_Mkdir env dir PermPrivDir st1 else (st1, None) | None \<Rightarrow> (st1, None)"
  obtain st2 e2 where m: "?m = (st2, e2)" by force
  have m2: "evolves dir st1 st2" "os_files st2 = os_files st1"
    using m by (auto simp: os_Mkdir_def evolves_def dir_at_def split: option.splits if_splits)
  have "st' = st2" "dir_at st2 dir"
    using assms s m by (auto simp: certs_dir_def os_Stat_def dir_at_def split: option.splits sum.splits if_splits)
  with evolves_trans [OF g(1) m2(1)] g(2) m2(2) show "evolves dir st st'" "os_files st' = os_files st" "dir_at st' dir" by simp_all
qed

lemma certs_dir_calm:
  assumes "calm env" "dir_at st dir"
  shows "\<exists>st'. certs_dir env dir st = Some (st', None) \<and> os_files st' = os_files st \<and> evolves dir st st'"
proof -
  obtain i where "os_info st dir = Some i" "fi_IsDir i" using assms(2) by (auto simp: dir_at_def)
  then obtain st' where st': "SetPrivFilePerm env dir (Some [True]) st = Some (st', None)"
    using SetPriv_calm [OF assms(1), of st dir i "Some [True]"] by blast
  note g = SetPriv_evolves(1,2) [OF st']
  then have "dir_at st' dir" using assms(2) by (simp add: evolves_def)
  with st' g assms(1) show ?thesis by (auto simp: certs_dir_def os_Stat_def dir_at_def calm_def)
qed

lemmas step_defs = root_key_step_def root_ca_step_def server_key_step_def server_cert_step_def client_key_step_def client_cert_step_def

definition certs_run :: "pem_codec \<Rightarrow> os_env \<Rightarrow> (nat \<Rightarrow> auth_error + byte list) \<Rightarrow> (nat \<Rightarrow> crypto) \<Rightarrow> gostring \<Rightarrow> gostring \<Rightarrow>
    Certs \<Rightarrow> Certs \<Rightarrow> os_state list \<Rightarrow> bool" where
  \<comment> \<open>the states before and after each section of a run without an error\<close>
  "certs_run pc env gen crs dir domain c c' ss \<longleftrightarrow> length ss = 8 \<and> certs_dir env dir (ss ! 0) = Some (ss ! 1, None) \<and>
     load_key pc env (gen 0) (path_Join dir (lit ''root.key'')) (RootKey c) (ss ! 1) = Some (RootKey c', ss ! 2, None) \<and>
     load_cert pc env (CreateCertificate (crs 0) (RootKey c') None [FromOptions (root_options (crs 0) c')])
       (path_Join dir (lit ''root.pem'')) (RootCa c) (ss ! 2) = Some (RootCa c', ss ! 3, None) \<and>
     load_key pc env (gen 1) (path_Join dir (lit ''server.key'')) (ServerKey c) (ss ! 3) = Some (ServerKey c', ss ! 4, None) \<and>
     load_cert pc env (CreateCertificate (crs 1) (RootKey c') (RootCa c') [FromOptions (server_options (crs 1) domain c')])
       (path_Join dir (lit ''server.pem'')) (ServerCert c) (ss ! 4) = Some (ServerCert c', ss ! 5, None) \<and>
     load_key pc env (gen 2) (path_Join dir (lit ''client.key'')) (ClientKey c) (ss ! 5) = Some (ClientKey c', ss ! 6, None) \<and>
     load_cert pc env (CreateCertificate (crs 2) (RootKey c') (RootCa c') [FromOptions (client_options (crs 2) c')])
       (path_Join dir (lit ''client.pem'')) (ClientCert c) (ss ! 6) = Some (ClientCert c', ss ! 7, None)"

lemma run_steps_Cons:
  "run_steps (s # ss) c st = Some (c', st', None) \<longleftrightarrow> (\<exists>c1 st1. s c st = Some (c1, st1, None) \<and> run_steps ss c1 st1 = Some (c', st', None))"
  by (auto simp: bind_eq_Some_conv split: option.splits)

lemma options_frame:
  "RootKey c = RootKey c' \<Longrightarrow> root_options cr c = root_options cr c'" "ServerKey c = ServerKey c' \<Longrightarrow> server_options cr d c = server_options cr d c'"
  "ClientKey c = ClientKey c' \<Longrightarrow> client_options cr c = client_options cr c'"
  by (simp_all add: root_options_def server_options_def client_options_def)

lemma LoadOrCreate_run:
  "LoadOrCreate pc env gen crs dir domain c st = Some (c', st', None) \<longleftrightarrow>
    (\<exists>ss. certs_run pc env gen crs dir domain c c' ss \<and> ss ! 0 = st \<and> ss ! 7 = st')"
proof
  assume "LoadOrCreate pc env gen crs dir domain c st = Some (c', st', None)"
  then obtain s1 k1 s2 a1 s3 k2 s4 a2 s5 k3 s6 a3 where r: "certs_dir env dir st = Some (s1, None)"
    "load_key pc env (gen 0) (path_Join dir (lit ''root.key'')) (RootKey c) s1 = Some (k1, s2, None)"
    "load_cert pc env (CreateCertificate (crs 0) k1 None [FromOptions (root_options (crs 0) (c\<lparr>RootKey := k1\<rparr>))])
       (path_Join dir (lit ''root.pem'')) (RootCa c) s2 = Some (a1, s3, None)"
    "load_key pc env (gen 1) (path_Join dir (lit ''server.key'')) (ServerKey c) s3 = Some (k2, s4, None)"
    "load_cert pc env (CreateCertificate (crs 1) k1 a1 [FromOptions (server_options (crs 1) domain (c\<lparr>RootKey := k1, RootCa := a1, ServerKey := k2\<rparr>))])
       (path_Join dir (lit ''server.pem'')) (ServerCert c) s4 = Some (a2, s5, None)"
    "load_key pc env (gen 2) (path_Join dir (lit ''client.key'')) (ClientKey c) s5 = Some (k3, s6, None)"
    "load_cert pc env (CreateCertificate (crs 2) k1 a1
        [FromOptions (client_options (crs 2) (c\<lparr>RootKey := k1, RootCa := a1, ServerKey := k2, ServerCert := a2, ClientKey := k3\<rparr>))])
       (path_Join dir (lit ''client.pem'')) (ClientCert c) s6 = Some (a3, st', None)"
    "c' = c\<lparr>RootKey := k1, RootCa := a1, ServerKey := k2, ServerCert := a2, ClientKey := k3, ClientCert := a3\<rparr>"
    unfolding LoadOrCreate_def run_steps_Cons step_defs by auto
  then have "certs_run pc env gen crs dir domain c c' [st, s1, s2, s3, s4, s5, s6, st']"
    using options_frame [of "c\<lparr>RootKey := k1\<rparr>" c'] options_frame [of "c\<lparr>RootKey := k1, RootCa := a1, ServerKey := k2\<rparr>" c']
      options_frame [of "c\<lparr>RootKey := k1, RootCa := a1, ServerKey := k2, ServerCert := a2, ClientKey := k3\<rparr>" c']
    by (simp add: certs_run_def numeral_eq_Suc)
  then show "\<exists>ss. certs_run pc env gen crs dir domain c c' ss \<and> ss ! 0 = st \<and> ss ! 7 = st'"
    by (intro exI [of _ "[st, s1, s2, s3, s4, s5, s6, st']"]) (simp add: numeral_eq_Suc)
next
  assume "\<exists>ss. certs_run pc env gen crs dir domain c c' ss \<and> ss ! 0 = st \<and> ss ! 7 = st'"
  then obtain ss where r: "certs_run pc env gen crs dir domain c c' ss" "ss ! 0 = st" "ss ! 7 = st'" by blast
  let ?c1 = "c\<lparr>RootKey := RootKey c'\<rparr>"
  let ?c3 = "c\<lparr>RootKey := RootKey c', RootCa := RootCa c', ServerKey := ServerKey c'\<rparr>"
  let ?c5 = "c\<lparr>RootKey := RootKey c', RootCa := RootCa c', ServerKey := ServerKey c', ServerCert := ServerCert c', ClientKey := ClientKey c'\<rparr>"
  have opts: "root_options (crs 0) ?c1 = root_options (crs 0) c'" "server_options (crs 1) domain ?c3 = server_options (crs 1) domain c'"
    "client_options (crs 2) ?c5 = client_options (crs 2) c'" by (rule options_frame; simp)+
  have c': "?c5\<lparr>ClientCert := ClientCert c'\<rparr> = c'" by simp
  show "LoadOrCreate pc env gen crs dir domain c st = Some (c', st', None)"
    using r opts c' unfolding LoadOrCreate_def certs_run_def step_defs by simp
qed

lemma load_section_evolves:
  "load_key pc env gen p x st = Some (y, st', None) \<Longrightarrow> evolves p st st'"
  "load_cert pc env created p a st = Some (b, st', None) \<Longrightarrow> evolves p st st'"
  unfolding load_key_def load_cert_def by (rule key_file.load_evolves cert_file.load_evolves; assumption)+

lemma load_section_holds:
  assumes "pem_ok pc"
  shows "load_key pc env gen p x st = Some (y, st', None) \<Longrightarrow> key_file.holds pc st' p y"
    "load_cert pc env created p a st = Some (b, st', None) \<Longrightarrow> cert_file.holds pc st' p b"
proof -
  show "key_file.holds pc st' p y" if "load_key pc env gen p x st = Some (y, st', None)"
    using key_file.load_holds [OF that [unfolded load_key_def]] assms by simp
  show "cert_file.holds pc st' p b" if "load_cert pc env created p a st = Some (b, st', None)"
    by (rule cert_file.load_holds [OF that [unfolded load_cert_def]]) (use assms in \<open>auto split: sum.split_asm\<close>)
qed

definition certs_stored :: "pem_codec \<Rightarrow> gostring \<Rightarrow> Certs \<Rightarrow> os_state \<Rightarrow> bool" where
  "certs_stored pc dir c st \<longleftrightarrow> dir_at st dir \<and>
     key_file.holds pc st (path_Join dir (lit ''root.key'')) (RootKey c) \<and> cert_file.holds pc st (path_Join dir (lit ''root.pem'')) (RootCa c) \<and>
     key_file.holds pc st (path_Join dir (lit ''server.key'')) (ServerKey c) \<and> cert_file.holds pc st (path_Join dir (lit ''server.pem'')) (ServerCert c) \<and>
     key_file.holds pc st (path_Join dir (lit ''client.key'')) (ClientKey c) \<and> cert_file.holds pc st (path_Join dir (lit ''client.pem'')) (ClientCert c)"

lemma evolves_dir_at: "evolves p st st' \<Longrightarrow> dir_at st q \<Longrightarrow> dir_at st' q"
  by (simp add: evolves_def)

lemma private_other: "evolves p st st' \<Longrightarrow> q \<noteq> p \<Longrightarrow> private_at env st' q = private_at env st q"
  by (simp add: private_at_def evolves_def)

lemma run_evolves:
  assumes "certs_run pc env gen crs dir domain c c' ss"
  shows "dir_at (ss ! 7) dir" "evolves (path_Join dir (lit ''root.key'')) (ss ! 1) (ss ! 2)" "evolves (path_Join dir (lit ''root.pem'')) (ss ! 2) (ss ! 3)"
    "evolves (path_Join dir (lit ''server.key'')) (ss ! 3) (ss ! 4)" "evolves (path_Join dir (lit ''server.pem'')) (ss ! 4) (ss ! 5)"
    "evolves (path_Join dir (lit ''client.key'')) (ss ! 5) (ss ! 6)" "evolves (path_Join dir (lit ''client.pem'')) (ss ! 6) (ss ! 7)"
proof -
  show g: "evolves (path_Join dir (lit ''root.key'')) (ss ! 1) (ss ! 2)" "evolves (path_Join dir (lit ''root.pem'')) (ss ! 2) (ss ! 3)"
    "evolves (path_Join dir (lit ''server.key'')) (ss ! 3) (ss ! 4)" "evolves (path_Join dir (lit ''server.pem'')) (ss ! 4) (ss ! 5)"
    "evolves (path_Join dir (lit ''client.key'')) (ss ! 5) (ss ! 6)" "evolves (path_Join dir (lit ''client.pem'')) (ss ! 6) (ss ! 7)"
    using assms unfolding certs_run_def by (blast intro: load_section_evolves)+
  have "dir_at (ss ! 1) dir" using assms certs_dir_evolves(3) unfolding certs_run_def by blast
  then show "dir_at (ss ! 7) dir" using g by (auto dest!: evolves_dir_at)
qed

lemma run_stored:
  assumes "certs_run pc env gen crs dir domain c c' ss" "pem_ok pc"
  shows "certs_stored pc dir c' (ss ! 7)"
proof -
  note g = run_evolves(2-) [OF assms(1)]
  note d = paths_neq [of dir, simplified]
  have "key_file.holds pc (ss ! 2) (path_Join dir (lit ''root.key'')) (RootKey c')" "cert_file.holds pc (ss ! 3) (path_Join dir (lit ''root.pem'')) (RootCa c')"
    "key_file.holds pc (ss ! 4) (path_Join dir (lit ''server.key'')) (ServerKey c')" "cert_file.holds pc (ss ! 5) (path_Join dir (lit ''server.pem'')) (ServerCert c')"
    "key_file.holds pc (ss ! 6) (path_Join dir (lit ''client.key'')) (ClientKey c')" "cert_file.holds pc (ss ! 7) (path_Join dir (lit ''client.pem'')) (ClientCert c')"
    using assms unfolding certs_run_def by (blast intro: load_section_holds)+
  moreover have "dir_at (ss ! 7) dir" using run_evolves(1) [OF assms(1)] .
  ultimately show ?thesis unfolding certs_stored_def
    using key_file.holds_other [OF key_file.holds_other [OF key_file.holds_other [OF key_file.holds_other [OF key_file.holds_other [OF _ g(2)] g(3)] g(4)] g(5)] g(6)]
      cert_file.holds_other [OF cert_file.holds_other [OF cert_file.holds_other [OF cert_file.holds_other [OF _ g(3)] g(4)] g(5)] g(6)]
      key_file.holds_other [OF key_file.holds_other [OF key_file.holds_other [OF _ g(4)] g(5)] g(6)]
      cert_file.holds_other [OF cert_file.holds_other [OF _ g(5)] g(6)] key_file.holds_other [OF _ g(6)] d by simp
qed

lemma stored_same:
  assumes "certs_stored pc dir c st" "os_files st' = os_files st" "evolves p st st'"
  shows "certs_stored pc dir c st'"
  using assms key_file.holds_same [OF _ assms(2,3)] cert_file.holds_same [OF _ assms(2,3)] evolves_dir_at [OF assms(3)]
  by (simp add: certs_stored_def)

lemma stored_again:
  assumes "certs_stored pc dir c st" "calm env"
  shows "key_file.holds pc st p k \<Longrightarrow> \<exists>st'. load_key pc env gen p x st = Some (k, st', None) \<and> certs_stored pc dir c st' \<and> os_files st' = os_files st"
    "cert_file.holds pc st p a \<Longrightarrow> \<exists>st'. load_cert pc env created p y st = Some (a, st', None) \<and> certs_stored pc dir c st' \<and> os_files st' = os_files st"
  using key_file.load_again [OF _ assms(2)] cert_file.load_again [OF _ assms(2)] stored_same [OF assms(1)]
  unfolding load_key_def load_cert_def by meson+

text \<open>
  C15: what \<open>LoadOrCreate\<close> has once loaded or created, it loads again: after a run without an error,
  every later run on the same directory, with other random numbers and by whatever user, returns
  the same keys and certificates and changes no file, as long as the operating system refuses
  nothing.
\<close>

theorem LoadOrCreate_reload:
  assumes "LoadOrCreate pc env gen crs dir domain c st = Some (c', st', None)" and "pem_ok pc" and "calm env'"
  shows "\<exists>st''. LoadOrCreate pc env' gen' crs' dir domain' d st' = Some (c', st'', None) \<and> os_files st'' = os_files st'"
proof -
  obtain ss where "certs_run pc env gen crs dir domain c c' ss" "ss ! 7 = st'" using assms(1) by (auto simp: LoadOrCreate_run)
  then have st: "certs_stored pc dir c' st'" using run_stored [OF _ assms(2)] by blast
  note again = stored_again [OF _ assms(3)]
  obtain s1 where s1: "certs_dir env' dir st' = Some (s1, None)" "os_files s1 = os_files st'" "certs_stored pc dir c' s1"
    using certs_dir_calm [OF assms(3), of st' dir] st stored_same [OF st] by (auto simp: certs_stored_def)
  obtain s2 where s2: "load_key pc env' (gen' 0) (path_Join dir (lit ''root.key'')) (RootKey d) s1 = Some (RootKey c', s2, None)"
    "os_files s2 = os_files s1" "certs_stored pc dir c' s2" using again(1) [OF s1(3)] s1(3) unfolding certs_stored_def by meson
  obtain s3 where s3: "load_cert pc env' (CreateCertificate (crs' 0) (RootKey c') None [FromOptions (root_options (crs' 0) c')])
      (path_Join dir (lit ''root.pem'')) (RootCa d) s2 = Some (RootCa c', s3, None)"
    "os_files s3 = os_files s2" "certs_stored pc dir c' s3" using again(2) [OF s2(3)] s2(3) unfolding certs_stored_def by meson
  obtain s4 where s4: "load_key pc env' (gen' 1) (path_Join dir (lit ''server.key'')) (ServerKey d) s3 = Some (ServerKey c', s4, None)"
    "os_files s4 = os_files s3" "certs_stored pc dir c' s4" using again(1) [OF s3(3)] s3(3) unfolding certs_stored_def by meson
  obtain s5 where s5: "load_cert pc env' (CreateCertificate (crs' 1) (RootKey c') (RootCa c') [FromOptions (server_options (crs' 1) domain' c')])
      (path_Join dir (lit ''server.pem'')) (ServerCert d) s4 = Some (ServerCert c', s5, None)"
    "os_files s5 = os_files s4" "certs_stored pc dir c' s5" using again(2) [OF s4(3)] s4(3) unfolding certs_stored_def by meson
  obtain s6 where s6: "load_key pc env' (gen' 2) (path_Join dir (lit ''client.key'')) (ClientKey d) s5 = Some (ClientKey c', s6, None)"
    "os_files s6 = os_files s5" "certs_stored pc dir c' s6" using again(1) [OF s5(3)] s5(3) unfolding certs_stored_def by meson
  obtain s7 where s7: "load_cert pc env' (CreateCertificate (crs' 2) (RootKey c') (RootCa c') [FromOptions (client_options (crs' 2) c')])
      (path_Join dir (lit ''client.pem'')) (ClientCert d) s6 = Some (ClientCert c', s7, None)"
    "os_files s7 = os_files s6" using again(2) [OF s6(3)] s6(3) unfolding certs_stored_def by meson
  have "certs_run pc env' gen' crs' dir domain' d c' [st', s1, s2, s3, s4, s5, s6, s7]"
    using s1(1) s2(1) s3(1) s4(1) s5(1) s6(1) s7(1) by (simp add: certs_run_def numeral_eq_Suc)
  then have "LoadOrCreate pc env' gen' crs' dir domain' d st' = Some (c', s7, None)"
    unfolding LoadOrCreate_run by (intro exI [of _ "[st', s1, s2, s3, s4, s5, s6, s7]"]) (simp add: numeral_eq_Suc)
  then show ?thesis using s1(2) s2(2) s3(2) s4(2) s5(2) s6(2) s7(2) by simp
qed

definition honest :: "os_env \<Rightarrow> bool" where
  \<comment> \<open>no call on a file that exists fails because it does not exist\<close>
  "honest env \<longleftrightarrow> (\<forall>p. stat_err env p \<noteq> Some ErrNoEntry \<and> chown_err env p \<noteq> Some ErrNoEntry \<and> chmod_err env p \<noteq> Some ErrNoEntry)"

lemma load_key_private:
  assumes "load_key pc env gen p x st = Some (y, st', None)" "has_owners env" "honest env"
  shows "private_at env st' p"
  using key_file.load_private [OF assms(1) [unfolded load_key_def] assms(2)] assms(3) by (simp add: honest_def)

text \<open>
  C16: a run of \<open>LoadOrCreate\<close> without an error on a system with file owners leaves every private
  key in a file of the user that runs it, without any permission for the group or others, whoever
  owned the file before and whatever its permissions were.
\<close>

theorem keys_stay_private:
  assumes "LoadOrCreate pc env gen crs dir domain c st = Some (c', st', None)" and "has_owners env" and "honest env"
  shows "private_at env st' (path_Join dir (lit ''root.key'')) \<and> private_at env st' (path_Join dir (lit ''server.key'')) \<and>
    private_at env st' (path_Join dir (lit ''client.key''))"
proof -
  obtain ss where r: "certs_run pc env gen crs dir domain c c' ss" "ss ! 7 = st'" using assms(1) by (auto simp: LoadOrCreate_run)
  have "private_at env (ss ! 2) (path_Join dir (lit ''root.key''))" "private_at env (ss ! 4) (path_Join dir (lit ''server.key''))"
    "private_at env (ss ! 6) (path_Join dir (lit ''client.key''))"
    using r(1) load_key_private [OF _ assms(2,3)] unfolding certs_run_def by blast+
  moreover note g = run_evolves(3-) [OF r(1)]
  ultimately show ?thesis using paths_neq [of dir] unfolding r(2) [symmetric]
    by (simp add: private_other [OF g(1)] private_other [OF g(2)] private_other [OF g(3)] private_other [OF g(4)] private_other [OF g(5)])
qed

subsection \<open>Errors that are passed over, and errors that stay\<close>

text \<open>
  The mode of a directory has the directory bit, so it never equals 0700 and every run changes it;
  and when that is refused, the run goes on with a directory that others may read.
\<close>

lemma dir_error_ignored:
  assumes "os_info st dir = Some i" "fi_IsDir i" "fi_uid i = os_uid env" "fi_gid i = os_gid env" "has_owners env"
    "stat_err env dir = None" "dir_err env = None" "chmod_err env dir = Some e" "e \<noteq> ErrNoEntry"
  shows "SetPrivFilePerm env dir (Some [True]) st = Some (st, Some e)" "certs_dir env dir st = Some (st, None)"
proof -
  have "fi_mode i \<noteq> PermPrivDir" using assms(2) by (auto simp: fi_IsDir_def)
  then show s: "SetPrivFilePerm env dir (Some [True]) st = Some (st, Some e)"
    using assms by (simp add: SetPrivFilePerm_def os_Stat_def make_private_def os_Chmod_def on_info_def has_owners_def)
  then show "certs_dir env dir st = Some (st, None)"
    using assms by (simp add: certs_dir_def os_IsNotExist_def os_Stat_def)
qed

text \<open>A key file that was not written to its end is reported by every later run and never replaced.\<close>

lemma broken_key_stays:
  assumes "calm env" "os_info st p = Some i" "os_files st p = Some b" "pem_dec pc b = None"
  shows "\<exists>st'. load_key pc env gen p k st = Some (k, st', Some ErrInvalidInput) \<and> os_files st' = os_files st"
proof -
  obtain st' where st': "SetPrivFilePerm env p None st = Some (st', None)" using SetPriv_calm [OF assms(1,2)] by blast
  have "os_files st' = os_files st" using SetPriv_evolves(2) [OF st'] .
  moreover have "read_err env p = None" using assms(1) by (simp add: calm_def)
  ultimately show ?thesis using st' assms(3,4)
    by (simp add: load_key_def load_item_def PrivateKey_FromFile_def read_file_def PrivateKey_DecodePEM_def)
qed

lemma example_path: "path_Join (lit ''../certs'') (lit ''root.key'') = lit ''../certs/root.key''"
  by code_simp

subsection \<open>A new directory\<close>

lemma created_from_options:
  assumes "CreateCertificate cr rootKey ca [FromOptions co] = Some (Inr der)" "newRandom cr = Inr certId" "o_PublicKey co = Some pk" "o_Type co \<noteq> Unset"
  obtains t parent where "createCert cr t parent (PublicKey t) rootKey = Inr der" "SerialNumber t = Some (SetBytes certId)"
    "PublicKey t = Some (Ed25519Key pk)" "KeyUsage t = (if o_Type co = Root then 33 else 1)"
    "ExtKeyUsage t = (case o_Type co of Client \<Rightarrow> [ExtKeyUsageClientAuth] | Server \<Rightarrow> [ExtKeyUsageServerAuth] | _ \<Rightarrow> [])"
proof -
  have ids: "put_ids ids 0 (replicate (length ids * 4) 0) = Some (concat (map be32 ids))" for ids by (subst put_ids_eq) simp_all
  show thesis using assms that
    by (cases "o_Type co"; auto simp: CreateCertificate_def baseCertificate_def parse_details_def Options_details_def ids with_type_def Let_def
        split: sum.splits option.splits if_splits)
qed

lemma random_frame [simp]:
  "x509_roundtrip (cr\<lparr>newRandom := i\<rparr>) = x509_roundtrip cr" "PrivateKey_Public (cr\<lparr>newRandom := i\<rparr>) = PrivateKey_Public cr"
  "Certificate_Type (cr\<lparr>newRandom := i\<rparr>) = Certificate_Type cr" "Certificate_Validate (cr\<lparr>newRandom := i\<rparr>) = Certificate_Validate cr"
  "Certificate_X509 (cr\<lparr>newRandom := i\<rparr>) = Certificate_X509 cr"
proof -
  show x: "Certificate_X509 (cr\<lparr>newRandom := i\<rparr>) = Certificate_X509 cr" "PrivateKey_Public (cr\<lparr>newRandom := i\<rparr>) = PrivateKey_Public cr"
    by (simp_all add: fun_eq_iff Certificate_X509_def PrivateKey_Public_def)
  then show "Certificate_Type (cr\<lparr>newRandom := i\<rparr>) = Certificate_Type cr" "Certificate_Validate (cr\<lparr>newRandom := i\<rparr>) = Certificate_Validate cr"
    by (intro ext; simp only: Certificate_Type_def Certificate_Validate_def)+
  show "x509_roundtrip (cr\<lparr>newRandom := i\<rparr>) = x509_roundtrip cr" by (simp add: x509_roundtrip_def)
qed

lemma created_type:
  assumes "CreateCertificate (cr\<lparr>newRandom := Inr certId\<rparr>) rootKey ca [FromOptions co] = Some (Inr der)" "x509_roundtrip cr"
    "o_PublicKey co = Some (PrivateKey_Public cr key)" "o_Type co \<noteq> Unset"
  shows "Certificate_Type cr (Some der) = o_Type co" "Certificate_Validate cr (Some der) key = None"
proof -
  obtain t parent where t: "createCert cr t parent (PublicKey t) rootKey = Inr der" "PublicKey t = Some (Ed25519Key (PrivateKey_Public cr key))"
    "KeyUsage t = (if o_Type co = Root then 33 else 1)"
    "ExtKeyUsage t = (case o_Type co of Client \<Rightarrow> [ExtKeyUsageClientAuth] | Server \<Rightarrow> [ExtKeyUsageServerAuth] | _ \<Rightarrow> [])"
    by (rule created_from_options [OF assms(1) _ assms(3,4), of certId]) simp_all
  then obtain c where c: "parseCert cr der = Inr c" "KeyUsage c = KeyUsage t" "ExtKeyUsage c = ExtKeyUsage t" "PublicKey c = PublicKey t"
    using assms(2) unfolding x509_roundtrip_def by metis
  show "Certificate_Type cr (Some der) = o_Type co" using c t(3,4) assms(4)
    by (cases "o_Type co") (simp_all add: Certificate_Type_def Certificate_X509_def cert_der_def)
  show "Certificate_Validate cr (Some der) key = None" using c t(2,3)
    by (simp add: Certificate_Validate_def Certificate_X509_def cert_der_def certPublicKey_def)
qed

lemma load_cert_missing:
  assumes "load_cert pc env created p x st = Some (y, st', None)" "os_info st p = None"
  shows "\<exists>der. created = Some (Inr der) \<and> y = Some der"
proof -
  obtain r where r: "created = Some r" "(case r of Inl e \<Rightarrow> (None, Some e) | Inr der \<Rightarrow> (Some der, None)) = (y, None)"
    using cert_file.load_missing [OF assms(1) [unfolded load_cert_def] assms(2)] by blast
  then show ?thesis by (cases r) auto
qed

lemma section_creates:
  assumes "calm env" "os_info st p = None"
  shows "\<exists>st'. load_key pc env (Inr k) p x st = Some (k, st', None) \<and> evolves p st st'"
    "created = Some (Inr der) \<Longrightarrow> \<exists>st'. load_cert pc env created p a st = Some (Some der, st', None) \<and> evolves p st st'"
  unfolding load_key_def load_cert_def
  by (rule key_file.load_creates [OF assms], simp add: CreatePrivateKey_def)
    (rule cert_file.load_creates [OF assms], simp)

lemma certs_dir_creates:
  assumes "calm env" "os_info st dir = None"
  shows "\<exists>st'. certs_dir env dir st = Some (st', None)"
  using assms by (simp add: certs_dir_def SetPrivFilePerm_def Let_def os_Stat_def calm_def os_IsNotExist_def os_Mkdir_def fi_IsDir_def bit.conj_disj_distrib2)

lemma missing_later: "os_info st q = None \<Longrightarrow> evolves p st st' \<Longrightarrow> q \<noteq> p \<Longrightarrow> os_info st' q = None"
  by (simp add: evolves_def)

lemma LoadOrCreate_succeeds:
  assumes "calm env" "os_info st = Map.empty" "gen 0 = Inr (RootKey c')" "gen 1 = Inr (ServerKey c')" "gen 2 = Inr (ClientKey c')"
    "RootCa c' = Some d0" "ServerCert c' = Some d1" "ClientCert c' = Some d2"
    "CreateCertificate (crs 0) (RootKey c') None [FromOptions (root_options (crs 0) c')] = Some (Inr d0)"
    "CreateCertificate (crs 1) (RootKey c') (Some d0) [FromOptions (server_options (crs 1) domain c')] = Some (Inr d1)"
    "CreateCertificate (crs 2) (RootKey c') (Some d0) [FromOptions (client_options (crs 2) c')] = Some (Inr d2)"
  shows "\<exists>st'. LoadOrCreate pc env gen crs dir domain c st = Some (c', st', None)"
proof -
  let ?p = "\<lambda>n. path_Join dir (lit n)"
  note d = paths_neq [of dir, simplified]
  obtain s1 where s1: "certs_dir env dir st = Some (s1, None)" using certs_dir_creates [OF assms(1), of st dir] assms(2) by auto
  note g1 = certs_dir_evolves(1) [OF s1]
  have m1: "os_info s1 (path_Join dir n) = None" if "plain_name n" for n
    using missing_later [OF _ g1 Join_neq_dir [OF that]] assms(2) by simp
  obtain s2 where s2: "load_key pc env (gen 0) (?p ''root.key'') (RootKey c) s1 = Some (RootKey c', s2, None)" "evolves (?p ''root.key'') s1 s2"
    using section_creates(1) [OF assms(1) m1 [OF file_names(1)]] assms(3) by metis
  note m2 = missing_later [OF _ s2(2)]
  obtain s3 where s3: "load_cert pc env (CreateCertificate (crs 0) (RootKey c') None [FromOptions (root_options (crs 0) c')]) (?p ''root.pem'')
      (RootCa c) s2 = Some (RootCa c', s3, None)" "evolves (?p ''root.pem'') s2 s3"
    using section_creates(2) [OF assms(1) m2 [OF m1 [OF file_names(2)]] assms(9)] assms(6) d by metis
  note m3 = missing_later [OF m2 s3(2)]
  obtain s4 where s4: "load_key pc env (gen 1) (?p ''server.key'') (ServerKey c) s3 = Some (ServerKey c', s4, None)" "evolves (?p ''server.key'') s3 s4"
    using section_creates(1) [OF assms(1) m3 [OF m1 [OF file_names(3)]]] assms(4) d by metis
  note m4 = missing_later [OF m3 s4(2)]
  obtain s5 where s5: "load_cert pc env (CreateCertificate (crs 1) (RootKey c') (RootCa c') [FromOptions (server_options (crs 1) domain c')]) (?p ''server.pem'')
      (ServerCert c) s4 = Some (ServerCert c', s5, None)" "evolves (?p ''server.pem'') s4 s5"
    using section_creates(2) [OF assms(1) m4 [OF m1 [OF file_names(4)]] assms(10)] assms(6,7) d by metis
  note m5 = missing_later [OF m4 s5(2)]
  obtain s6 where s6: "load_key pc env (gen 2) (?p ''client.key'') (ClientKey c) s5 = Some (ClientKey c', s6, None)" "evolves (?p ''client.key'') s5 s6"
    using section_creates(1) [OF assms(1) m5 [OF m1 [OF file_names(5)]]] assms(5) d by metis
  note m6 = missing_later [OF m5 s6(2)]
  obtain s7 where s7: "load_cert pc env (CreateCertificate (crs 2) (RootKey c') (RootCa c') [FromOptions (client_options (crs 2) c')]) (?p ''client.pem'')
      (ClientCert c) s6 = Some (ClientCert c', s7, None)"
    using section_creates(2) [OF assms(1) m6 [OF m1 [OF file_names(6)]] assms(11)] assms(6,8) d by metis
  have "certs_run pc env gen crs dir domain c c' [st, s1, s2, s3, s4, s5, s6, s7]"
    using s1 s2(1) s3(1) s4(1) s5(1) s6(1) s7 by (simp add: certs_run_def numeral_eq_Suc)
  then show ?thesis unfolding LoadOrCreate_run by (intro exI [of _ s7] exI [of _ "[st, s1, s2, s3, s4, s5, s6, s7]"]) (simp add: numeral_eq_Suc)
qed

lemma certs_created:
  assumes "LoadOrCreate pc env gen (\<lambda>k. cr\<lparr>newRandom := Inr (ids k)\<rparr>) dir domain c st = Some (c', st', None)" and "x509_roundtrip cr"
    and "length (ids 2) = 16" and "os_info st (path_Join dir (lit ''root.pem'')) = None"
    and "os_info st (path_Join dir (lit ''server.pem'')) = None" and "os_info st (path_Join dir (lit ''client.pem'')) = None"
  shows "Certificate_Type cr (RootCa c') = Root \<and> Certificate_Validate cr (RootCa c') (RootKey c') = None \<and>
    Certificate_Type cr (ServerCert c') = Server \<and> Certificate_Validate cr (ServerCert c') (ServerKey c') = None \<and>
    Certificate_Type cr (ClientCert c') = Client \<and> Certificate_Validate cr (ClientCert c') (ClientKey c') = None \<and>
    (\<exists>cert. Certificate_X509 cr (ClientCert c') = Inr cert \<and>
       VerifyConnection None (Some [Some (x509_cert.truncate cert)]) = Some None \<and> cert_buckets (x509_cert.truncate cert) = {123} \<and>
       pred_option slice_ok (SubjectKeyId cert))"
proof -
  let ?cr = "\<lambda>k. cr\<lparr>newRandom := Inr (ids k)\<rparr>"
  obtain ss where run: "certs_run pc env gen ?cr dir domain c c' ss" and ss: "ss ! 0 = st" using assms(1) by (auto simp: LoadOrCreate_run)
  note g = run_evolves(2-) [OF run]
  note d = paths_neq [of dir, simplified]
  have g0: "evolves dir st (ss ! 1)" using run ss certs_dir_evolves(1) by (auto simp: certs_run_def)
  have m: "os_info (ss ! 2) (path_Join dir (lit ''root.pem'')) = None" "os_info (ss ! 4) (path_Join dir (lit ''server.pem'')) = None"
    "os_info (ss ! 6) (path_Join dir (lit ''client.pem'')) = None"
    using missing_later [OF _ g0] assms(4-6) Join_neq_dir file_names d
      missing_later [OF _ g(1)] missing_later [OF _ g(2)] missing_later [OF _ g(3)] missing_later [OF _ g(4)] missing_later [OF _ g(5)] by metis+
  obtain d0 d1 d2 where created:
    "CreateCertificate (?cr 0) (RootKey c') None [FromOptions (root_options (?cr 0) c')] = Some (Inr d0)" "RootCa c' = Some d0"
    "CreateCertificate (?cr 1) (RootKey c') (RootCa c') [FromOptions (server_options (?cr 1) domain c')] = Some (Inr d1)" "ServerCert c' = Some d1"
    "CreateCertificate (?cr 2) (RootKey c') (RootCa c') [FromOptions (client_options (?cr 2) c')] = Some (Inr d2)" "ClientCert c' = Some d2"
    using run m load_cert_missing unfolding certs_run_def by metis
  have o_facts: "o_Type (root_options (?cr 0) c') = Root" "o_PublicKey (root_options (?cr 0) c') = Some (PrivateKey_Public cr (RootKey c'))"
    "o_Type (server_options (?cr 1) domain c') = Server" "o_PublicKey (server_options (?cr 1) domain c') = Some (PrivateKey_Public cr (ServerKey c'))"
    "o_Type (client_options (?cr 2) c') = Client" "o_PublicKey (client_options (?cr 2) c') = Some (PrivateKey_Public cr (ClientKey c'))"
    "o_BucketIds (client_options (?cr 2) c') = Some [123]"
    by (simp_all add: root_options_def server_options_def client_options_def no_options_def)
  have "\<exists>cert. Certificate_X509 cr (ClientCert c') = Inr cert \<and>
       VerifyConnection None (Some [Some (x509_cert.truncate cert)]) = Some None \<and> cert_buckets (x509_cert.truncate cert) = {123} \<and>
       pred_option slice_ok (SubjectKeyId cert)"
  proof -
    have cc: "CreateCertificate (?cr 2) (RootKey c') (Some d0) [FromOptions (client_options (?cr 2) c')] = Some (Inr d2)"
      using created(5) unfolding created(2) .
    obtain t parent where t: "createCert (?cr 2) t parent (PublicKey t) (RootKey c') = Inr d2" "SerialNumber t = Some (SetBytes (ids 2))"
      "KeyUsage t = KeyUsageDigitalSignature" "ExtKeyUsage t = [ExtKeyUsageClientAuth]" "PublicKey t = Some (Ed25519Key (PrivateKey_Public cr (ClientKey c')))"
      "SubjectKeyId t = Some (of_bytes (be32 123))"
      by (rule create_from_options [OF cc _ o_facts(7,6,5), of "ids 2"]) simp_all
    have "sl_bytes (of_bytes (be32 123)) \<noteq> []" by (simp add: be32_def)
    with t(1,6) assms(2) have "\<exists>cert k. parseCert cr d2 = Inr cert \<and> SubjectKeyId cert = Some k \<and> slice_ok k"
      unfolding x509_roundtrip_def by (auto dest!: spec)
    moreover from client_template_accepted [of "?cr 2", OF _ t(1-4) _ _ assms(3), of "ClientKey c'" "[123]"] t(5,6) assms(2) created(6)
    have "\<exists>cert. Certificate_X509 cr (ClientCert c') = Inr cert \<and>
       VerifyConnection None (Some [Some (x509_cert.truncate cert)]) = Some None \<and> cert_buckets (x509_cert.truncate cert) = {123}" by simp
    ultimately show ?thesis using created(6) by (auto simp: Certificate_X509_def cert_der_def)
  qed
  with created_type [OF created(1) assms(2) o_facts(2)] created_type [OF created(3) assms(2) o_facts(4)]
    created_type [OF created(5) assms(2) o_facts(6)] created(2,4,6) o_facts(1,3,5) show ?thesis by simp
qed

text \<open>
  C18: in a directory without certificates, \<open>LoadOrCreate\<close> makes what its names say: an authority, a
  server certificate that is valid with the server's key, and a client certificate that is valid
  with the client's key, passes the server's check of a connection, and allows bucket 123 and no
  other.
\<close>

theorem LoadOrCreate_creates:
  assumes "LoadOrCreate pc env gen (\<lambda>k. cr\<lparr>newRandom := Inr (ids k)\<rparr>) dir domain c st = Some (c', st', None)" and "x509_roundtrip cr"
    and "length (ids 2) = 16" and "os_info st (path_Join dir (lit ''root.pem'')) = None"
    and "os_info st (path_Join dir (lit ''server.pem'')) = None" and "os_info st (path_Join dir (lit ''client.pem'')) = None"
  shows "Certificate_Type cr (RootCa c') = Root \<and> Certificate_Validate cr (RootCa c') (RootKey c') = None \<and>
    Certificate_Type cr (ServerCert c') = Server \<and> Certificate_Validate cr (ServerCert c') (ServerKey c') = None \<and>
    Certificate_Type cr (ClientCert c') = Client \<and> Certificate_Validate cr (ClientCert c') (ClientKey c') = None \<and>
    (\<exists>cert. Certificate_X509 cr (ClientCert c') = Inr cert \<and>
       VerifyConnection None (Some [Some (x509_cert.truncate cert)]) = Some None \<and> cert_buckets (x509_cert.truncate cert) = {123})"
  using certs_created [OF assms] by blast

subsection \<open>A concrete directory\<close>

definition issued :: "byte \<Rightarrow> x509_full" where
  \<comment> \<open>the certificates \<open>[1]\<close> of the authority, \<open>[2]\<close> of the server and \<open>[3]\<close> of the client\<close>
  "issued i = demo_template\<lparr>SubjectKeyId := (if i = 3 then Some (of_bytes [0, 0, 0, 123]) else None), PublicKey := Some (Ed25519Key [i]),
     KeyUsage := (if i = 1 then 33 else 1),
     ExtKeyUsage := (if i = 1 then [] else if i = 2 then [ExtKeyUsageServerAuth] else [ExtKeyUsageClientAuth])\<rparr>"

definition same_cert :: "x509_full \<Rightarrow> x509_full \<Rightarrow> bool" where
  "same_cert a b \<longleftrightarrow> SerialNumber a = SerialNumber b \<and> SubjectKeyId a = SubjectKeyId b \<and> PublicKey a = PublicKey b \<and>
     KeyUsage a = KeyUsage b \<and> ExtKeyUsage a = ExtKeyUsage b"

definition authority :: crypto where
  "authority = demo_crypto\<lparr>
     createCert := (\<lambda>t parent pk key. if same_cert t (issued 1) then Inr [1] else if same_cert t (issued 2) then Inr [2]
       else if same_cert t (issued 3) then Inr [3] else Inl ErrInvalidInput),
     parseCert := (\<lambda>der. case der of [i] \<Rightarrow> Inr (issued i) | _ \<Rightarrow> Inl ErrInvalidInput)\<rparr>"

definition demo_certs :: Certs where
  "demo_certs = \<lparr>RootKey = [1], RootCa = Some [1], ServerKey = [2], ServerCert = Some [2], ClientKey = [3], ClientCert = Some [3]\<rparr>"

definition no_certs :: Certs where
  "no_certs = \<lparr>RootKey = [], RootCa = None, ServerKey = [], ServerCert = None, ClientKey = [], ClientCert = None\<rparr>"

definition quiet_env :: os_env where
  "quiet_env = \<lparr>os_uid = 1000, os_gid = 1000, os_unix = True, umask = 0x12, stat_err = (\<lambda>_. None), dir_err = None, mkdir_err = None,
     chown_err = (\<lambda>_. None), chmod_err = (\<lambda>_. None), read_err = (\<lambda>_. None), write_out = (\<lambda>_. WriteDone)\<rparr>"

definition demo_random :: "nat \<Rightarrow> crypto" where
  "demo_random k = authority\<lparr>newRandom := Inr (replicate 16 1)\<rparr>"

definition demo_keys :: "nat \<Rightarrow> auth_error + byte list" where
  "demo_keys k = Inr [word_of_nat (Suc k)]"

lemma authority_roundtrip: "x509_roundtrip authority"
  by (auto simp: x509_roundtrip_def authority_def same_cert_def issued_def slice_ok_def of_bytes_def split: if_splits)

lemma quiet: "calm quiet_env" "has_owners quiet_env" "honest quiet_env"
  by (simp_all add: quiet_env_def calm_def has_owners_def honest_def)

lemma demo_issued:
  "CreateCertificate (demo_random 0) [1] None [FromOptions (root_options (demo_random 0) demo_certs)] = Some (Inr [1])"
  "CreateCertificate (demo_random 1) [1] (Some [1]) [FromOptions (server_options (demo_random 1) d demo_certs)] = Some (Inr [2])"
  "CreateCertificate (demo_random 2) [1] (Some [1]) [FromOptions (client_options (demo_random 2) demo_certs)] = Some (Inr [3])"
proof -
  have ids: "put_ids [123] 0 (replicate 4 0) = Some [0, 0, 0, 123]" by (subst put_ids_eq) (simp_all add: be32_def)
  note defs = CreateCertificate_def baseCertificate_def parse_details_def Options_details_def with_type_def Let_def demo_random_def
    authority_def demo_crypto_def demo_certs_def no_options_def PrivateKey_Public_def same_cert_def issued_def demo_template_def
  show "CreateCertificate (demo_random 0) [1] None [FromOptions (root_options (demo_random 0) demo_certs)] = Some (Inr [1])"
    by (simp add: defs root_options_def)
  show "CreateCertificate (demo_random 1) [1] (Some [1]) [FromOptions (server_options (demo_random 1) d demo_certs)] = Some (Inr [2])"
    by (simp add: defs server_options_def)
  show "CreateCertificate (demo_random 2) [1] (Some [1]) [FromOptions (client_options (demo_random 2) demo_certs)] = Some (Inr [3])"
    by (simp add: defs client_options_def ids del: put_ids.simps)
qed

lemma demo_run:
  "\<exists>st'. LoadOrCreate plain_codec quiet_env demo_keys (\<lambda>k. authority\<lparr>newRandom := Inr (replicate 16 1)\<rparr>) (lit ''../certs'') (lit ''localhost'') no_certs
     \<lparr>os_files = Map.empty, os_info = Map.empty\<rparr> = Some (demo_certs, st', None)"
proof -
  have "\<exists>st'. LoadOrCreate plain_codec quiet_env demo_keys demo_random (lit ''../certs'') (lit ''localhost'') no_certs
     \<lparr>os_files = Map.empty, os_info = Map.empty\<rparr> = Some (demo_certs, st', None)"
    by (rule LoadOrCreate_succeeds [OF quiet(1), of _ _ _ "[1]" "[2]" "[3]"])
      (simp_all add: demo_keys_def demo_certs_def demo_issued [unfolded demo_certs_def, simplified])
  then show ?thesis by (simp add: demo_random_def [abs_def])
qed

theorem LoadOrCreate_reload_witness:
  "\<exists>st' st''. LoadOrCreate plain_codec quiet_env demo_keys (\<lambda>k. authority\<lparr>newRandom := Inr (replicate 16 1)\<rparr>) (lit ''../certs'') (lit ''localhost'') no_certs
     \<lparr>os_files = Map.empty, os_info = Map.empty\<rparr> = Some (demo_certs, st', None) \<and>
   LoadOrCreate plain_codec quiet_env (\<lambda>_. Inl ErrInvalidInput) (\<lambda>k. authority) (lit ''../certs'') (lit ''localhost'') no_certs st' = Some (demo_certs, st'', None) \<and>
   os_files st'' = os_files st'"
  using demo_run LoadOrCreate_reload [OF _ plain_codec_ok quiet(1)] by blast

theorem keys_stay_private_witness:
  "\<exists>st'. LoadOrCreate plain_codec quiet_env demo_keys (\<lambda>k. authority\<lparr>newRandom := Inr (replicate 16 1)\<rparr>) (lit ''../certs'') (lit ''localhost'') no_certs
     \<lparr>os_files = Map.empty, os_info = Map.empty\<rparr> = Some (demo_certs, st', None) \<and>
   private_at quiet_env st' (path_Join (lit ''../certs'') (lit ''client.key''))"
  using demo_run keys_stay_private [OF _ quiet(2,3)] by blast

theorem LoadOrCreate_creates_witness:
  "Certificate_Type authority (Some [2]) = Server \<and> Certificate_Validate authority (Some [3]) [3] = None \<and>
    (\<exists>cert. Certificate_X509 authority (Some [3]) = Inr cert \<and> cert_buckets (x509_cert.truncate cert) = {123})"
proof -
  obtain st' where "LoadOrCreate plain_codec quiet_env demo_keys (\<lambda>k. authority\<lparr>newRandom := Inr (replicate 16 1)\<rparr>) (lit ''../certs'') (lit ''localhost'') no_certs
     \<lparr>os_files = Map.empty, os_info = Map.empty\<rparr> = Some (demo_certs, st', None)" using demo_run by blast
  from LoadOrCreate_creates [OF this authority_roundtrip] show ?thesis by (auto simp: demo_certs_def)
qed

end
