(* ===== verification/Logger.thy ===== *)
theory Logger
  imports Entry_Build Sync_Pool
begin

text \<open>
  \<^verbatim>\<open>logger.go\<close>, \<^verbatim>\<open>pool.go\<close>, and \<^verbatim>\<open>Send\<close> and \<^verbatim>\<open>Drop\<close> of \<^verbatim>\<open>entry.go\<close>. An entry
  holds a pointer to the logger that made it and reads the logger's context only when it is sent,
  so loggers live in a store and an entry holds an address. The model has one pool and its client;
  what is handed to the client's \<^verbatim>\<open>ProcessEntry\<close> is the list \<open>processed\<close>. The IDs of
  \<^verbatim>\<open>xid.NewWithTime(client.Now())\<close> and the choices of \<^verbatim>\<open>sync.Pool\<close> are arguments. \<open>None\<close> is a
  panic.
\<close>

subsection \<open>Loggers\<close>

record Logger =
  lg_tags :: "gostring list"
  lg_metaKeys :: "gostring list"
  lg_metaValues :: "gostring list"
  lg_metricKeys :: "gostring list"
  lg_metricValues :: "u32 list"
  lg_ttlEntry :: u16
  lg_ttlMeta :: u16
  lg_categoryId :: byte

record PoolOptions =
  EntryPool :: "Entry list option" \<comment> \<open>\<open>None\<close> is the nil pointer\<close>
  BucketId :: u32
  DefaultEntryTTL :: u16
  DefaultMetaTTL :: u16
  StackTraceSeverity :: Severity

record Pool =
  loggers :: "Logger list"  \<comment> \<open>every logger made so far, by address\<close>
  loggerPool :: "nat list"
  processed :: "Entry list" \<comment> \<open>the entries given to the client, in order\<close>
  opt :: PoolOptions

definition Pool_setDefaults :: "PoolOptions \<Rightarrow> PoolOptions" where
  "Pool_setDefaults op =
    (let op = (if DefaultEntryTTL op = 0 then op\<lparr>DefaultEntryTTL := 30\<rparr> else op);
         op = (if DefaultMetaTTL op = 0 then op\<lparr>DefaultMetaTTL := DefaultEntryTTL op\<rparr> else op);
         op = (if StackTraceSeverity op = 0 then op\<lparr>StackTraceSeverity := NOTICE\<rparr> else op)
     in if EntryPool op = None then op\<lparr>EntryPool := Some []\<rparr> else op)"

definition NewPool :: "PoolOptions list option \<Rightarrow> Pool option" where
  \<comment> \<open>\<^verbatim>\<open>options ...PoolOptions\<close>: \<open>None\<close> is the nil slice\<close>
  "NewPool options = do {
     op \<leftarrow> (case options of
       None \<Rightarrow> Some \<lparr>EntryPool = None, BucketId = 0, DefaultEntryTTL = 0, DefaultMetaTTL = 0, StackTraceSeverity = 0\<rparr>
     | Some ops \<Rightarrow> nth_opt ops 0);
     Some \<lparr>loggers = [], loggerPool = [], processed = [], opt = Pool_setDefaults op\<rparr> }"

definition new_logger :: "PoolOptions \<Rightarrow> Logger" where
  "new_logger op = \<lparr>lg_tags = [], lg_metaKeys = [], lg_metaValues = [], lg_metricKeys = [], lg_metricValues = [],
     lg_ttlEntry = DefaultEntryTTL op, lg_ttlMeta = DefaultMetaTTL op, lg_categoryId = 0\<rparr>"

definition Logger_Reset :: "PoolOptions \<Rightarrow> Logger \<Rightarrow> Logger" where
  "Logger_Reset op l = l\<lparr>lg_tags := take 0 (lg_tags l), lg_metaKeys := take 0 (lg_metaKeys l),
     lg_metaValues := take 0 (lg_metaValues l), lg_metricKeys := take 0 (lg_metricKeys l),
     lg_metricValues := take 0 (lg_metricValues l), lg_ttlEntry := DefaultEntryTTL op,
     lg_ttlMeta := DefaultMetaTTL op, lg_categoryId := 0\<rparr>"

interpretation logger_pool: object_pool "new_logger op" "Logger_Reset op" "\<lambda>_. True" "\<lambda>l. l = new_logger op" for op
  by unfold_locales (simp_all add: new_logger_def Logger_Reset_def)

definition Pool_Logger :: "nat option \<Rightarrow> Pool \<Rightarrow> nat \<times> Pool" where
  "Pool_Logger pick p = (case pool_get pick (loggerPool p) of
     (Some a, rest) \<Rightarrow> (a, p\<lparr>loggerPool := rest\<rparr>)
   | (None, rest) \<Rightarrow> (length (loggers p), p\<lparr>loggerPool := rest, loggers := loggers p @ [new_logger (opt p)]\<rparr>))"

definition on_logger :: "nat \<Rightarrow> (Logger \<Rightarrow> Logger) \<Rightarrow> Pool \<Rightarrow> Pool option" where
  \<comment> \<open>a method of the logger at address \<open>a\<close>\<close>
  "on_logger a f p = do { l \<leftarrow> nth_opt (loggers p) a; Some (p\<lparr>loggers := (loggers p)[a := f l]\<rparr>) }"

definition ReleaseLogger :: "nat \<Rightarrow> Pool \<Rightarrow> Pool option" where
  "ReleaseLogger a p = do {
     p \<leftarrow> on_logger a (Logger_Reset (opt p)) p;
     Some (p\<lparr>loggerPool := a # loggerPool p\<rparr>) }"

definition Logger_Drop :: "nat \<Rightarrow> Pool \<Rightarrow> Pool option" where
  "Logger_Drop a p = ReleaseLogger a p"

definition Logger_Cat :: "byte \<Rightarrow> Logger \<Rightarrow> Logger" where "Logger_Cat c l = l\<lparr>lg_categoryId := c\<rparr>"

fun Logger_Tag :: "go_any list \<Rightarrow> Logger \<Rightarrow> Logger" where
  "Logger_Tag [] l = l"
| "Logger_Tag (a # as) l =
    (if length (lg_tags l) \<ge> MaxTagsCount then l
     else if a = AString [] then Logger_Tag as l
     else Logger_Tag as (l\<lparr>lg_tags := lg_tags l @ [Utils.truncate (stringify a) MaxTagSize]\<rparr>))"

definition Logger_Meta :: "gostring \<Rightarrow> go_any \<Rightarrow> Logger \<Rightarrow> Logger" where
  "Logger_Meta key v l = l\<lparr>lg_metaKeys := lg_metaKeys l @ [Utils.truncate key MaxMetaKeySize],
     lg_metaValues := lg_metaValues l @ [Utils.truncate (stringify v) MaxMetaValueSize]\<rparr>"

definition Logger_MetaBlob :: "go_any \<Rightarrow> Logger \<Rightarrow> Logger" where
  "Logger_MetaBlob v l = Logger_Meta (lit ''_'') v l"

definition Logger_Metric :: "gostring \<Rightarrow> u32 \<Rightarrow> Logger \<Rightarrow> Logger" where
  "Logger_Metric key v l = l\<lparr>lg_metricKeys := lg_metricKeys l @ [Utils.truncate key MaxMetaKeySize],
     lg_metricValues := lg_metricValues l @ [v]\<rparr>"

definition Logger_TTL :: "int \<Rightarrow> Logger \<Rightarrow> Logger" where "Logger_TTL days l = l\<lparr>lg_ttlEntry := word_of_int days\<rparr>"
definition Logger_MetaTTL :: "int \<Rightarrow> Logger \<Rightarrow> Logger" where "Logger_MetaTTL days l = l\<lparr>lg_ttlMeta := word_of_int days\<rparr>"

definition Logger_Logger :: "nat option \<Rightarrow> nat \<Rightarrow> Pool \<Rightarrow> (nat \<times> Pool) option" where
  "Logger_Logger pick a p = do {
     l \<leftarrow> nth_opt (loggers p) a;
     let (b, p) = Pool_Logger pick p;
     p \<leftarrow> on_logger b (\<lambda>l2. l2\<lparr>lg_categoryId := lg_categoryId l,
       lg_metaKeys := lg_metaKeys l2 @ lg_metaKeys l, lg_metaValues := lg_metaValues l2 @ lg_metaValues l,
       lg_metricKeys := lg_metricKeys l2 @ lg_metricKeys l, lg_metricValues := lg_metricValues l2 @ lg_metricValues l,
       lg_tags := lg_tags l2 @ lg_tags l, lg_ttlEntry := lg_ttlEntry l, lg_ttlMeta := lg_ttlMeta l\<rparr>) p;
     Some (b, p) }"

subsection \<open>Entries of a pool\<close>

definition Pool_Entry :: "nat option \<Rightarrow> Pool \<Rightarrow> (Entry \<times> Pool) option" where
  "Pool_Entry pick p = do {
     ep \<leftarrow> EntryPool (opt p);
     let (got, rest) = pool_get pick ep;
     Some (EntryPool_Acquire got, p\<lparr>opt := (opt p)\<lparr>EntryPool := Some rest\<rparr>\<rparr>) }"

definition ReleaseEntry :: "Entry \<Rightarrow> Pool \<Rightarrow> Pool option" where
  "ReleaseEntry e p = do {
     ep \<leftarrow> EntryPool (opt p);
     Some (p\<lparr>opt := (opt p)\<lparr>EntryPool := Some (EntryPool_Release e ep)\<rparr>\<rparr>) }"

definition Entry_Drop :: "Entry \<Rightarrow> Pool \<Rightarrow> Pool option" where
  "Entry_Drop e p = (if logger e \<noteq> None then ReleaseEntry e p else Some p)"

definition Logger_log :: "xid \<Rightarrow> nat option \<Rightarrow> nat \<Rightarrow> Severity \<Rightarrow> gostring \<Rightarrow> go_any list option \<Rightarrow> Pool \<Rightarrow> (Entry \<times> Pool) option" where
  \<comment> \<open>\<open>tgs\<close> is the variadic slice, \<open>None\<close> when no tag is given\<close>
  "Logger_log newId pick a sev msg tgs p = do {
     l \<leftarrow> nth_opt (loggers p) a;
     (e, p) \<leftarrow> Pool_Entry pick p;
     let e = e\<lparr>bucketId := BucketId (opt p), logger := Some a, eid := newId, severity := sev,
               message := Utils.truncate msg MaxMessageSize, ttlEntry := lg_ttlEntry l, ttlMeta := lg_ttlMeta l,
               categoryId := lg_categoryId l\<rparr>;
     let e = incLevel e L_CategoryId;
     Some (case tgs of None \<Rightarrow> e | Some ts \<Rightarrow> Entry_Tag ts e, p) }"

definition Logger_Emerg :: "xid \<Rightarrow> nat option \<Rightarrow> nat \<Rightarrow> gostring \<Rightarrow> go_any list option \<Rightarrow> Pool \<Rightarrow> (Entry \<times> Pool) option" where
  "Logger_Emerg newId pick a = Logger_log newId pick a EMERG"
definition Logger_Alert :: "xid \<Rightarrow> nat option \<Rightarrow> nat \<Rightarrow> gostring \<Rightarrow> go_any list option \<Rightarrow> Pool \<Rightarrow> (Entry \<times> Pool) option" where
  "Logger_Alert newId pick a = Logger_log newId pick a ALERT"
definition Logger_Crit :: "xid \<Rightarrow> nat option \<Rightarrow> nat \<Rightarrow> gostring \<Rightarrow> go_any list option \<Rightarrow> Pool \<Rightarrow> (Entry \<times> Pool) option" where
  "Logger_Crit newId pick a = Logger_log newId pick a CRIT"
definition Logger_Err :: "xid \<Rightarrow> nat option \<Rightarrow> nat \<Rightarrow> gostring \<Rightarrow> go_any list option \<Rightarrow> Pool \<Rightarrow> (Entry \<times> Pool) option" where
  "Logger_Err newId pick a = Logger_log newId pick a ERR"
definition Logger_Warning :: "xid \<Rightarrow> nat option \<Rightarrow> nat \<Rightarrow> gostring \<Rightarrow> go_any list option \<Rightarrow> Pool \<Rightarrow> (Entry \<times> Pool) option" where
  "Logger_Warning newId pick a = Logger_log newId pick a WARNING"
definition Logger_Notice :: "xid \<Rightarrow> nat option \<Rightarrow> nat \<Rightarrow> gostring \<Rightarrow> go_any list option \<Rightarrow> Pool \<Rightarrow> (Entry \<times> Pool) option" where
  "Logger_Notice newId pick a = Logger_log newId pick a NOTICE"
definition Logger_Info :: "xid \<Rightarrow> nat option \<Rightarrow> nat \<Rightarrow> gostring \<Rightarrow> go_any list option \<Rightarrow> Pool \<Rightarrow> (Entry \<times> Pool) option" where
  "Logger_Info newId pick a = Logger_log newId pick a INFO"
definition Logger_Debug :: "xid \<Rightarrow> nat option \<Rightarrow> nat \<Rightarrow> gostring \<Rightarrow> go_any list option \<Rightarrow> Pool \<Rightarrow> (Entry \<times> Pool) option" where
  "Logger_Debug newId pick a = Logger_log newId pick a DEBUG"

text \<open>The three loops of \<^verbatim>\<open>Entry.Send\<close>.\<close>

fun send_tags :: "gostring list \<Rightarrow> Entry \<Rightarrow> Entry" where
  "send_tags [] e = e"
| "send_tags (t # ts) e =
    (if tagsCount e \<ge> MaxTagsCount then e
     else send_tags ts (e\<lparr>tags := (tags e)[tagsCount e := t], tagsCount := tagsCount e + 1\<rparr>))"

fun send_meta :: "gostring list \<Rightarrow> gostring list \<Rightarrow> Entry \<Rightarrow> Entry option" where
  "send_meta [] vs e = Some e"
| "send_meta (k # ks) vs e =
    (if metaCount e \<ge> MaxMetaCount then Some e
     else case vs of [] \<Rightarrow> None
     | v # vs \<Rightarrow> send_meta ks vs (e\<lparr>metaKeys := (metaKeys e)[metaCount e := k],
         metaValues := (metaValues e)[metaCount e := v], metaCount := metaCount e + 1\<rparr>))"

fun send_metrics :: "gostring list \<Rightarrow> u32 list \<Rightarrow> Entry \<Rightarrow> Entry option" where
  "send_metrics [] vs e = Some e"
| "send_metrics (k # ks) vs e =
    (if metricCount e \<ge> MaxMetricCount then Some e
     else case vs of [] \<Rightarrow> None
     | v # vs \<Rightarrow> send_metrics ks vs (e\<lparr>metricKeys := (metricKeys e)[metricCount e := k],
         metricValues := (metricValues e)[metricCount e := v], metricCount := metricCount e + 1\<rparr>))"

definition Entry_Send :: "byte list option \<Rightarrow> Entry \<Rightarrow> Pool \<Rightarrow> (xid \<times> Entry \<times> Pool) option" where
  "Entry_Send cat e p = do {
     let i = eid e;
     e \<leftarrow> (case cat of None \<Rightarrow> Some e | Some cs \<Rightarrow> map_option (\<lambda>c. Entry_Cat c e) (nth_opt cs 0));
     case logger e of
       None \<Rightarrow> Some (i, e, p)
     | Some a \<Rightarrow> do {
         l \<leftarrow> nth_opt (loggers p) a;
         let e = send_tags (lg_tags l) e;
         e \<leftarrow> send_meta (lg_metaKeys l) (lg_metaValues l) e;
         e \<leftarrow> send_metrics (lg_metricKeys l) (lg_metricValues l) e;
         Some (i, e, p\<lparr>processed := processed p @ [e]\<rparr>) } }"

datatype go_err =
    ErrEntry Entry      \<comment> \<open>an \<^verbatim>\<open>error\<close> that is an \<^verbatim>\<open>*Entry\<close>\<close>
  | ErrText gostring    \<comment> \<open>any other, by what its \<^verbatim>\<open>Error()\<close> returns\<close>

definition Pool_Send :: "nat option \<Rightarrow> go_err \<Rightarrow> Pool \<Rightarrow> (xid \<times> Pool) option" where
  "Pool_Send pick err p = (case err of
     ErrEntry e \<Rightarrow> map_option (\<lambda>(i, _, p). (i, p)) (Entry_Send None e p)
   | ErrText txt \<Rightarrow> do {
       (e, p) \<leftarrow> Pool_Entry pick p;
       let e = parseErrorString (e\<lparr>severity := ERR\<rparr>) txt;
       Some (eid e, p\<lparr>processed := processed p @ [e]\<rparr>) })"

definition Logger_Send :: "nat option \<Rightarrow> nat \<Rightarrow> go_err \<Rightarrow> Pool \<Rightarrow> (xid \<times> Pool) option" where
  "Logger_Send pick a err p = do { _ \<leftarrow> nth_opt (loggers p) a; Pool_Send pick err p }"

definition Pool_CloseClient :: "('err option) option \<Rightarrow> 'err option" where
  \<comment> \<open>what \<^verbatim>\<open>Close\<close> of the client returns when the client has that method\<close>
  "Pool_CloseClient closed = (case closed of Some r \<Rightarrow> r | None \<Rightarrow> None)"

definition Logger_CloseClient :: "('err option) option \<Rightarrow> 'err option" where
  "Logger_CloseClient closed = Pool_CloseClient closed"

subsection \<open>What Send adds to an entry\<close>

text \<open>An array of fixed length with the items \<open>ys\<close> stored from index \<open>c\<close> on, as many as fit.\<close>

definition store_from :: "nat \<Rightarrow> 'a list \<Rightarrow> 'a list \<Rightarrow> 'a list" where
  "store_from c xs ys = take c xs @ take (length xs - c) ys @ drop (c + length ys) xs"

lemma length_store_from [simp]: "c \<le> length xs \<Longrightarrow> length (store_from c xs ys) = length xs"
  by (simp add: store_from_def)

lemma store_from_Nil [simp]: "store_from c xs [] = xs"
  by (simp add: store_from_def)

lemma store_from_full [simp]: "length xs \<le> c \<Longrightarrow> store_from c xs ys = xs"
  by (simp add: store_from_def)

lemma store_from_Cons: "c < length xs \<Longrightarrow> store_from (Suc c) (xs[c := y]) ys = store_from c xs (y # ys)"
  by (simp add: store_from_def take_update_Suc Suc_diff_Suc [symmetric])

lemma take_store_from:
  "c \<le> length xs \<Longrightarrow> n = length xs \<Longrightarrow> take (min n (c + length ys)) (store_from c xs ys) = take n (take c xs @ ys)"
  by (auto simp: store_from_def min_def)

lemma min_Suc_step: "c < n \<Longrightarrow> min n (Suc (c + k)) = min n (Suc c + k)" for n c k :: nat
  by simp

lemma send_tags_eq:
  "length (tags e) = 8 \<Longrightarrow> tagsCount e \<le> 8 \<Longrightarrow>
   send_tags ts e = e\<lparr>tags := store_from (tagsCount e) (tags e) ts, tagsCount := min 8 (tagsCount e + length ts)\<rparr>"
  by (induction ts arbitrary: e) (auto simp: store_from_Cons)

lemma send_meta_eq:
  "length (metaKeys e) = 32 \<Longrightarrow> length (metaValues e) = 32 \<Longrightarrow> metaCount e \<le> 32 \<Longrightarrow> length ks = length vs \<Longrightarrow>
   send_meta ks vs e = Some (e\<lparr>metaKeys := store_from (metaCount e) (metaKeys e) ks,
     metaValues := store_from (metaCount e) (metaValues e) vs, metaCount := min 32 (metaCount e + length ks)\<rparr>)"
proof (induction ks arbitrary: vs e)
  case (Cons k ks)
  then obtain v vs' where "vs = v # vs'" by (cases vs) auto
  with Cons show ?case by (auto simp: store_from_Cons)
qed simp

lemma send_metrics_eq:
  "length (metricKeys e) = 32 \<Longrightarrow> length (metricValues e) = 32 \<Longrightarrow> metricCount e \<le> 32 \<Longrightarrow> length ks = length vs \<Longrightarrow>
   send_metrics ks vs e = Some (e\<lparr>metricKeys := store_from (metricCount e) (metricKeys e) ks,
     metricValues := store_from (metricCount e) (metricValues e) vs, metricCount := min 32 (metricCount e + length ks)\<rparr>)"
proof (induction ks arbitrary: vs e)
  case (Cons k ks)
  then obtain v vs' where "vs = v # vs'" by (cases vs) auto
  with Cons show ?case by (auto simp: store_from_Cons)
qed simp

definition logger_ok :: "Logger \<Rightarrow> bool" where
  "logger_ok l \<longleftrightarrow> length (lg_tags l) \<le> MaxTagsCount \<and> (\<forall>t\<in>set (lg_tags l). length t \<le> MaxTagSize) \<and>
     length (lg_metaKeys l) = length (lg_metaValues l) \<and> (\<forall>k\<in>set (lg_metaKeys l). length k \<le> MaxMetaKeySize) \<and>
     (\<forall>v\<in>set (lg_metaValues l). length v \<le> MaxMetaValueSize) \<and>
     length (lg_metricKeys l) = length (lg_metricValues l) \<and> (\<forall>k\<in>set (lg_metricKeys l). length k \<le> MaxMetaKeySize)"

definition with_context :: "Logger \<Rightarrow> Entry \<Rightarrow> Entry" where
  \<comment> \<open>the entry with the logger's tags, meta and metrics behind its own\<close>
  "with_context l e = e\<lparr>
     tags := store_from (tagsCount e) (tags e) (lg_tags l), tagsCount := min 8 (tagsCount e + length (lg_tags l)),
     metaKeys := store_from (metaCount e) (metaKeys e) (lg_metaKeys l),
     metaValues := store_from (metaCount e) (metaValues e) (lg_metaValues l),
     metaCount := min 32 (metaCount e + length (lg_metaKeys l)),
     metricKeys := store_from (metricCount e) (metricKeys e) (lg_metricKeys l),
     metricValues := store_from (metricCount e) (metricValues e) (lg_metricValues l),
     metricCount := min 32 (metricCount e + length (lg_metricKeys l))\<rparr>"

lemma Send_context:
  assumes "entry_shape e" "counts_ok e" "logger e = Some a" "nth_opt (loggers p) a = Some l" "logger_ok l"
  shows "Entry_Send None e p = Some (eid e, with_context l e, p\<lparr>processed := processed p @ [with_context l e]\<rparr>)"
  using assms
  by (simp add: Entry_Send_def send_tags_eq send_meta_eq send_metrics_eq entry_shapeD counts_ok_def logger_ok_def
      with_context_def Let_def)

lemma stored_all:
  assumes "\<forall>i<c. P (xs ! i)" "\<forall>y\<in>set ys. P y" "c \<le> length xs" "n = length xs" "i < min n (c + length ys)"
  shows "P (store_from c xs ys ! i)"
proof -
  have "store_from c xs ys ! i = take (min n (c + length ys)) (store_from c xs ys) ! i" using assms(5) by simp
  also have "\<dots> = (take c xs @ ys) ! i" using assms(5) by (simp only: take_store_from [OF assms(3,4)] nth_take min_less_iff_conj)
  finally show ?thesis using assms by (cases "i < c") (auto simp: nth_append)
qed

lemma with_context_ok:
  assumes "entry_ok e" "logger_ok l"
  shows "entry_ok (with_context l e)"
proof -
  have ok: "entry_shape e" "counts_ok e" "strings_ok e" "3 \<le> level e" "level e \<le> 10" using assms(1) by (simp_all add: entry_ok_def)
  have len: "tagsCount e \<le> length (tags e)" "metaCount e \<le> length (metaKeys e)" "metaCount e \<le> length (metaValues e)"
    "metricCount e \<le> length (metricKeys e)" "metricCount e \<le> length (metricValues e)"
    using ok(1,2) by (simp_all add: entry_shapeD counts_ok_def)
  have lens: "length (tags e) = 8" "length (metaKeys e) = 32" "length (metaValues e) = 32" "length (metricKeys e) = 32"
    using ok(1) by (simp_all add: entry_shapeD)
  have "\<forall>i<min 8 (tagsCount e + length (lg_tags l)). length (store_from (tagsCount e) (tags e) (lg_tags l) ! i) \<le> 255"
    using stored_all [where P = "\<lambda>t. length t \<le> 255", OF _ _ len(1) lens(1) [symmetric]] ok(3) assms(2)
    unfolding strings_ok_def logger_ok_def by blast
  moreover have "\<forall>i<min 32 (metaCount e + length (lg_metaKeys l)). length (store_from (metaCount e) (metaKeys e) (lg_metaKeys l) ! i) \<le> 255"
    using stored_all [where P = "\<lambda>t. length t \<le> 255", OF _ _ len(2) lens(2) [symmetric]] ok(3) assms(2)
    unfolding strings_ok_def logger_ok_def by blast
  moreover have "\<forall>i<min 32 (metaCount e + length (lg_metaValues l)). length (store_from (metaCount e) (metaValues e) (lg_metaValues l) ! i) \<le> 65535"
    using stored_all [where P = "\<lambda>t. length t \<le> 65535", OF _ _ len(3) lens(3) [symmetric]] ok(3) assms(2)
    unfolding strings_ok_def logger_ok_def by blast
  moreover have "\<forall>i<min 32 (metricCount e + length (lg_metricKeys l)). length (store_from (metricCount e) (metricKeys e) (lg_metricKeys l) ! i) \<le> 255"
    using stored_all [where P = "\<lambda>t. length t \<le> 255", OF _ _ len(4) lens(4) [symmetric]] ok(3) assms(2)
    unfolding strings_ok_def logger_ok_def by blast
  moreover have "length (lg_metaValues l) = length (lg_metaKeys l)" "length (message e) \<le> 255"
    using assms(2) ok(3) by (simp_all add: logger_ok_def strings_ok_def)
  ultimately have "strings_ok (with_context l e)" by (simp add: strings_ok_def with_context_def)
  moreover have "entry_shape (with_context l e)" using ok(1) len by (simp add: entry_shape_def with_context_def)
  moreover have "counts_ok (with_context l e)" using ok(2) by (simp add: counts_ok_def with_context_def)
  ultimately show ?thesis using ok(4,5) by (simp add: entry_ok_def) (simp add: with_context_def)
qed

lemma array_upto_store:
  "c \<le> length xs \<Longrightarrow> n = length xs \<Longrightarrow> k = length ys \<Longrightarrow>
    array_upto (store_from c xs ys) (min n (c + k)) = Some (take n (take c xs @ ys))"
  by (simp add: array_upto_def take_store_from del: take_append)

lemma with_context_reads:
  assumes "entry_shape e" "counts_ok e" "logger_ok l"
  shows "Reader_Tags (with_context l e) = Some (take 8 (take (tagsCount e) (tags e) @ lg_tags l))"
    "Reader_Meta (with_context l e) = Some (take 32 (take (metaCount e) (metaKeys e) @ lg_metaKeys l),
       take 32 (take (metaCount e) (metaValues e) @ lg_metaValues l))"
    "Reader_Metrics (with_context l e) = Some (take 32 (take (metricCount e) (metricKeys e) @ lg_metricKeys l),
       take 32 (take (metricCount e) (metricValues e) @ lg_metricValues l))"
  using assms
  by (simp_all add: reader_defs with_context_def entry_shapeD counts_ok_def logger_ok_def array_upto_store del: take_append)

end
