(* ===== verification/Logger_Spec.thy ===== *)
theory Logger_Spec
  imports Logger Entry_Wire
begin

text \<open>
  What the logging interface guarantees: no sequence of calls panics, everything handed to the
  client is within the limits of the wire format, an entry carries the context of its logger, a
  child logger inherits it, and the part of the context that never reaches the wire.
\<close>

subsection \<open>The invariant of a pool\<close>

definition pool_ok :: "Pool \<Rightarrow> bool" where
  "pool_ok p \<longleftrightarrow> list_all logger_ok (loggers p) \<and> distinct (loggerPool p) \<and>
     (\<forall>a\<in>set (loggerPool p). a < length (loggers p) \<and> loggers p ! a = new_logger (opt p)) \<and>
     (\<exists>ep. EntryPool (opt p) = Some ep \<and> list_all entry_clean ep) \<and> list_all entry_ok (processed p)"

lemma NewPool_ok: "NewPool None = Some p \<Longrightarrow> pool_ok p"
  by (auto simp: NewPool_def pool_ok_def Pool_setDefaults_def Let_def)

lemma new_logger_frame [simp]: "new_logger (op\<lparr>EntryPool := x\<rparr>) = new_logger op"
  by (simp add: new_logger_def)

lemma new_logger_ok [simp]: "logger_ok (new_logger op)"
  by (simp add: logger_ok_def new_logger_def)

lemma pool_logger_ok: "pool_ok p \<Longrightarrow> a < length (loggers p) \<Longrightarrow> logger_ok (loggers p ! a)"
  by (simp add: pool_ok_def list_all_length)

lemma on_logger_ok:
  assumes "pool_ok p" "a < length (loggers p)" "a \<notin> set (loggerPool p)" "logger_ok (f (loggers p ! a))"
  shows "\<exists>p'. on_logger a f p = Some p' \<and> pool_ok p'"
proof -
  have "list_all logger_ok ((loggers p)[a := f (loggers p ! a)])"
    using assms by (simp add: pool_ok_def list_all_length nth_list_update)
  moreover have "(loggers p)[a := f (loggers p ! a)] ! b = loggers p ! b" if "b \<in> set (loggerPool p)" for b
    using that assms(3) by (auto intro: nth_list_update_neq)
  ultimately show ?thesis using assms(1,2) by (auto simp: on_logger_def pool_ok_def)
qed

lemma Pool_Logger_ok:
  assumes "pool_ok p" "Pool_Logger pick p = (b, p')"
  shows "pool_ok p'" "b < length (loggers p')" "b \<notin> set (loggerPool p')" "loggers p' ! b = new_logger (opt p)"
    "opt p' = opt p" "processed p' = processed p" "take (length (loggers p)) (loggers p') = loggers p"
    "set (loggerPool p') \<subseteq> set (loggerPool p)"
proof -
  obtain r rest where g: "pool_get pick (loggerPool p) = (r, rest)" by force
  have sub: "set rest \<subseteq> set (loggerPool p)" using pool_get_subset [OF g] .
  have d: "distinct rest" "\<And>x. r = Some x \<Longrightarrow> x \<notin> set rest" using pool_get_distinct [OF g] assms(1) by (auto simp: pool_ok_def)
  have "pool_ok p' \<and> b < length (loggers p') \<and> b \<notin> set (loggerPool p') \<and> loggers p' ! b = new_logger (opt p) \<and>
    opt p' = opt p \<and> processed p' = processed p \<and> take (length (loggers p)) (loggers p') = loggers p \<and>
    set (loggerPool p') \<subseteq> set (loggerPool p)"
  proof (cases r)
    case None
    then have "b = length (loggers p)" "p' = p\<lparr>loggerPool := rest, loggers := loggers p @ [new_logger (opt p)]\<rparr>"
      using assms(2) g by (auto simp: Pool_Logger_def)
    with sub d(1) assms(1) show ?thesis by (auto simp: pool_ok_def nth_append)
  next
    case (Some a)
    then have "b = a" "p' = p\<lparr>loggerPool := rest\<rparr>" using assms(2) g by (auto simp: Pool_Logger_def)
    moreover have "a \<in> set (loggerPool p)" using g Some pool_get_mem by metis
    ultimately show ?thesis using sub d Some assms(1) by (auto simp: pool_ok_def)
  qed
  then show "pool_ok p'" "b < length (loggers p')" "b \<notin> set (loggerPool p')" "loggers p' ! b = new_logger (opt p)"
    "opt p' = opt p" "processed p' = processed p" "take (length (loggers p)) (loggers p') = loggers p"
    "set (loggerPool p') \<subseteq> set (loggerPool p)" by blast+
qed

lemma ReleaseLogger_ok:
  assumes "pool_ok p" "a < length (loggers p)" "a \<notin> set (loggerPool p)"
  shows "\<exists>p'. ReleaseLogger a p = Some p' \<and> pool_ok p'"
proof -
  let ?r = "Logger_Reset (opt p)"
  have r: "?r (loggers p ! a) = new_logger (opt p)" by (rule logger_pool.clean_reset) simp
  obtain p' where p': "on_logger a ?r p = Some p'" "pool_ok p'" using on_logger_ok [OF assms, of ?r] r by auto
  then have "p' = p\<lparr>loggers := (loggers p)[a := new_logger (opt p)]\<rparr>" using assms(2) r by (simp add: on_logger_def)
  with p'(2) assms(2,3) have "pool_ok (p'\<lparr>loggerPool := a # loggerPool p'\<rparr>)" by (auto simp: pool_ok_def)
  with p'(1) show ?thesis by (simp add: ReleaseLogger_def)
qed

lemma Pool_Entry_ok:
  assumes "pool_ok p"
  obtains e rest where "Pool_Entry pick p = Some (e, p\<lparr>opt := (opt p)\<lparr>EntryPool := Some rest\<rparr>\<rparr>)" "entry_clean e"
    "pool_ok (p\<lparr>opt := (opt p)\<lparr>EntryPool := Some rest\<rparr>\<rparr>)"
proof -
  obtain ep where ep: "EntryPool (opt p) = Some ep" "list_all entry_clean ep" using assms by (auto simp: pool_ok_def)
  obtain got rest where g: "pool_get pick ep = (got, rest)" by force
  from entry_pool.get_clean [OF ep(2) g] have "entry_clean (EntryPool_Acquire got)" "list_all entry_clean rest"
    by (simp_all add: EntryPool_Acquire_def)
  then show thesis using that [of "EntryPool_Acquire got" rest] ep g assms by (auto simp: Pool_Entry_def pool_ok_def)
qed

lemma ReleaseEntry_ok:
  "pool_ok p \<Longrightarrow> entry_usable e \<Longrightarrow> \<exists>p'. ReleaseEntry e p = Some p' \<and> pool_ok p' \<and> loggers p' = loggers p \<and> loggerPool p' = loggerPool p"
  by (auto simp: ReleaseEntry_def EntryPool_Release_def pool_ok_def entry_pool.clean_reset)

subsection \<open>Logging and sending\<close>

lemma with_context_frame [simp]:
  "bucketId (with_context l e) = bucketId e" "eid (with_context l e) = eid e" "severity (with_context l e) = severity e"
  "message (with_context l e) = message e" "categoryId (with_context l e) = categoryId e" "level (with_context l e) = level e"
  "ttlEntry (with_context l e) = ttlEntry e" "ttlMeta (with_context l e) = ttlMeta e" "logger (with_context l e) = logger e"
  by (simp_all add: with_context_def)

lemma log_ok:
  assumes "pool_ok p" "a < length (loggers p)" "length newId = 12"
  obtains e rest where
    "Logger_log newId pick a sev msg tgs p = Some (e, p\<lparr>opt := (opt p)\<lparr>EntryPool := Some rest\<rparr>\<rparr>)"
    "pool_ok (p\<lparr>opt := (opt p)\<lparr>EntryPool := Some rest\<rparr>\<rparr>)" "entry_ok e" "logger e = Some a" "eid e = newId"
    "bucketId e = BucketId (opt p)" "severity e = sev" "message e = take 255 msg"
    "ttlEntry e = lg_ttlEntry (loggers p ! a)" "ttlMeta e = lg_ttlMeta (loggers p ! a)" "categoryId e = lg_categoryId (loggers p ! a)"
    "metaCount e = 0" "metricCount e = 0" "stackTraceCount e = 0"
    "take (tagsCount e) (tags e) = take 8 (map tag_text (filter (\<lambda>x. x \<noteq> AString []) (case tgs of None \<Rightarrow> [] | Some ts \<Rightarrow> ts)))"
    "level e = (if tgs = None then L_CategoryId else L_Tags)"
proof -
  obtain e0 rest where g: "Pool_Entry pick p = Some (e0, p\<lparr>opt := (opt p)\<lparr>EntryPool := Some rest\<rparr>\<rparr>)" "entry_clean e0"
    "pool_ok (p\<lparr>opt := (opt p)\<lparr>EntryPool := Some rest\<rparr>\<rparr>)" using Pool_Entry_ok [OF assms(1)] by blast
  let ?l = "loggers p ! a"
  let ?e = "incLevel (e0\<lparr>bucketId := BucketId (opt p), logger := Some a, eid := newId, severity := sev,
               message := Utils.truncate msg 255, ttlEntry := lg_ttlEntry ?l, ttlMeta := lg_ttlMeta ?l,
               categoryId := lg_categoryId ?l\<rparr>) L_CategoryId"
  let ?r = "case tgs of None \<Rightarrow> ?e | Some ts \<Rightarrow> Entry_Tag ts ?e"
  have log: "Logger_log newId pick a sev msg tgs p = Some (?r, p\<lparr>opt := (opt p)\<lparr>EntryPool := Some rest\<rparr>\<rparr>)"
    using assms(2) g(1) by (simp add: Logger_log_def Let_def split: option.split)
  have e: "entry_ok ?e" "level ?e = 4" "tagsCount ?e = 0"
    using g(2) assms(3) clean_entry_ok [OF g(2)]
    by (simp_all add: entry_clean_def entry_usable_def entry_ok_def entry_shape_def counts_ok_def strings_ok_def incLevel_def
        length_truncate)
  have frame: "level (tag_loop ts x) = level x \<and> logger (tag_loop ts x) = logger x \<and> eid (tag_loop ts x) = eid x \<and>
      bucketId (tag_loop ts x) = bucketId x \<and> severity (tag_loop ts x) = severity x \<and> message (tag_loop ts x) = message x \<and>
      ttlEntry (tag_loop ts x) = ttlEntry x \<and> ttlMeta (tag_loop ts x) = ttlMeta x \<and> categoryId (tag_loop ts x) = categoryId x \<and>
      metaCount (tag_loop ts x) = metaCount x \<and> metricCount (tag_loop ts x) = metricCount x \<and>
      stackTraceCount (tag_loop ts x) = stackTraceCount x" for ts x
    by (induction ts arbitrary: x) simp_all
  have "length (tags (incLevel ?e 5)) = 8" "tagsCount (incLevel ?e 5) \<le> 8"
    using e by (simp_all add: entry_ok_def entry_shape_def incLevel_def)
  note view = tag_loop_view [OF this]
  have ok: "entry_ok ?r" using e(1) by (cases tgs) (simp_all add: Tag_ok)
  have tg: "take (tagsCount ?r) (tags ?r) = take 8 (map tag_text (filter (\<lambda>x. x \<noteq> AString []) (case tgs of None \<Rightarrow> [] | Some ts \<Rightarrow> ts)))"
    using view e(3) by (cases tgs) (simp_all add: Entry_Tag_def, simp add: incLevel_def)
  show thesis
    by (rule that [OF log g(3) ok _ _ _ _ _ _ _ _ _ _ _ tg])
      (use g(2) in \<open>simp_all add: Entry_Tag_def frame incLevel_def entry_clean_def truncate_take split: option.split\<close>)
qed

text \<open>
  C8: an entry made by a logger and sent is handed to the client once, under the ID that \<open>Send\<close>
  returns, with the pool's bucket, the severity, the message cut to 255 bytes, its own tags followed
  by those of the logger up to eight, the first 32 meta pairs and metrics of the logger, and the
  logger's category and times to live; and it is within the limits of the wire format.
\<close>

theorem logged_entry_processed:
  assumes "pool_ok p" and "nth_opt (loggers p) a = Some l" and "length newId = 12"
  shows "\<exists>e p1 e' p2. Logger_log newId pick a sev msg tgs p = Some (e, p1) \<and>
    Entry_Send None e p1 = Some (newId, e', p2) \<and> processed p2 = processed p @ [e'] \<and> entry_ok e' \<and>
    bucketId e' = BucketId (opt p) \<and> eid e' = newId \<and> severity e' = sev \<and> message e' = take 255 msg \<and>
    Reader_Tags e' = Some (take 8 (map tag_text (filter (\<lambda>x. x \<noteq> AString []) (case tgs of None \<Rightarrow> [] | Some ts \<Rightarrow> ts)) @ lg_tags l)) \<and>
    Reader_Meta e' = Some (take 32 (lg_metaKeys l), take 32 (lg_metaValues l)) \<and>
    Reader_Metrics e' = Some (take 32 (lg_metricKeys l), take 32 (lg_metricValues l)) \<and>
    categoryId e' = lg_categoryId l \<and> ttlEntry e' = lg_ttlEntry l \<and> ttlMeta e' = lg_ttlMeta l"
proof -
  have a: "a < length (loggers p)" "loggers p ! a = l" using assms(2) by (auto simp: nth_opt_Some_iff)
  obtain e rest where e: "Logger_log newId pick a sev msg tgs p = Some (e, p\<lparr>opt := (opt p)\<lparr>EntryPool := Some rest\<rparr>\<rparr>)"
    "pool_ok (p\<lparr>opt := (opt p)\<lparr>EntryPool := Some rest\<rparr>\<rparr>)" "entry_ok e" "logger e = Some a" "eid e = newId"
    "bucketId e = BucketId (opt p)" "severity e = sev" "message e = take 255 msg"
    "ttlEntry e = lg_ttlEntry l" "ttlMeta e = lg_ttlMeta l" "categoryId e = lg_categoryId l"
    "metaCount e = 0" "metricCount e = 0"
    "take (tagsCount e) (tags e) = take 8 (map tag_text (filter (\<lambda>x. x \<noteq> AString []) (case tgs of None \<Rightarrow> [] | Some ts \<Rightarrow> ts)))"
    using log_ok [OF assms(1) a(1) assms(3), of pick sev msg tgs thesis] a(2) by blast
  let ?p = "p\<lparr>opt := (opt p)\<lparr>EntryPool := Some rest\<rparr>\<rparr>"
  have l: "logger_ok l" using pool_logger_ok [OF assms(1) a(1)] a(2) by simp
  have sh: "entry_shape e" "counts_ok e" using e(3) by (simp_all add: entry_ok_def)
  have "Entry_Send None e ?p = Some (newId, with_context l e, ?p\<lparr>processed := processed ?p @ [with_context l e]\<rparr>)"
    using Send_context [OF sh e(4) _ l, of ?p] a e(5) by simp
  moreover have "take 8 (take 8 xs @ ys) = take 8 (xs @ ys)" for xs ys :: "gostring list" by (simp add: min_def)
  moreover note with_context_reads [OF sh l] with_context_ok [OF e(3) l]
  ultimately show ?thesis using e(1,5-)
    by (intro exI [of _ e] exI [of _ ?p] exI [of _ "with_context l e"]
        exI [of _ "?p\<lparr>processed := processed ?p @ [with_context l e]\<rparr>"])
      (simp del: take_append)
qed

lemma child_ok:
  assumes "pool_ok p" "a < length (loggers p)" "a \<notin> set (loggerPool p)"
  obtains b p' where "Logger_Logger pick a p = Some (b, p')" "b \<noteq> a" "pool_ok p'" "length (loggers p) \<le> length (loggers p')"
    "nth_opt (loggers p') b = Some (loggers p ! a)" "nth_opt (loggers p') a = Some (loggers p ! a)"
proof -
  obtain b p1 where b: "Pool_Logger pick p = (b, p1)" by force
  note k = Pool_Logger_ok [OF assms(1) b]
  define l where "l = loggers p ! a"
  note a = assms(2) l_def [symmetric]
  have len: "length (loggers p) \<le> length (loggers p1)" using arg_cong [OF k(7), of length] by simp
  have pa: "loggers p1 ! a = l" using k(7) a nth_take [of a "length (loggers p)" "loggers p1"] by simp
  have "b \<in> set (loggerPool p) \<or> b = length (loggers p)"
    using b pool_get_mem [of pick "loggerPool p"] by (auto simp: Pool_Logger_def split: prod.splits option.splits)
  then have ba: "b \<noteq> a" using a(1) assms(3) by auto
  let ?f = "\<lambda>l2. l2\<lparr>lg_categoryId := lg_categoryId l, lg_metaKeys := lg_metaKeys l2 @ lg_metaKeys l,
      lg_metaValues := lg_metaValues l2 @ lg_metaValues l, lg_metricKeys := lg_metricKeys l2 @ lg_metricKeys l,
      lg_metricValues := lg_metricValues l2 @ lg_metricValues l, lg_tags := lg_tags l2 @ lg_tags l,
      lg_ttlEntry := lg_ttlEntry l, lg_ttlMeta := lg_ttlMeta l\<rparr>"
  have f: "?f (loggers p1 ! b) = l" by (simp add: k(4) new_logger_def)
  have "\<exists>p'. on_logger b ?f p1 = Some p' \<and> pool_ok p'"
    by (rule on_logger_ok [OF k(1,2,3)]) (simp add: f pool_logger_ok [OF assms(1) a(1), unfolded a(2)])
  then obtain p' where p': "on_logger b ?f p1 = Some p'" "pool_ok p'" by blast
  have p'_eq: "p' = p1\<lparr>loggers := (loggers p1)[b := l]\<rparr>" using p'(1) k(2) f by (simp add: on_logger_def)
  have "Logger_Logger pick a p = Some (b, p')" using a b p'(1) by (simp add: Logger_Logger_def Let_def)
  moreover have "nth_opt (loggers p') b = Some l" "nth_opt (loggers p') a = Some l"
    using k(2) ba pa a(1) len by (simp_all add: p'_eq)
  ultimately show thesis using that [of b p'] ba p'(2) len by (simp add: p'_eq l_def)
qed


subsection \<open>What of the context reaches the wire\<close>

lemma enc_levels_context:
  "\<forall>i\<in>set ls. i \<le> 4 \<Longrightarrow> enc_levels (with_context l e) ls w = enc_levels e ls w"
proof (induction ls arbitrary: w)
  case (Cons i ls)
  then have "enc_level (with_context l e) i w = enc_level e i w"
    by (auto simp: enc_level_def with_context_def)
  with Cons show ?case by (cases "enc_level e i w") simp_all
qed simp


definition service_pool :: Pool where
  "service_pool = \<lparr>loggers = [(new_logger \<lparr>EntryPool = None, BucketId = 7, DefaultEntryTTL = 30, DefaultMetaTTL = 30, StackTraceSeverity = 5\<rparr>)
       \<lparr>lg_tags := [lit ''api''], lg_metaKeys := [lit ''host''], lg_metaValues := [lit ''a1'']\<rparr>],
     loggerPool = [], processed = [],
     opt = \<lparr>EntryPool = Some [], BucketId = 7, DefaultEntryTTL = 30, DefaultMetaTTL = 30, StackTraceSeverity = 5\<rparr>\<rparr>"

lemma service_pool_ok: "pool_ok service_pool"
  by (simp add: service_pool_def pool_ok_def logger_ok_def new_logger_def)

lemma service_logger: "nth_opt (loggers service_pool) 0 = Some (loggers service_pool ! 0)"
  by (simp add: service_pool_def)

theorem logged_entry_processed_witness:
  "\<exists>e p1 e' p2. Logger_log (replicate 12 1) None 0 ERR (lit ''%s failed'') (Some [AString (lit ''job'')]) service_pool = Some (e, p1) \<and>
    Entry_Send None e p1 = Some (replicate 12 1, e', p2) \<and> processed p2 = [e'] \<and> entry_ok e' \<and> bucketId e' = 7 \<and>
    Reader_Tags e' = Some [lit ''job'', lit ''api''] \<and> Reader_Meta e' = Some ([lit ''host''], [lit ''a1''])"
proof -
  have "map tag_text (filter (\<lambda>x. x \<noteq> AString []) [AString (lit ''job'')]) = [lit ''job'']" by code_simp
  then show ?thesis
    using logged_entry_processed [OF service_pool_ok service_logger, of "replicate 12 1" None ERR "lit ''%s failed''" "Some [AString (lit ''job'')]"]
    by (simp add: service_pool_def del: filter.simps list.map) blast
qed



subsection \<open>Any sequence of calls\<close>

text \<open>
  An application holds loggers by address and entries by their position in the list \<open>held\<close>, and
  calls the interface in any order.
\<close>

datatype app_call =
    NewLogger "nat option" | ChildLogger "nat option" nat | DropLogger nat
  | SetCat nat byte | SetTag nat "go_any list" | SetMeta nat gostring go_any | SetMetaBlob nat go_any
  | SetMetric nat gostring u32 | SetTTL nat int | SetMetaTTL nat int
  | Log xid "nat option" nat Severity gostring "go_any list option"
  | BuildEntry nat build_op | SendEntry nat "byte list option" | DropEntry nat
  | SendErr "nat option" nat gostring

record app =
  app_pool :: Pool
  held :: "Entry list"

fun logger_call :: "app_call \<Rightarrow> (nat \<times> (Logger \<Rightarrow> Logger)) option" where
  "logger_call (SetCat a c) = Some (a, Logger_Cat c)"
| "logger_call (SetTag a ts) = Some (a, Logger_Tag ts)"
| "logger_call (SetMeta a k v) = Some (a, Logger_Meta k v)"
| "logger_call (SetMetaBlob a v) = Some (a, Logger_MetaBlob v)"
| "logger_call (SetMetric a k v) = Some (a, Logger_Metric k v)"
| "logger_call (SetTTL a d) = Some (a, Logger_TTL d)"
| "logger_call (SetMetaTTL a d) = Some (a, Logger_MetaTTL d)"
| "logger_call _ = None"

fun app_exec :: "(int \<Rightarrow> nat \<times> frame list) \<Rightarrow> app_call \<Rightarrow> app \<Rightarrow> app option" where
  "app_exec callers (NewLogger pick) s = Some (s\<lparr>app_pool := snd (Pool_Logger pick (app_pool s))\<rparr>)"
| "app_exec callers (ChildLogger pick a) s =
    map_option (\<lambda>(_, p). s\<lparr>app_pool := p\<rparr>) (Logger_Logger pick a (app_pool s))"
| "app_exec callers (DropLogger a) s = map_option (\<lambda>p. s\<lparr>app_pool := p\<rparr>) (Logger_Drop a (app_pool s))"
| "app_exec callers (Log newId pick a sev msg tgs) s =
    map_option (\<lambda>(e, p). s\<lparr>app_pool := p, held := held s @ [e]\<rparr>) (Logger_log newId pick a sev msg tgs (app_pool s))"
| "app_exec callers (BuildEntry i op) s = do {
     e \<leftarrow> nth_opt (held s) i; Some (s\<lparr>held := (held s)[i := build callers op e]\<rparr>) }"
| "app_exec callers (SendEntry i cat) s = do {
     e \<leftarrow> nth_opt (held s) i;
     (_, e, p) \<leftarrow> Entry_Send cat e (app_pool s);
     Some (s\<lparr>app_pool := p, held := (held s)[i := e]\<rparr>) }"
| "app_exec callers (DropEntry i) s = do {
     e \<leftarrow> nth_opt (held s) i;
     p \<leftarrow> Entry_Drop e (app_pool s);
     Some (s\<lparr>app_pool := p, held := take i (held s) @ drop (Suc i) (held s)\<rparr>) }"
| "app_exec callers (SendErr pick a txt) s =
    map_option (\<lambda>(_, p). s\<lparr>app_pool := p\<rparr>) (Logger_Send pick a (ErrText txt) (app_pool s))"
| "app_exec callers c s = (case logger_call c of
     Some (a, f) \<Rightarrow> map_option (\<lambda>p. s\<lparr>app_pool := p\<rparr>) (on_logger a f (app_pool s)) | None \<Rightarrow> None)"

text \<open>
  What is asked of the application: it uses loggers and entries it holds and has not dropped, sets
  no message of more than 255 bytes with \<open>Msg\<close>, and gives \<open>Send\<close> no empty category slice.
\<close>

definition live :: "app \<Rightarrow> nat \<Rightarrow> bool" where
  "live s a \<longleftrightarrow> a < length (loggers (app_pool s)) \<and> a \<notin> set (loggerPool (app_pool s))"

fun call_ok :: "app_call \<Rightarrow> app \<Rightarrow> bool" where
  "call_ok (NewLogger pick) s = True"
| "call_ok (ChildLogger pick a) s = live s a"
| "call_ok (DropLogger a) s = live s a"
| "call_ok (Log newId pick a sev msg tgs) s = (live s a \<and> length newId = 12)"
| "call_ok (BuildEntry i op) s = (i < length (held s) \<and> build_arg_ok op)"
| "call_ok (SendEntry i cat) s = (i < length (held s) \<and> cat \<noteq> Some [])"
| "call_ok (DropEntry i) s = (i < length (held s))"
| "call_ok (SendErr pick a txt) s = live s a"
| "call_ok c s = (case logger_call c of Some (a, f) \<Rightarrow> live s a | None \<Rightarrow> False)"

fun app_run :: "(int \<Rightarrow> nat \<times> frame list) \<Rightarrow> app_call list \<Rightarrow> app \<Rightarrow> app option" where
  "app_run callers [] s = Some s"
| "app_run callers (c # cs) s = do { s \<leftarrow> app_exec callers c s; app_run callers cs s }"

fun calls_ok :: "(int \<Rightarrow> nat \<times> frame list) \<Rightarrow> app_call list \<Rightarrow> app \<Rightarrow> bool" where
  "calls_ok callers [] s = True"
| "calls_ok callers (c # cs) s =
    (call_ok c s \<and> (case app_exec callers c s of None \<Rightarrow> True | Some s' \<Rightarrow> calls_ok callers cs s'))"

definition entry_held_ok :: "Pool \<Rightarrow> Entry \<Rightarrow> bool" where
  "entry_held_ok p e \<longleftrightarrow> entry_ok e \<and> (\<forall>a. logger e = Some a \<longrightarrow> a < length (loggers p))"

definition app_ok :: "app \<Rightarrow> bool" where
  "app_ok s \<longleftrightarrow> pool_ok (app_pool s) \<and> list_all (entry_held_ok (app_pool s)) (held s)"

lemma build_logger [simp]: "logger (build callers op e) = logger e"
proof -
  have inc: "logger (incLevel x n) = logger x" for x n by (simp add: incLevel_def)
  have tl: "logger (tag_loop ts x) = logger x" for ts x by (induction ts arbitrary: x) simp_all
  have pl: "logger (prepend_loop i ts x) = logger x" for i ts x by (induction ts arbitrary: i x) (simp_all add: Let_def)
  have fl: "logger (frame_loop is fs x) = logger x" for "is" fs x by (induction "is" arbitrary: fs x) (simp_all add: Let_def)
  have mt: "logger (Entry_Meta k v x) = logger x" for k v x by (simp add: Entry_Meta_def Let_def inc)
  have mf: "logger (fold (\<lambda>(k, v). Entry_Meta k (g v)) kvs x) = logger x" for kvs x and g :: "'x \<Rightarrow> go_any"
    by (induction kvs arbitrary: x) (auto simp: mt)
  have mm: "logger (Entry_MetaFromMap m x) = logger x" for m x
    using mf [of "\<lambda>v. v"] mf [of AString] by (cases m) simp_all
  show ?thesis
    by (cases op)
      (simp_all add: Entry_Bucket_def Entry_Id_def Entry_Msg_def Entry_Sev_def Entry_Cat_def Entry_Tag_def Entry_PrependTag_def
        Entry_MetaBlob_def Entry_Metric_def Entry_Trace_def addStackTrace_def Entry_ManualTrace_def Entry_TTL_def
        Entry_MetaTTL_def Let_def inc tl pl fl mt mm split: prod.split)
qed

lemma logger_call_ok:
  assumes "logger_call c = Some (a, f)" "logger_ok l"
  shows "logger_ok (f l)"
proof -
  have "logger_ok (Logger_Tag ts l)" for ts using assms(2)
    by (induction ts l rule: Logger_Tag.induct) (auto simp: logger_ok_def length_truncate)
  with assms show ?thesis
    by (cases c) (auto simp: Logger_Cat_def Logger_Meta_def Logger_MetaBlob_def Logger_Metric_def Logger_TTL_def
        Logger_MetaTTL_def logger_ok_def length_truncate)
qed

lemma take_tag_ok:
  assumes "entry_ok e"
  shows "entry_ok (snd (take_tag s e))"
proof -
  let ?t = "Trim (lit (CHR 0x27 # ''. '')) s"
  have "length ?t \<le> length (dropWhile (\<lambda>c. c \<in> set (lit (CHR 0x27 # ''. ''))) s)"
    by (simp add: Trim_def Let_def) (metis length_dropWhile_le length_rev)
  also have "\<dots> \<le> length s" by (rule length_dropWhile_le)
  finally have t: "length ?t \<le> length s" .
  have "entry_ok (e\<lparr>tags := (tags e)[tagsCount e := ?t], tagsCount := tagsCount e + 1\<rparr>)"
    if "length s \<le> 32" "tagsCount e < 8"
    using assms that t nth_update_all [of "tagsCount e" "tags e" "\<lambda>t. length t \<le> 255" ?t]
    by (simp add: entry_ok_def entry_shape_def counts_ok_def strings_ok_def)
  with assms show ?thesis by (simp add: take_tag_def not_le not_less)
qed

lemma ReplaceAll_ok: "entry_ok e \<Longrightarrow> entry_ok (snd (ReplaceAll take_tag str e))"
proof (induction take_tag str e rule: ReplaceAll.induct)
  case (2 c cs e)
  show ?case
  proof (cases "match_at (c # cs)")
    case None
    with 2 show ?thesis by (simp split: prod.split) (metis snd_conv)
  next
    case (Some n)
    obtain t e1 where t: "take_tag (take n (c # cs)) e = (t, e1)" by force
    then have "entry_ok e1" using take_tag_ok [OF "2.prems"] by (metis snd_conv)
    then have "entry_ok (snd (ReplaceAll take_tag (drop n (c # cs)) e1))" using "2.hyps"(2) [OF Some t [symmetric]] by blast
    with Some t show ?thesis by (simp split: prod.split) (metis snd_conv)
  qed
qed simp

lemma parseErrorString_ok:
  assumes "entry_ok e"
  shows "entry_ok (parseErrorString e str)"
proof -
  have "entry_ok (e\<lparr>tagsCount := 0\<rparr>)" using assms by (simp add: entry_ok_def entry_shape_def counts_ok_def strings_ok_def)
  from ReplaceAll_ok [OF this, of str] show ?thesis
    by (auto simp: parseErrorString_def entry_ok_def entry_shape_def counts_ok_def strings_ok_def length_truncate split: prod.split)
qed

lemma Send_ok:
  assumes "pool_ok p" "entry_held_ok p e" "cat \<noteq> Some []"
  obtains i e' p' where "Entry_Send cat e p = Some (i, e', p')" "entry_held_ok p e'" "pool_ok p'" "loggers p' = loggers p"
proof -
  have cat: "entry_ok (Entry_Cat c e)" "logger (Entry_Cat c e) = logger e" "eid (Entry_Cat c e) = eid e" for c
    using assms(2) by (simp_all add: entry_held_ok_def scalar_ok) (simp_all add: Entry_Cat_def incLevel_def)
  obtain e1 where e1: "(case cat of None \<Rightarrow> Some e | Some cs \<Rightarrow> map_option (\<lambda>c. Entry_Cat c e) (nth_opt cs 0)) = Some e1"
    "entry_ok e1" "logger e1 = logger e" "eid e1 = eid e"
    using assms(2,3) cat by (cases cat) (auto simp: entry_held_ok_def nth_opt_def)
  have sn: "Entry_Send cat e p = Entry_Send None e1 p" using e1(1,4) by (simp add: Entry_Send_def Let_def)
  show thesis
  proof (cases "logger e1")
    case None
    then have "Entry_Send cat e p = Some (eid e, e1, p)" using e1(4) by (simp add: sn) (simp add: Entry_Send_def)
    then show thesis using that [of _ e1 p] e1(2) None assms(1) by (simp add: entry_held_ok_def)
  next
    case (Some a)
    let ?l = "loggers p ! a" and ?e = "with_context (loggers p ! a) e1"
    have a: "a < length (loggers p)" using assms(2) Some e1(3) by (simp add: entry_held_ok_def)
    note l = pool_logger_ok [OF assms(1) a]
    have "Entry_Send None e1 p = Some (eid e1, ?e, p\<lparr>processed := processed p @ [?e]\<rparr>)"
      by (rule Send_context [OF _ _ Some _ l]) (use e1(2) a in \<open>simp_all add: entry_ok_def\<close>)
    moreover have "entry_ok ?e" by (rule with_context_ok [OF e1(2) l])
    ultimately show thesis using that [of "eid e" ?e "p\<lparr>processed := processed p @ [?e]\<rparr>"] sn e1(4) assms(1) a Some
      by (simp add: pool_ok_def entry_held_ok_def)
  qed
qed

lemma Pool_Send_ok:
  assumes "pool_ok p"
  shows "\<exists>i p'. Pool_Send pick (ErrText txt) p = Some (i, p') \<and> pool_ok p' \<and> loggers p' = loggers p"
proof -
  obtain e rest where g: "Pool_Entry pick p = Some (e, p\<lparr>opt := (opt p)\<lparr>EntryPool := Some rest\<rparr>\<rparr>)" "entry_clean e"
    "pool_ok (p\<lparr>opt := (opt p)\<lparr>EntryPool := Some rest\<rparr>\<rparr>)" using Pool_Entry_ok [OF assms] by blast
  have "entry_ok (parseErrorString (e\<lparr>severity := ERR\<rparr>) txt)"
    using clean_entry_ok [OF g(2)] by (intro parseErrorString_ok) (simp add: scalar_ok(2) [unfolded Entry_Sev_def])
  with g show ?thesis by (simp add: Pool_Send_def Let_def pool_ok_def)
qed

lemma held_mono: "list_all (entry_held_ok p) es \<Longrightarrow> length (loggers p) \<le> length (loggers p') \<Longrightarrow> list_all (entry_held_ok p') es"
  by (auto simp: list_all_iff entry_held_ok_def)

lemma held_nth: "app_ok s \<Longrightarrow> i < length (held s) \<Longrightarrow> entry_held_ok (app_pool s) (held s ! i)"
  by (simp add: app_ok_def list_all_length)

lemma app_okI: "app_ok s \<Longrightarrow> pool_ok p \<Longrightarrow> length (loggers (app_pool s)) \<le> length (loggers p) \<Longrightarrow> app_ok (s\<lparr>app_pool := p\<rparr>)"
  by (auto simp: app_ok_def intro: held_mono)

lemma app_ok_held: "app_ok s \<Longrightarrow> entry_held_ok (app_pool s) e \<Longrightarrow> app_ok (s\<lparr>held := (held s)[i := e]\<rparr>)"
  by (auto simp: app_ok_def list_all_iff dest: set_update_subset_insert [THEN subsetD])

lemma on_logger_frame: "on_logger a f p = Some p' \<Longrightarrow> length (loggers p') = length (loggers p)"
  by (auto simp: on_logger_def bind_eq_Some_conv)

lemma logger_step_ok:
  assumes "app_ok s" "logger_call c = Some (a, f)" "live s a"
  shows "\<exists>p. on_logger a f (app_pool s) = Some p \<and> app_ok (s\<lparr>app_pool := p\<rparr>)"
proof -
  have p: "pool_ok (app_pool s)" using assms(1) by (simp add: app_ok_def)
  obtain q where "on_logger a f (app_pool s) = Some q" "pool_ok q"
    using on_logger_ok [OF p, of a f] logger_call_ok [OF assms(2)] pool_logger_ok [OF p] assms(3) by (auto simp: live_def)
  with assms(1) show ?thesis by (auto intro!: app_okI dest: on_logger_frame)
qed

lemma entry_step_ok:
  assumes "app_ok s" "callers_ok callers" "i < length (held s)"
  shows "build_arg_ok op \<Longrightarrow> \<exists>s'. app_exec callers (BuildEntry i op) s = Some s' \<and> app_ok s'"
    "cat \<noteq> Some [] \<Longrightarrow> \<exists>s'. app_exec callers (SendEntry i cat) s = Some s' \<and> app_ok s'"
    "\<exists>s'. app_exec callers (DropEntry i) s = Some s' \<and> app_ok s'"
proof -
  note e = held_nth [OF assms(1,3)]
  have p: "pool_ok (app_pool s)" using assms(1) by (simp add: app_ok_def)
  show "\<exists>s'. app_exec callers (BuildEntry i op) s = Some s' \<and> app_ok s'" if "build_arg_ok op"
    using e assms(3) that build_step_ok [OF assms(2) that] app_ok_held [OF assms(1)] by (simp add: entry_held_ok_def)
  show "\<exists>s'. app_exec callers (SendEntry i cat) s = Some s' \<and> app_ok s'" if cat: "cat \<noteq> Some []"
  proof -
    obtain j e' p' where r: "Entry_Send cat (held s ! i) (app_pool s) = Some (j, e', p')" "entry_held_ok (app_pool s) e'"
      "pool_ok p'" "loggers p' = loggers (app_pool s)" using Send_ok [OF p e cat] by blast
    have "app_ok (s\<lparr>held := (held s)[i := e']\<rparr>\<lparr>app_pool := p'\<rparr>)"
      by (rule app_okI [OF app_ok_held [OF assms(1) r(2)] r(3)]) (simp add: r(4))
    with r(1) assms(3) show ?thesis by (simp add: app_ok_def)
  qed
  show "\<exists>s'. app_exec callers (DropEntry i) s = Some s' \<and> app_ok s'"
  proof -
    obtain p' where r: "Entry_Drop (held s ! i) (app_pool s) = Some p'" "pool_ok p'" "loggers p' = loggers (app_pool s)"
      using ReleaseEntry_ok [OF p ok_entry_usable, of "held s ! i"] e p by (cases "logger (held s ! i)") (auto simp: Entry_Drop_def entry_held_ok_def)
    have "list_all (entry_held_ok p') (take i (held s) @ drop (Suc i) (held s))"
      using assms(1) r(3) by (auto simp: app_ok_def list_all_iff entry_held_ok_def dest!: in_set_takeD in_set_dropD)
    with r assms(3) show ?thesis by (simp add: app_ok_def)
  qed
qed

lemma logger_exec:
  "logger_call c = Some (a, f) \<Longrightarrow>
    app_exec callers c s = map_option (\<lambda>p. s\<lparr>app_pool := p\<rparr>) (on_logger a f (app_pool s)) \<and> call_ok c s = live s a"
  by (cases c) auto

lemma other_step_ok:
  assumes "app_ok s" "callers_ok callers" "call_ok c s" "logger_call c = None"
  shows "\<exists>s'. app_exec callers c s = Some s' \<and> app_ok s'"
proof -
  have p: "pool_ok (app_pool s)" using assms(1) by (simp add: app_ok_def)
  show ?thesis
  proof (cases c)
    case (NewLogger pick)
    obtain b p' where b: "Pool_Logger pick (app_pool s) = (b, p')" by force
    note k = Pool_Logger_ok [OF p b]
    have "length (loggers (app_pool s)) \<le> length (loggers p')" using arg_cong [OF k(7), of length] by simp
    with k(1) b NewLogger show ?thesis by (simp add: app_okI [OF assms(1)])
  next
    case (ChildLogger pick a)
    then have a: "a < length (loggers (app_pool s))" "a \<notin> set (loggerPool (app_pool s))" using assms(3) by (simp_all add: live_def)
    obtain b p' where b: "Logger_Logger pick a (app_pool s) = Some (b, p')" "pool_ok p'"
      "length (loggers (app_pool s)) \<le> length (loggers p')" using child_ok [OF p a] by blast
    with ChildLogger show ?thesis by (simp add: app_okI [OF assms(1)])
  next
    case (DropLogger a)
    with assms(3) obtain p' where "Logger_Drop a (app_pool s) = Some p'" "pool_ok p'"
      using ReleaseLogger_ok [OF p] by (auto simp: live_def Logger_Drop_def)
    moreover from this have "length (loggers p') = length (loggers (app_pool s))"
      by (auto simp: Logger_Drop_def ReleaseLogger_def bind_eq_Some_conv dest: on_logger_frame)
    ultimately show ?thesis using DropLogger by (simp add: app_okI [OF assms(1)])
  next
    case (Log newId pick a sev msg tgs)
    then have a: "a < length (loggers (app_pool s))" "length newId = 12" using assms(3) by (simp_all add: live_def)
    obtain e rest where e: "Logger_log newId pick a sev msg tgs (app_pool s) =
        Some (e, (app_pool s)\<lparr>opt := (opt (app_pool s))\<lparr>EntryPool := Some rest\<rparr>\<rparr>)"
      "pool_ok ((app_pool s)\<lparr>opt := (opt (app_pool s))\<lparr>EntryPool := Some rest\<rparr>\<rparr>)" "entry_ok e" "logger e = Some a"
      using log_ok [OF p a, of pick sev msg tgs thesis] by blast
    have "app_ok (s\<lparr>app_pool := (app_pool s)\<lparr>opt := (opt (app_pool s))\<lparr>EntryPool := Some rest\<rparr>\<rparr>\<rparr>)"
      by (rule app_okI [OF assms(1) e(2)]) simp
    with e a Log show ?thesis by (simp add: app_ok_def entry_held_ok_def)
  next
    case (SendErr pick a msg)
    with assms(3) Pool_Send_ok [OF p, of pick msg] show ?thesis
      by (auto simp: Logger_Send_def live_def intro!: app_okI [OF assms(1)])
  qed (use assms(3,4) in \<open>simp_all add: entry_step_ok [OF assms(1,2)] del: app_exec.simps\<close>)
qed

lemma app_step_ok:
  assumes "app_ok s" "callers_ok callers" "call_ok c s"
  shows "\<exists>s'. app_exec callers c s = Some s' \<and> app_ok s'"
proof (cases "logger_call c")
  case None
  then show ?thesis by (rule other_step_ok [OF assms])
next
  case (Some af)
  then have c: "logger_call c = Some (fst af, snd af)" by simp
  then show ?thesis using logger_step_ok [OF assms(1) c] assms(3) logger_exec [OF c, of callers s] by auto
qed



end
