(* ===== verification/Client_Progress.thy ===== *)
theory Client_Progress
  imports Client_Runs
begin

text \<open>
  Whether the client can get rid of what it holds: from every reachable state in which the sender
  still runs and does not hold a lost connection, a working network lets every held entry be sent
  and acknowledged; but once the sender has ended in a graceful close, entries that have to be sent
  again stay for ever.
\<close>

subsection \<open>Nothing waits for a response without a connection\<close>

definition held :: "TlsClient \<Rightarrow> bool" where
  \<comment> \<open>what awaits a response can get one, or is about to be sent again\<close>
  "held c \<longleftrightarrow> (sent (ch c) \<noteq> [] \<longrightarrow> conn (cnet c) \<noteq> None \<or> pending (ch c) \<noteq> [] \<or> receiver c = RRewind) \<and>
     (sender c = SDisconnect \<longrightarrow> pending (ch c) \<noteq> []) \<and> (receiver c = RStopped \<longrightarrow> closed (ch c))"

lemma produce_cases:
  assumes "client_ok c" "Client_ProcessEntry e c = Some c'"
  obtains "c' = c"
  | h x where "c' = c\<lparr>ch := h, accepted := accepted c @ [x]\<rparr>" "\<not> closedWriting (ch c)" "pending h \<noteq> []" "closed h = closed (ch c)"
proof -
  obtain r where r: "client_write (cwrite c) (ch c) (encode_fill e) = Some r" "c' = (case r of Blocked \<Rightarrow> c
      | Done (ch', ok) \<Rightarrow> c\<lparr>ch := ch', accepted := accepted c @ (if ok then [last (items ch')] else [])\<rparr>)"
    using assms(2) by (auto simp: Client_ProcessEntry_def bind_eq_Some_conv)
  show thesis
  proof (cases r)
    case Blocked
    with r that(1) show thesis by simp
  next
    case (Done q)
    obtain h d where q: "q = (h, d)" by force
    from client_okD(1,2) [OF assms(1)] r(1) [unfolded Done q] show thesis
    proof (cases rule: client_write_done)
      case 1
      with r(2) Done q that(1) show thesis by simp
    next
      case (2 x)
      have "pending h \<noteq> []" using q_put_views(2) [OF 2(4)] by simp
      then show thesis using that(2) [of "last (items h)" h] r(2) Done q 2(1,8,9) by simp
    qed
  qed
qed

lemma sender_read_cases:
  assumes "client_ok c" "outcomes_ok ws" "sender c = SRead" "sender_step r d ds ws c = Some c'"
  obtains h n where "c' = c\<lparr>ch := h, cnet := n, sender := SWait\<rparr>" "conn n \<noteq> None" "closed h = closed (ch c)" "closedWriting h = closedWriting (ch c)"
  | h n where "c' = c\<lparr>ch := h, cnet := n, sender := SDisconnect\<rparr>" "pending h = pending (ch c)" "pending h \<noteq> []"
      "closed h = closed (ch c)" "closedWriting h = closedWriting (ch c)"
proof -
  let ?x = "hd (pending (ch c))"
  have ok: "channel_ok (ch c)" "pending (ch c) \<noteq> []" using assms(1,3) by (simp_all add: client_ok_def)
  have x: "slot_ok ?x" using client_okD(5) [OF assms(1)] ok(2) by auto
  have rd: "toRead (ch c)" using ok by (simp add: toRead_pending)
  have ne: "\<not> ch_empty (ch c)" using empty_pending ok by blast
  obtain n err where w: "write_loop ws (frame ?x) (cnet c) = Some (n, err)"
    using assms(3,4) ne ch_read_ok [OF ok(1) rd] processEntry_frame [OF x, of ws "cnet c"]
    by (auto simp: sender_step_def ReadToCallback_def bind_eq_Some_conv)
  then have cb: "processEntry ws ?x (cnet c) = Some (n, err)" by (simp add: processEntry_frame [OF x])
  obtain h where h: "ReadToCallback (processEntry ws) True (ch c) (cnet c) = Some (h, n, err)"
    "err \<noteq> None \<Longrightarrow> pending h = pending (ch c)" "closed h = closed (ch c)" "closedWriting h = closedWriting (ch c)"
    using ReadToCallback_unread [where cb = "processEntry ws" and undo = True, OF ok(1) rd cb] by auto
  have c': "c' = c\<lparr>ch := h, cnet := n, sender := (if err \<noteq> None \<and> err \<noteq> Some EOF then SDisconnect else SWait)\<rparr>"
    using assms(3,4) h(1) by (simp add: sender_step_def)
  have fne: "frame ?x \<noteq> []" using x by (simp add: slot_ok_def)
  have cn: "pred_option (\<lambda>k. k < length (wires (cnet c))) (conn (cnet c))"
    using assms(1) by (auto simp: client_ok_def wires_ok_def)
  obtain k p where k: "conn (cnet c) = Some k" "n = wire_append k p (cnet c)" "err = Some EOF \<longrightarrow> \<not> outcomes_ok ws"
    using write_loop_cases [OF w fne cn] by blast
  show thesis
  proof (cases err)
    case None
    with that(1) [of n h] c' k h(3,4) show thesis by (simp add: wire_append_def)
  next
    case (Some e)
    with that(2) [of n h] c' k(3) assms(2) h(2-4) ok(2) show thesis by auto
  qed
qed

lemma held_exec:
  assumes "client_ok c" "held c" "event_ok ev" "\<forall>r. ev \<noteq> Disconnect r" "client_exec ev c = Some c'"
  shows "held c'"
proof (cases ev)
  case (Produce e)
  with assms(5) have "Client_ProcessEntry e c = Some c'" by simp
  with assms(1) show ?thesis
    by (cases rule: produce_cases) (use assms(2) in \<open>auto simp: held_def\<close>)
next
  case (Sender r d ds ws)
  then have st: "sender_step r d ds ws c = Some c'" "outcomes_ok ws" using assms(3,5) by simp_all
  show ?thesis
  proof (cases "sender c")
    case SRead
    from assms(1) st(2) SRead st(1) show ?thesis
      by (cases rule: sender_read_cases) (use assms(2) in \<open>auto simp: held_def\<close>)
  next
    case SConnect
    then have "pending (ch c) \<noteq> []" using assms(1) by (simp add: client_ok_def)
    with SConnect st(1) assms(2) show ?thesis by (auto simp: sender_step_def held_def split: option.splits)
  qed (use st(1) assms(2) in \<open>auto simp: sender_step_def held_def disconnect_def split: waiting.splits option.splits prod.splits if_splits\<close>)
next
  case (Receiver r rd)
  have ok: "channel_ok (ch c)" using client_okD(1) [OF assms(1)] .
  obtain h where h: "ch_Ack (ch c) = Some h" "sent h = tl (sent (ch c))" "pending h = pending (ch c)" "closed h = closed (ch c)"
    using ch_Ack_ok [OF ok] by blast
  have st: "receiver_step r rd c = Some c'" using Receiver assms(5) by simp
  show ?thesis
  proof (cases "receiver c")
    case RWait
    with st assms(2) show ?thesis
      by (auto simp: receiver_step_def held_def WaitUntilRead_def split: if_splits)
  next
    case (RRead k)
    with st assms(2) h show ?thesis by (cases rd) (auto simp: receiver_step_def held_def)
  next
    case RRewind
    have "closed (fst (ch_Rewind (ch c))) = closed (ch c)" by (simp add: ch_Rewind_def Let_def)
    with RRewind st assms(2) ch_Rewind_ok [OF ok] show ?thesis by (auto simp: receiver_step_def held_def)
  qed (use st assms(2) in \<open>auto simp: receiver_step_def held_def split: option.splits\<close>)
next
  case StopWriting
  have "items (CloseWriting (ch c)) = items (ch c)" by (intro items_frame; simp add: CloseWriting_def)
  then have "sent (CloseWriting (ch c)) = sent (ch c)" "pending (CloseWriting (ch c)) = pending (ch c)"
    by (simp_all add: sent_def pending_def) (simp_all add: CloseWriting_def)
  with StopWriting assms(2,5) show ?thesis by (auto simp: held_def Client_CloseWriting_def) (simp_all add: CloseWriting_def)
next
  case CloseChannel
  have "items (ch_Close (ch c)) = items (ch c)" by (intro items_frame; simp add: ch_Close_def)
  then have "sent (ch_Close (ch c)) = sent (ch c)" "pending (ch_Close (ch c)) = pending (ch c)"
    by (simp_all add: sent_def pending_def) (simp_all add: ch_Close_def)
  with CloseChannel assms(2,5) show ?thesis by (auto simp: held_def Client_CloseChannel_def) (simp_all add: ch_Close_def)
next
  case (Disconnect r)
  with assms(4) show ?thesis by simp
qed

lemma held_run:
  "client_ok c \<Longrightarrow> held c \<Longrightarrow> list_all event_ok evs \<Longrightarrow> \<forall>r. Disconnect r \<notin> set evs \<Longrightarrow> client_run evs c = Some c' \<Longrightarrow> held c'"
proof (induction evs arbitrary: c)
  case (Cons ev evs)
  then obtain c1 where c1: "client_exec ev c = Some c1" "client_run evs c1 = Some c'" by (auto simp: bind_eq_Some_conv)
  then have "client_ok c1" "held c1" using Cons.prems exec_ok [of c ev c1] held_exec [of c ev c1] by auto
  with Cons.IH [of c1] Cons.prems c1(2) show ?case by simp
qed simp

subsection \<open>A working network empties the buffer\<close>

lemma move_receiver_back:
  assumes "client_at v c"
  shows "v_receiver v = RLoad \<Longrightarrow> v_conn v = None \<Longrightarrow> moves (Receiver None ReadNothing) c (v\<lparr>v_receiver := RWait\<rparr>)"
    "v_receiver v = RRead k \<Longrightarrow> moves (Receiver None ReadNothing) c (v\<lparr>v_receiver := RWait\<rparr>)"
    "v_receiver v = RRewind \<Longrightarrow>
      moves (Receiver None ReadNothing) c (v\<lparr>v_receiver := RWait, v_sent := [], v_pend := v_sent v @ v_pend v\<rparr>)"
proof -
  note I = movesI [OF assms, rotated]
  have c: "client_ok c" "\<not> closed (ch c)" "view c = v" using assms by (auto simp: client_at_def)
  have ok: "channel_ok (ch c)" using client_okD(1) [OF c(1)] .
  show "moves (Receiver None ReadNothing) c (v\<lparr>v_receiver := RWait\<rparr>)" if "v_receiver v = RLoad" "v_conn v = None"
  proof -
    have "client_exec (Receiver None ReadNothing) c = Some (c\<lparr>receiver := RWait\<rparr>)"
      using that c(3) by (auto simp: receiver_step_def view_def)
    then show ?thesis by (rule I) (use c in \<open>auto simp: view_def\<close>)
  qed
  show "moves (Receiver None ReadNothing) c (v\<lparr>v_receiver := RWait\<rparr>)" if "v_receiver v = RRead k"
  proof -
    have "client_exec (Receiver None ReadNothing) c = Some (c\<lparr>receiver := RWait\<rparr>)"
      using that c(3) by (auto simp: receiver_step_def view_def)
    then show ?thesis by (rule I) (use c in \<open>auto simp: view_def\<close>)
  qed
  show "moves (Receiver None ReadNothing) c (v\<lparr>v_receiver := RWait, v_sent := [], v_pend := v_sent v @ v_pend v\<rparr>)" if "v_receiver v = RRewind"
  proof -
    let ?h = "fst (ch_Rewind (ch c))"
    have f: "capacity ?h = capacity (ch c)" "closed ?h = closed (ch c)" "closedWriting ?h = closedWriting (ch c)"
      by (simp_all add: ch_Rewind_def Let_def)
    have "client_exec (Receiver None ReadNothing) c = Some (c\<lparr>ch := ?h, receiver := RWait\<rparr>)"
      using that c(3) by (auto simp: receiver_step_def view_def)
    then show ?thesis by (rule I) (use c f ch_Rewind_ok(2,3) [OF ok] in \<open>auto simp: view_def\<close>)
  qed
qed

definition v_all :: "client_view \<Rightarrow> byte list list" where
  \<comment> \<open>everything accepted and not replaced, in order\<close>
  "v_all v = v_acked v @ v_sent v @ v_pend v"

lemma sender_settles:
  assumes "v_sender v \<noteq> SStopped" "v_sender v = SRead \<Longrightarrow> v_conn v \<noteq> None"
    "v_sender v \<noteq> SWait \<Longrightarrow> v_pend v \<noteq> []" "v_sent v \<noteq> [] \<longrightarrow> v_conn v \<noteq> None \<or> v_pend v \<noteq> [] \<or> v_receiver v = RRewind"
  shows "\<exists>v'. reaches v v' \<and> v_sender v' = SWait \<and> v_receiver v' = v_receiver v \<and> v_all v' = v_all v \<and>
    (v_sent v' \<noteq> [] \<longrightarrow> v_conn v' \<noteq> None \<or> v_pend v' \<noteq> [] \<or> v_receiver v' = RRewind)"
proof -
  have w: "\<exists>v'. reaches u v' \<and> v_sender v' = SWait \<and> v_receiver v' = v_receiver u \<and> v_all v' = v_all u \<and> v_conn v' \<noteq> None"
    if u: "v_sender u = SRead" "v_conn u = Some k" "v_pend u = y # ys" for u k y ys
  proof -
    let ?u = "u\<lparr>v_sent := v_sent u @ [y], v_pend := ys, v_wires := (v_wires u)[k := v_wires u ! k @ frame y], v_sender := SWait\<rparr>"
    have "reaches u ?u" by (rule reaches1) (use u move_write(1) in blast)
    then show ?thesis by (intro exI [of _ ?u]) (simp add: v_all_def u(2,3))
  qed
  show ?thesis
  proof (cases "v_sender v")
    case SWait
    with assms(4) show ?thesis by (intro exI [of _ v]) (simp add: reaches.refl)
  next
    case SConnect
    then obtain y ys where y: "v_pend v = y # ys" using assms(3) by (cases "v_pend v") auto
    let ?u = "case v_conn v of None \<Rightarrow> v\<lparr>v_sender := SRead, v_conn := Some (length (v_wires v)), v_wires := v_wires v @ [[]]\<rparr>
      | Some _ \<Rightarrow> v\<lparr>v_sender := SRead\<rparr>"
    have u: "v_sender ?u = SRead" "v_pend ?u = y # ys" "v_receiver ?u = v_receiver v" "v_all ?u = v_all v" "\<exists>k. v_conn ?u = Some k"
      using y by (auto simp: v_all_def split: option.split)
    have r: "reaches v ?u" by (rule reaches1, rule move_connect) (use SConnect in simp_all)
    from u(5) obtain k where "v_conn ?u = Some k" by blast
    from w [OF u(1) this u(2)] obtain v' where v': "reaches ?u v'" "v_sender v' = SWait" "v_receiver v' = v_receiver ?u"
      "v_all v' = v_all ?u" "v_conn v' \<noteq> None" by blast
    then have "v_receiver v' = v_receiver v" "v_all v' = v_all v" by (simp_all only: u(3,4))
    then show ?thesis using reaches_trans [OF r v'(1)] v'(2,5) by blast
  next
    case SRead
    then obtain k y ys where "v_conn v = Some k" "v_pend v = y # ys" using assms(2,3) by (cases "v_pend v") auto
    with w [OF SRead] show ?thesis by blast
  next
    case SDisconnect
    have "reaches v (v\<lparr>v_sender := SWait, v_conn := None\<rparr>)" by (rule reaches1, rule move_disconnect) (use SDisconnect in simp_all)
    moreover have "v_pend v \<noteq> []" using SDisconnect assms(3) by simp
    ultimately show ?thesis by (intro exI [of _ "v\<lparr>v_sender := SWait, v_conn := None\<rparr>"]) (simp add: v_all_def)
  qed (use assms(1) in simp)
qed

lemma receiver_settles:
  assumes "v_sender v = SWait" "v_receiver v \<noteq> RStopped" "v_sent v \<noteq> [] \<longrightarrow> v_conn v \<noteq> None \<or> v_pend v \<noteq> [] \<or> v_receiver v = RRewind"
  shows "\<exists>v'. reaches v v' \<and> v_sender v' = SWait \<and> v_receiver v' = RWait \<and> v_all v' = v_all v \<and>
    (v_sent v' \<noteq> [] \<longrightarrow> v_conn v' \<noteq> None \<or> v_pend v' \<noteq> [])"
proof -
  have rd: "reaches u (u\<lparr>v_receiver := RWait\<rparr>)" if "v_receiver u = RRead k" for u k
    by (rule reaches1, rule move_receiver_back(2)) (use that in simp_all)
  have rw: "reaches u (u\<lparr>v_receiver := RWait, v_sent := [], v_pend := v_sent u @ v_pend u\<rparr>)" if "v_receiver u = RRewind" for u
    by (rule reaches1, rule move_receiver_back(3)) (use that in simp_all)
  show ?thesis
  proof (cases "v_receiver v")
    case RWait
    with assms show ?thesis by (intro exI [of _ v]) (simp add: reaches.refl)
  next
    case RLoad
    show ?thesis
    proof (cases "v_conn v")
      case None
      have "reaches v (v\<lparr>v_receiver := RWait\<rparr>)" by (rule reaches1, rule move_receiver_back(1)) (use RLoad None in simp_all)
      with assms RLoad None show ?thesis by (intro exI [of _ "v\<lparr>v_receiver := RWait\<rparr>"]) (simp add: v_all_def)
    next
      case (Some k)
      have "reaches v (v\<lparr>v_receiver := RRead k\<rparr>)" by (rule reaches1, rule move_receiver(2)) (use RLoad Some in simp_all)
      from reaches_trans [OF this rd [of "v\<lparr>v_receiver := RRead k\<rparr>" k]] assms Some show ?thesis
        by (intro exI [of _ "v\<lparr>v_receiver := RWait\<rparr>"]) (simp add: v_all_def)
    qed
  next
    case (RRead k)
    with rd [OF RRead] assms show ?thesis by (intro exI [of _ "v\<lparr>v_receiver := RWait\<rparr>"]) (simp add: v_all_def)
  next
    case RDisconnect
    let ?u = "v\<lparr>v_receiver := RRewind, v_conn := None\<rparr>"
    have "reaches v ?u" by (rule reaches1, rule move_receiver(5)) (use RDisconnect in simp_all)
    from reaches_trans [OF this rw [of ?u]] assms(1) show ?thesis
      by (intro exI [of _ "?u\<lparr>v_receiver := RWait, v_sent := [], v_pend := v_sent v @ v_pend v\<rparr>"]) (simp add: v_all_def)
  next
    case RRewind
    from rw [OF RRewind] assms(1) show ?thesis
      by (intro exI [of _ "v\<lparr>v_receiver := RWait, v_sent := [], v_pend := v_sent v @ v_pend v\<rparr>"]) (simp add: v_all_def)
  qed (use assms(2) in simp)
qed

lemma all_sent:
  assumes "v_sender v = SWait" "v_receiver v = RWait" "v_sent v \<noteq> [] \<longrightarrow> v_conn v \<noteq> None \<or> v_pend v \<noteq> []"
  shows "\<exists>v'. reaches v v' \<and> v_sender v' = SWait \<and> v_receiver v' = RWait \<and> v_all v' = v_all v \<and> v_pend v' = [] \<and>
    (v_sent v' \<noteq> [] \<longrightarrow> v_conn v' \<noteq> None)"
  using assms
proof (induction "v_pend v" arbitrary: v)
  case Nil
  then show ?case by (intro exI [of _ v]) (simp add: reaches.refl)
next
  case (Cons y ys)
  have "\<exists>u. reaches v u \<and> v_sender u = SWait \<and> v_receiver u = RWait \<and> v_all u = v_all v \<and> v_pend u = ys \<and> v_conn u \<noteq> None"
  proof (cases "v_conn v")
    case None
    from reaches_send(3) [OF Cons.prems(1) Cons.hyps(2) [symmetric] None] Cons.hyps(2) Cons.prems(2) show ?thesis
      by (intro exI [of _ "v\<lparr>v_conn := Some (length (v_wires v)), v_sent := v_sent v @ [y], v_pend := ys,
        v_wires := v_wires v @ [frame y], v_sender := SWait\<rparr>"]) (simp add: v_all_def flip: Cons.hyps(2))
  next
    case (Some k)
    from reaches_send(2) [OF Cons.prems(1) Cons.hyps(2) [symmetric] Some] Cons.hyps(2) Cons.prems(2) Some show ?thesis
      by (intro exI [of _ "v\<lparr>v_sent := v_sent v @ [y], v_pend := ys,
        v_wires := (v_wires v)[k := v_wires v ! k @ frame y], v_sender := SWait\<rparr>"]) (simp add: v_all_def flip: Cons.hyps(2))
  qed
  then obtain u where u: "reaches v u" "v_sender u = SWait" "v_receiver u = RWait" "v_all u = v_all v" "v_pend u = ys" "v_conn u \<noteq> None" by blast
  from Cons.hyps(1) [OF u(5) [symmetric] u(2,3)] u(6) obtain v' where "reaches u v'" "v_sender v' = SWait" "v_receiver v' = RWait"
    "v_all v' = v_all u" "v_pend v' = []" "v_sent v' \<noteq> [] \<longrightarrow> v_conn v' \<noteq> None" by blast
  with u(4) reaches_trans [OF u(1)] show ?case by (intro exI [of _ v']) simp
qed

lemma all_acked:
  assumes "v_receiver v = RWait" "v_pend v = []" "v_sent v \<noteq> [] \<longrightarrow> v_conn v \<noteq> None"
  shows "\<exists>v'. reaches v v' \<and> v_all v' = v_all v \<and> v_pend v' = [] \<and> v_sent v' = []"
  using assms
proof (induction "v_sent v" arbitrary: v)
  case Nil
  then show ?case by (intro exI [of _ v]) (simp add: reaches.refl)
next
  case (Cons x xs)
  obtain k where k: "v_conn v = Some k" using Cons.prems(3) Cons.hyps(2) by auto
  let ?a = "v\<lparr>v_receiver := RLoad\<rparr>" and ?b = "v\<lparr>v_receiver := RRead k\<rparr>"
  let ?c = "v\<lparr>v_receiver := RWait, v_sent := xs, v_acked := v_acked v @ [x]\<rparr>"
  have "reaches v ?a" by (rule reaches1, rule move_receiver(1)) (use Cons.prems(1) in \<open>simp_all flip: Cons.hyps(2)\<close>)
  also have "reaches ?a ?b" using move_receiver(2) [of ?a _ k] k by (intro reaches1) simp
  also have "reaches ?b ?c" using move_receiver(3) [of ?b _ k x xs 1] Cons.hyps(2) by (intro reaches1) simp
  finally have r: "reaches v ?c" .
  have "v_all ?c = v_all v" by (simp add: v_all_def flip: Cons.hyps(2))
  moreover obtain v' where "reaches ?c v'" "v_all v' = v_all ?c" "v_pend v' = []" "v_sent v' = []"
    using Cons.hyps(1) [of ?c] Cons.prems(2) k by auto
  ultimately show ?case using reaches_trans [OF r] by (intro exI [of _ v']) simp
qed

text \<open>
  C23: from every state the client can reach before \<open>Close\<close> with its sender running, except the one
  in which the sender is about to write to a connection the receiver has given up, there is a behaviour of the network and of the scheduler
  after which everything the client holds has been acknowledged, in order, so that
  \<open>WaitUntilSent\<close> returns; also while the client is being closed gracefully.
\<close>

theorem client_can_drain:
  assumes "NewTlsClient cr cert key op = Some (Inr c0)" and "list_all event_ok evs" and "\<forall>r. Disconnect r \<notin> set evs"
    and "client_run evs c0 = Some c" and "\<not> closed (ch c)" and "sender c \<noteq> SStopped" and "sender c = SRead \<longrightarrow> conn (cnet c) \<noteq> None"
  shows "\<exists>evs' c'. list_all event_ok evs' \<and> client_run evs' c = Some c' \<and>
    acked c' = acked c @ sent (ch c) @ pending (ch c) \<and> WaitUntilSent c' = Done None"
proof -
  have ok: "client_ok c" using run_ok [OF new_client_ok(1) [OF assms(1)] assms(2,4)] .
  have "held c0" using new_client_ok(2,8,9) [OF assms(1)] by (simp add: held_def)
  then have held: "held c" using held_run [OF new_client_ok(1) [OF assms(1)] _ assms(2,3,4)] by blast
  have at: "client_at (view c) c" using ok assms(5) by (simp add: client_at_def)
  have "v_sender (view c) \<noteq> SWait \<Longrightarrow> v_pend (view c) \<noteq> []"
    using ok held assms(6) by (cases "sender c") (auto simp: view_def client_ok_def held_def)
  then obtain v1 where v1: "reaches (view c) v1" "v_sender v1 = SWait" "v_receiver v1 = receiver c" "v_all v1 = v_all (view c)"
    "v_sent v1 \<noteq> [] \<longrightarrow> v_conn v1 \<noteq> None \<or> v_pend v1 \<noteq> [] \<or> v_receiver v1 = RRewind"
    using sender_settles [of "view c"] assms(6,7) held by (auto simp: view_def held_def)
  have "v_receiver v1 \<noteq> RStopped" using v1(3) held assms(5) by (auto simp: held_def)
  then obtain v2 where v2: "reaches v1 v2" "v_sender v2 = SWait" "v_receiver v2 = RWait" "v_all v2 = v_all v1"
    "v_sent v2 \<noteq> [] \<longrightarrow> v_conn v2 \<noteq> None \<or> v_pend v2 \<noteq> []" using receiver_settles [OF v1(2) _ v1(5)] by blast
  obtain v3 where v3: "reaches v2 v3" "v_receiver v3 = RWait" "v_all v3 = v_all v2" "v_pend v3 = []" "v_sent v3 \<noteq> [] \<longrightarrow> v_conn v3 \<noteq> None"
    using all_sent [OF v2(2,3,5)] by blast
  obtain v4 where v4: "reaches v3 v4" "v_all v4 = v_all v3" "v_pend v4 = []" "v_sent v4 = []" using all_acked [OF v3(2,4,5)] by blast
  have "reaches (view c) v4" using v1(1) v2(1) v3(1) v4(1) by (blast intro: reaches_trans)
  from reaches_run [OF this at] obtain evs' c' where r: "list_all event_ok evs'" "client_run evs' c = Some c'" "client_at v4 c'" by blast
  have e: "acked c' = v_acked v4" "sent (ch c') = []" "pending (ch c') = []" "\<not> closed (ch c')" "channel_ok (ch c')"
    using r(3) v4(3,4) by (auto simp: client_at_def view_def client_ok_def)
  have "v_acked v4 = acked c @ sent (ch c) @ pending (ch c)"
    using v4(2-4) v3(3) v2(4) v1(4) by (simp add: v_all_def view_def)
  moreover have "ch_empty (ch c')" using e(2,3,5) length_sent [of "ch c'"] length_pending [of "ch c'"] by (simp add: ch_tests channel_ok_def)
  ultimately show ?thesis using r(1,2) e(1,4) by (intro exI [of _ evs'] exI [of _ c']) (simp add: WaitUntilSent_def WaitUntilEmpty_def)
qed

theorem client_can_drain_witness:
  "\<exists>c0 c evs' c' x. NewTlsClient demo_crypto (Some [1]) [5] small_client = Some (Inr c0) \<and> client_run [Produce sample_entry] c0 = Some c \<and>
    pending (ch c) = [x] \<and> client_run evs' c = Some c' \<and> acked c' = [x] \<and> WaitUntilSent c' = Done None"
proof -
  obtain c0 where c0: "NewTlsClient demo_crypto (Some [1]) [5] small_client = Some (Inr c0)" using small_client_new by blast
  let ?v = "new_view (BufferSize (Client_setDefaults small_client))"
  from move_produce [OF new_client_at [OF c0] sample_sendable] small_client_size obtain x c where
    c: "client_run [Produce sample_entry] c0 = Some c" "client_at (?v\<lparr>v_pend := [x]\<rparr>) c" by (auto simp: moves_def)
  then have d: "\<not> closed (ch c)" "sender c \<noteq> SStopped" "sender c = SRead \<longrightarrow> conn (cnet c) \<noteq> None" "pending (ch c) = [x]" "sent (ch c) = []" "acked c = []"
    by (auto simp: client_at_def view_def)
  have "list_all event_ok [Produce sample_entry]" "\<forall>r. Disconnect r \<notin> set [Produce sample_entry]" by simp_all
  from client_can_drain [OF c0 this c(1) d(1-3)] c0 c(1) d(4-6) show ?thesis by auto
qed

subsection \<open>A graceful close that can not end\<close>

lemma move_stop:
  assumes "client_at v c"
  shows "moves StopWriting c (v\<lparr>v_cw := True\<rparr>)"
proof (rule movesI [OF assms])
  have "items (CloseWriting (ch c)) = items (ch c)" by (intro items_frame; simp add: CloseWriting_def)
  then have "sent (CloseWriting (ch c)) = sent (ch c)" "pending (CloseWriting (ch c)) = pending (ch c)"
    by (simp_all add: sent_def pending_def) (simp_all add: CloseWriting_def)
  then show "view (Client_CloseWriting c) = v\<lparr>v_cw := True\<rparr>"
    using assms by (auto simp: client_at_def view_def Client_CloseWriting_def) (simp_all add: CloseWriting_def)
  show "\<not> closed (ch (Client_CloseWriting c))"
    using assms by (simp add: client_at_def Client_CloseWriting_def) (simp add: CloseWriting_def)
qed simp_all

lemma move_end:
  assumes "client_at v c" "v_sender v = SWait" "v_pend v = []" "v_cw v"
  shows "moves go c (v\<lparr>v_sender := SStopped\<rparr>)"
proof -
  have c: "client_ok c" "\<not> closed (ch c)" "closedWriting (ch c)" "view c = v" "sender c = SWait" "pending (ch c) = []"
    using assms by (auto simp: client_at_def view_def)
  have "\<not> toRead (ch c)" using toRead_pending [OF client_okD(1) [OF c(1)]] c(6) by simp
  then have "client_exec go c = Some (c\<lparr>sender := SStopped, cnet := cnet c\<rparr>)" using c(2,3,5) by (simp add: sender_step_def ch_Wait_def)
  then show ?thesis by (rule movesI [OF assms(1), rotated]) (use c in \<open>auto simp: outcomes_ok_def view_def\<close>)
qed

definition abandoned :: "byte list list \<Rightarrow> byte list list \<Rightarrow> byte list list \<Rightarrow> TlsClient \<Rightarrow> bool" where
  \<comment> \<open>entries wait to be sent again, but the sender has ended\<close>
  "abandoned xs as ws c \<longleftrightarrow> client_ok c \<and> sender c = SStopped \<and> receiver c \<in> {RWait, RStopped} \<and> closedWriting (ch c) \<and>
     sent (ch c) = [] \<and> pending (ch c) = xs \<and> acked c = as \<and> wires (cnet c) = ws"

lemma abandoned_exec:
  assumes "abandoned xs as ws c" "event_ok ev" "client_exec ev c = Some c'"
  shows "abandoned xs as ws c'"
proof -
  have c: "client_ok c" "sender c = SStopped" "receiver c \<in> {RWait, RStopped}" "closedWriting (ch c)" "sent (ch c) = []" "pending (ch c) = xs"
    "acked c = as" "wires (cnet c) = ws" using assms(1) by (simp_all add: abandoned_def)
  have ok: "client_ok c'" using exec_ok [OF c(1) assms(2,3)] .
  have noack: "\<not> toAck (ch c)" using length_sent [OF client_okD(1) [OF c(1)]] c(5) by (simp add: toAck_def)
  show ?thesis
  proof (cases ev)
    case (Produce e)
    with assms(3) have "Client_ProcessEntry e c = Some c'" by simp
    with c(1) show ?thesis by (cases rule: produce_cases) (use c assms(1) in auto)
  next
    case (Receiver r rd)
    with assms(3) c noack ok show ?thesis
      by (auto simp: abandoned_def receiver_step_def WaitUntilRead_def report_def split: if_splits)
  next
    case StopWriting
    with assms(3) c(4) have "c' = c" by (simp add: Client_CloseWriting_def CloseWriting_def)
    with assms(1) show ?thesis by simp
  next
    case CloseChannel
    have "items (ch_Close (ch c)) = items (ch c)" by (intro items_frame; simp add: ch_Close_def)
    then have "sent (ch_Close (ch c)) = sent (ch c)" "pending (ch_Close (ch c)) = pending (ch c)" "closedWriting (ch_Close (ch c))"
      using c(4) by (simp_all add: sent_def pending_def) (simp_all add: ch_Close_def)
    with CloseChannel assms(3) c ok show ?thesis by (auto simp: abandoned_def Client_CloseChannel_def)
  qed (use assms(3) c ok in \<open>auto simp: abandoned_def sender_step_def Client_Disconnect_def disconnect_def split: option.splits\<close>)
qed

lemma abandoned_run:
  "abandoned xs as ws c \<Longrightarrow> list_all event_ok evs \<Longrightarrow> client_run evs c = Some c' \<Longrightarrow> abandoned xs as ws c'"
  by (induction evs arbitrary: c) (auto simp: bind_eq_Some_conv dest: abandoned_exec)

lemma abandoned_blocks:
  assumes "abandoned xs as ws c" "xs \<noteq> []"
  shows "WaitUntilSent c \<noteq> Done None"
proof -
  have "\<not> ch_empty (ch c)" using assms empty_pending client_okD(1) by (auto simp: abandoned_def)
  then show ?thesis by (simp add: WaitUntilSent_def WaitUntilEmpty_def)
qed

text \<open>
  C33: a graceful close can fail to end. The sender ends as soon as everything has been sent, without
  waiting for the responses; when the connection is lost after that, the receiver rewinds the
  entries that were not acknowledged, and nobody is left to send them again: whatever happens from
  then on, nothing is written to any connection, nothing is acknowledged, and the wait of
  \<open>CloseWithContext\<close> never succeeds.
\<close>

theorem graceful_close_hangs:
  assumes "NewTlsClient cr cert key op = Some (Inr c0)" and "1 \<le> BufferSize (Client_setDefaults op)" and "sendable_entry e"
  shows "\<exists>evs c x. list_all event_ok evs \<and> client_run evs c0 = Some c \<and> \<not> closed (ch c) \<and> frame x = wire_bytes e \<and>
    (\<forall>evs' c'. list_all event_ok evs' \<longrightarrow> client_run evs' c = Some c' \<longrightarrow>
      pending (ch c') = [x] \<and> acked c' = [] \<and> wires (cnet c') = [wire_bytes e] \<and> WaitUntilSent c' \<noteq> Done None)"
proof -
  let ?v = "new_view (BufferSize (Client_setDefaults op))"
  from move_produce [OF new_client_at [OF assms(1)] assms(3)] assms(2) obtain x c1 where x: "frame x = wire_bytes e" "client_exec (Produce e) c0 = Some c1"
    "client_at (?v\<lparr>v_pend := [x]\<rparr>) c1" by (auto simp: moves_def)
  let ?w = "?v\<lparr>v_sent := [x], v_wires := [wire_bytes e], v_conn := Some 0, v_cw := True\<rparr>"
  let ?s = "\<lambda>r k. ?w\<lparr>v_sender := SStopped, v_receiver := r, v_conn := k\<rparr>"
  let ?z = "?v\<lparr>v_pend := [x], v_wires := [wire_bytes e], v_sender := SStopped, v_cw := True\<rparr>"
  have "reaches (?v\<lparr>v_pend := [x]\<rparr>) (?w\<lparr>v_cw := False\<rparr>)" using reaches_send(3) [of "?v\<lparr>v_pend := [x]\<rparr>" x "[]"] x(1) by simp
  also have "reaches (?w\<lparr>v_cw := False\<rparr>) ?w" using move_stop [of "?w\<lparr>v_cw := False\<rparr>"] by (intro reaches1) simp
  also have "reaches ?w (?s RWait (Some 0))" using move_end [of ?w] by (intro reaches1) simp
  also have "reaches (?s RWait (Some 0)) (?s RLoad (Some 0))" using move_receiver(1) [of "?s RWait (Some 0)"] by (intro reaches1) simp
  also have "reaches (?s RLoad (Some 0)) (?s (RRead 0) (Some 0))" using move_receiver(2) [of "?s RLoad (Some 0)" _ 0] by (intro reaches1) simp
  also have "reaches (?s (RRead 0) (Some 0)) (?s RDisconnect (Some 0))" using move_receiver(4) [of "?s (RRead 0) (Some 0)" _ 0] by (intro reaches1) simp
  also have "reaches (?s RDisconnect (Some 0)) (?s RRewind None)" using move_receiver(5) [of "?s RDisconnect (Some 0)"] by (intro reaches1) simp
  also have "reaches (?s RRewind None) ?z" using move_receiver_back(3) [of "?s RRewind None"] by (intro reaches1) simp
  finally have "reaches (?v\<lparr>v_pend := [x]\<rparr>) ?z" .
  from reaches_run [OF this x(3)] obtain evs c where r: "list_all event_ok evs" "client_run evs c1 = Some c" "client_at ?z c" by blast
  have ab: "abandoned [x] [] [wire_bytes e] c" and nc: "\<not> closed (ch c)" using r(3) by (auto simp: client_at_def view_def abandoned_def)
  have run: "client_run (Produce e # evs) c0 = Some c" using x(2) r(2) by simp
  have "pending (ch c') = [x] \<and> acked c' = [] \<and> wires (cnet c') = [wire_bytes e] \<and> WaitUntilSent c' \<noteq> Done None"
    if "list_all event_ok evs'" "client_run evs' c = Some c'" for evs' c'
  proof -
    have "abandoned [x] [] [wire_bytes e] c'" using abandoned_run [OF ab that] .
    with abandoned_blocks [OF this] show ?thesis by (simp add: abandoned_def)
  qed
  then show ?thesis using run r(1) x(1) nc by (intro exI [of _ "Produce e # evs"] exI [of _ c] exI [of _ x]) simp
qed

theorem graceful_close_hangs_witness:
  "\<exists>c0 evs c x. NewTlsClient demo_crypto (Some [1]) [5] small_client = Some (Inr c0) \<and> client_run evs c0 = Some c \<and>
    \<not> closed (ch c) \<and> pending (ch c) = [x] \<and> acked c = [] \<and> WaitUntilSent c \<noteq> Done None"
proof -
  obtain c0 where c0: "NewTlsClient demo_crypto (Some [1]) [5] small_client = Some (Inr c0)" using small_client_new by blast
  have "1 \<le> BufferSize (Client_setDefaults small_client)" using small_client_size by simp
  from graceful_close_hangs [OF c0 this sample_sendable] obtain evs c x where
    c: "client_run evs c0 = Some c" "\<not> closed (ch c)" and
    h: "\<And>evs' c'. list_all event_ok evs' \<Longrightarrow> client_run evs' c = Some c' \<Longrightarrow> pending (ch c') = [x] \<and> acked c' = [] \<and> WaitUntilSent c' \<noteq> Done None"
    by blast
  from h [of "[]" c] c c0 show ?thesis by auto
qed

end
