(* ===== verification/Example_Programs.thy ===== *)
theory Example_Programs
  imports Example_Certs Logger_Spec Client_Progress
begin

text \<open>
  The programs of \<^verbatim>\<open>example4\<close> on the certificates of \<open>LoadOrCreate\<close>: a server that counts entries
  (\<^verbatim>\<open>server/example_server.go\<close>, \<^verbatim>\<open>server/entry_proc.go\<close>), and a client that logs 500 messages
  (\<^verbatim>\<open>client/example_client.go\<close>); and the text in which the programs of \<^verbatim>\<open>example3\<close> print an entry
  (\<^verbatim>\<open>format_entry.go\<close>, \<^verbatim>\<open>server/entry_proc.go\<close>).
\<close>

subsection \<open>Printing an entry\<close>

definition pad_right :: "nat \<Rightarrow> gostring \<Rightarrow> gostring" where
  \<comment> \<open>the verb \<^verbatim>\<open>%*s\<close> with a negative width, for ASCII text\<close>
  "pad_right n s = s @ replicate (n - length s) 32"

definition pad_left :: "nat \<Rightarrow> gostring \<Rightarrow> gostring" where
  "pad_left n s = replicate (n - length s) 32 @ s"

definition formatter_write :: "gostring \<Rightarrow> gostring \<Rightarrow> gostring \<Rightarrow> gostring" where
  \<comment> \<open>the line, with the text that \<^verbatim>\<open>%v\<close> makes of the value\<close>
  "formatter_write rowPrefix key value = rowPrefix @ lit '' '' @ pad_right 16 key @ lit ''| '' @ value @ lit '' |'' @ [10]"

fun fmt_words :: "gostring list \<Rightarrow> gostring" where
  "fmt_words [] = []"
| "fmt_words [s] = s"
| "fmt_words (s # ss) = s @ lit '' '' @ fmt_words ss"

definition fmt_strings :: "gostring list \<Rightarrow> gostring" where
  \<comment> \<open>\<^verbatim>\<open>%v\<close> of a slice of strings\<close>
  "fmt_strings ss = lit ''['' @ fmt_words ss @ lit '']''"

definition FormatEntry :: "(xid \<Rightarrow> gostring) \<Rightarrow> nat \<Rightarrow> Entry \<Rightarrow> gostring \<Rightarrow> gostring outcome" where
  \<comment> \<open>with \<^verbatim>\<open>xid.ID.String\<close> and the fuel of \<^verbatim>\<open>Entry.String\<close>\<close>
  "FormatEntry idString fuel e rowPrefix = (case Entry_String fuel e of
     OutOfFuel \<Rightarrow> OutOfFuel
   | Panic \<Rightarrow> Panic
   | Ret str \<Rightarrow> (case (Reader_Tags e, Reader_Meta e) of
       (Some tgs, Some (ks, vs)) \<Rightarrow> Ret (concat
         [formatter_write rowPrefix (lit ''ID'') (idString (Reader_Id e)), formatter_write rowPrefix (lit ''STRING'') str,
          formatter_write rowPrefix (lit ''MSG'') (Reader_Msg e), formatter_write rowPrefix (lit ''TAGS'') (fmt_strings tgs),
          formatter_write rowPrefix (lit ''META KEYS'') (fmt_strings ks), formatter_write rowPrefix (lit ''META VALUES'') (fmt_strings vs)])
     | _ \<Rightarrow> Panic))"

definition printer_ProcessEntry :: "(xid \<Rightarrow> gostring) \<Rightarrow> nat \<Rightarrow> Entry \<Rightarrow> gostring outcome \<times> gostring option" where
  \<comment> \<open>what the processor of \<^verbatim>\<open>example3\<close> prints, and its error\<close>
  "printer_ProcessEntry idString fuel e = (case FormatEntry idString fuel e (lit ''>'') of
     Ret s \<Rightarrow> (Ret ([10] @ s), None) | x \<Rightarrow> (x, None))"

definition counter_ProcessEntry :: "nat \<Rightarrow> Entry \<Rightarrow> nat \<times> gostring \<times> gostring option" where
  \<comment> \<open>the count, what is printed, and the error of the processor of \<^verbatim>\<open>example4\<close>\<close>
  "counter_ProcessEntry count e =
    (let count = count + 1 in (count, lit ''Received '' @ pad_left 4 (FormatUint count) @ [13], None))"

text \<open>An entry within the limits of the wire format is printed, with its placeholders replaced.\<close>

lemma format_returns:
  assumes "entry_shape e" "counts_ok e" "length (message e) \<le> MaxMessageSize"
  shows "\<exists>s. fst (printer_ProcessEntry idString 256 e) = Ret s"
proof -
  have "Entry_String 256 e = Ret (render (message e) (take (tagsCount e) (tags e)))"
    using string_loop_render [of e 0 0 256 "[]"] assms by (simp add: Entry_String_def counts_ok_def entry_shapeD)
  then show ?thesis using readers_total [OF assms(1,2)] by (auto simp: printer_ProcessEntry_def FormatEntry_def)
qed

subsection \<open>The server and the client\<close>

definition example_startServer :: "crypto \<Rightarrow> auth_error option \<Rightarrow> Certs \<Rightarrow> (auth_error + TlsServer) option" where
  "example_startServer cr listenErr c = NewTlsServer cr listenErr
     \<lparr>so_PrivateKey = ServerKey c, so_Certificate = ServerCert c, so_RootCa = RootCa c,
      so_EntryProc = Some (\<lambda>e. snd (snd (counter_ProcessEntry 0 e))), so_ClientTimeout = 5 * 10 ^ 9, so_Auth = None, so_NoCopy = False\<rparr>"

definition client_message :: "nat \<Rightarrow> gostring" where
  "client_message i = lit ''msg '' @ FormatInt (int (i + 1))"

fun client_loop :: "(nat \<Rightarrow> xid) \<Rightarrow> (nat \<Rightarrow> nat option) \<Rightarrow> (nat \<Rightarrow> bool) \<Rightarrow> nat \<Rightarrow> nat list \<Rightarrow> Pool \<Rightarrow> (Pool \<times> bool) option" where
  \<comment> \<open>the result tells whether the context ended the loop; no entry is dropped\<close>
  "client_loop newId pick interrupted a [] p = Some (p, False)"
| "client_loop newId pick interrupted a (i # is) p =
    (if interrupted i then Some (p, True)
     else do {
       (e, p) \<leftarrow> Logger_Debug (newId i) (pick i) a (client_message i) None p;
       (_, _, p) \<leftarrow> Entry_Send None e p;
       client_loop newId pick interrupted a is p })"

definition example_client :: TlsClientOptions where
  "example_client = \<lparr>BufferSize = 100, opt_WriteMethod = MWriteOrBlock, ServerAckTimeout = 0\<rparr>"

definition example_startClient :: "crypto \<Rightarrow> (nat \<Rightarrow> xid) \<Rightarrow> (nat \<Rightarrow> nat option) \<Rightarrow> (nat \<Rightarrow> bool) \<Rightarrow> Certs \<Rightarrow>
    (auth_error + TlsClient \<times> Pool \<times> bool) option" where
  \<comment> \<open>the client as it is made, whose goroutines run while the loop gives it the entries in \<open>processed\<close>\<close>
  "example_startClient cr newId pick interrupted c = do {
     r \<leftarrow> NewTlsClient cr (ClientCert c) (ClientKey c) example_client;
     case r of
       Inl err \<Rightarrow> Some (Inl err)
     | Inr cl \<Rightarrow> do {
         p \<leftarrow> NewPool (Some [\<lparr>EntryPool = None, BucketId = 123, DefaultEntryTTL = 0, DefaultMetaTTL = 0, StackTraceSeverity = 0\<rparr>]);
         let (a, p) = Pool_Logger None p;
         (p, stopped) \<leftarrow> client_loop newId pick interrupted a [0..<500] p;
         Some (Inr (cl, p, stopped)) } }"

subsection \<open>What the client logs\<close>

definition example_entry :: "nat \<Rightarrow> Entry \<Rightarrow> bool" where
  "example_entry i e \<longleftrightarrow> entry_ok e \<and> level e = L_CategoryId \<and> message e = client_message i \<and> bucketId e = 123 \<and> severity e = DEBUG \<and>
     metricCount e = 0 \<and> stackTraceCount e = 0"

lemma length_FormatUint: "n < 1000 \<Longrightarrow> length (FormatUint n) \<le> 3"
  by (subst FormatUint.simps; auto) (subst FormatUint.simps; auto; subst FormatUint.simps; auto)

lemma length_client_message: "i < 500 \<Longrightarrow> length (client_message i) \<le> 255"
  using length_FormatUint [of "i + 1"] by (simp add: client_message_def FormatInt_def nat_add_distrib)

lemma log_send:
  assumes "pool_ok p" "nth_opt (loggers p) a = Some l" "length newId = 12"
  obtains e p1 e' p' where "Logger_log newId pick a sev msg None p = Some (e, p1)" "Entry_Send None e p1 = Some (newId, e', p')"
    "pool_ok p'" "loggers p' = loggers p" "BucketId (opt p') = BucketId (opt p)" "processed p' = processed p @ [e']" "entry_ok e'"
    "level e' = L_CategoryId" "message e' = take 255 msg" "bucketId e' = BucketId (opt p)" "severity e' = sev" "categoryId e' = lg_categoryId l"
    "Reader_Tags e' = Some (lg_tags l)" "metricCount e' = min 32 (length (lg_metricKeys l))" "stackTraceCount e' = 0"
proof -
  have a: "a < length (loggers p)" "loggers p ! a = l" using assms(2) by (auto simp: nth_opt_Some_iff)
  obtain e rest where e: "Logger_log newId pick a sev msg None p = Some (e, p\<lparr>opt := (opt p)\<lparr>EntryPool := Some rest\<rparr>\<rparr>)"
    "pool_ok (p\<lparr>opt := (opt p)\<lparr>EntryPool := Some rest\<rparr>\<rparr>)" "entry_ok e" "logger e = Some a" "eid e = newId"
    "bucketId e = BucketId (opt p)" "severity e = sev" "message e = take 255 msg" "metricCount e = 0" "stackTraceCount e = 0"
    "level e = L_CategoryId" "categoryId e = lg_categoryId l" "take (tagsCount e) (tags e) = []"
    using log_ok [OF assms(1) a(1) assms(3), of pick sev msg None thesis] a(2) by auto
  let ?p = "p\<lparr>opt := (opt p)\<lparr>EntryPool := Some rest\<rparr>\<rparr>"
  have l: "logger_ok l" using pool_logger_ok [OF assms(1) a(1)] a(2) by simp
  have sh: "entry_shape e" "counts_ok e" using e(3) by (simp_all add: entry_ok_def)
  let ?e = "with_context l e" and ?q = "?p\<lparr>processed := processed ?p @ [with_context l e]\<rparr>"
  have s: "Entry_Send None e ?p = Some (newId, ?e, ?q)" using Send_context [OF sh e(4) _ l, of ?p] a e(5) by simp
  have ok: "entry_ok ?e" by (rule with_context_ok [OF e(3) l])
  have "Reader_Tags ?e = Some (lg_tags l)" using with_context_reads(1) [OF sh l] l e(13) by (simp add: logger_ok_def)
  moreover have "metricCount ?e = min 32 (length (lg_metricKeys l))" "stackTraceCount ?e = 0" using e(9,10) by (simp_all add: with_context_def)
  moreover have "pool_ok ?q" using e(2) ok by (simp add: pool_ok_def)
  ultimately show thesis using that [of e ?p ?e ?q] e(1,6-8,11,12) s ok by simp
qed

lemma log_one:
  assumes "pool_ok p" "nth_opt (loggers p) a = Some l" "lg_metricKeys l = []" "BucketId (opt p) = 123" "length newId = 12" "i < 500"
  obtains e p1 e' p' where "Logger_Debug newId pick a (client_message i) None p = Some (e, p1)" "Entry_Send None e p1 = Some (newId, e', p')"
    "pool_ok p'" "loggers p' = loggers p" "BucketId (opt p') = 123" "processed p' = processed p @ [e']" "example_entry i e'"
  using log_send [OF assms(1,2,5), of pick DEBUG "client_message i" thesis] assms(3,4) length_client_message [OF assms(6)]
  by (auto simp: Logger_Debug_def example_entry_def)

lemma client_loop_logs:
  assumes "pool_ok p" "nth_opt (loggers p) a = Some l" "lg_metricKeys l = []" "BucketId (opt p) = 123"
    "\<forall>i. length (newId i) = 12" "\<forall>i\<in>set is. i < 500"
  shows "\<exists>p' stopped es. client_loop newId pick interrupted a is p = Some (p', stopped) \<and> processed p' = processed p @ es \<and>
    list_all2 example_entry (take (length es) is) es \<and> (\<not> stopped \<longrightarrow> length es = length is) \<and> (stopped \<longrightarrow> (\<exists>i\<in>set is. interrupted i))"
  using assms(1,2,4,6)
proof (induction "is" arbitrary: p)
  case (Cons i "is")
  show ?case
  proof (cases "interrupted i")
    case True
    then show ?thesis by (intro exI [of _ p] exI [of _ True] exI [of _ "[]"]) simp
  next
    case False
    have i: "i < 500" "length (newId i) = 12" using Cons.prems(4) assms(5) by simp_all
    obtain e p1 e' p2 where s: "Logger_Debug (newId i) (pick i) a (client_message i) None p = Some (e, p1)"
      "Entry_Send None e p1 = Some (newId i, e', p2)" "pool_ok p2" "loggers p2 = loggers p" "BucketId (opt p2) = 123"
      "processed p2 = processed p @ [e']" "example_entry i e'"
      using log_one [OF Cons.prems(1,2) assms(3) Cons.prems(3) i(2,1)] by blast
    have "nth_opt (loggers p2) a = Some l" "\<forall>i\<in>set is. i < 500" using s(4) Cons.prems(2,4) by simp_all
    from Cons.IH [OF s(3) this(1) s(5) this(2)] obtain p' stopped es where r: "client_loop newId pick interrupted a is p2 = Some (p', stopped)"
      "processed p' = processed p2 @ es" "list_all2 example_entry (take (length es) is) es" "\<not> stopped \<longrightarrow> length es = length is"
      "stopped \<longrightarrow> (\<exists>i\<in>set is. interrupted i)" by blast
    then show ?thesis using False s(1,2,6,7) by (intro exI [of _ p'] exI [of _ stopped] exI [of _ "e' # es"]) auto
  qed
qed (auto intro: exI [of _ False])

lemma example_server_starts:
  assumes "Certificate_Validate cr (ServerCert c) (ServerKey c) = None" "Certificate_Type cr (ServerCert c) = Server"
  shows "\<exists>s. example_startServer cr None c = Some (Inr s)"
  using assms by (simp add: example_startServer_def NewTlsServer_def Server_setDefaults_def Let_def server_config_def Certificate_X509Pool_def)

lemma example_client_logs:
  assumes "Certificate_Validate cr (ClientCert c) (ClientKey c) = None" "Certificate_Type cr (ClientCert c) = Client"
    "\<forall>i. length (newId i) = 12"
  obtains cl p stopped where "example_startClient cr newId pick interrupted c = Some (Inr (cl, p, stopped))"
    "NewTlsClient cr (ClientCert c) (ClientKey c) example_client = Some (Inr cl)"
    "list_all2 example_entry (take (length (processed p)) [0..<500]) (processed p)" "\<not> stopped \<longrightarrow> length (processed p) = 500"
    "stopped \<longrightarrow> (\<exists>i<500. interrupted i)"
proof -
  obtain cl where cl: "NewTlsClient cr (ClientCert c) (ClientKey c) example_client = Some (Inr cl)"
    using assms(1,2) by (auto simp: NewTlsClient_def Client_setDefaults_def example_client_def Let_def NewByteChannel_def)
  obtain p0 where p0: "NewPool (Some [\<lparr>EntryPool = None, BucketId = 123, DefaultEntryTTL = 0, DefaultMetaTTL = 0, StackTraceSeverity = 0\<rparr>]) = Some p0"
    "pool_ok p0" "BucketId (opt p0) = 123" "processed p0 = []"
    by (auto simp: NewPool_def pool_ok_def Pool_setDefaults_def Let_def)
  obtain a p1 where p1: "Pool_Logger None p0 = (a, p1)" by force
  note k = Pool_Logger_ok [OF p0(2) p1]
  have l: "nth_opt (loggers p1) a = Some (new_logger (opt p0))" "lg_metricKeys (new_logger (opt p0)) = []" "BucketId (opt p1) = 123" "\<forall>i\<in>set [0..<500]. i < (500 :: nat)"
    using k(2,4,5) p0(3) by (simp_all add: new_logger_def)
  from client_loop_logs [OF k(1) l(1-3) assms(3) l(4), of pick interrupted] obtain p' stopped es where
    "client_loop newId pick interrupted a [0..<500] p1 = Some (p', stopped)" "processed p' = processed p1 @ es"
    "list_all2 example_entry (take (length es) [0..<500]) es" "\<not> stopped \<longrightarrow> length es = length [0..<500]"
    and i: "stopped \<longrightarrow> (\<exists>i\<in>set [0..<500]. interrupted i)" by blast
  moreover from this(1) cl p0(1) p1 have "example_startClient cr newId pick interrupted c = Some (Inr (cl, p', stopped))"
    by (simp add: example_startClient_def)
  moreover have "stopped \<longrightarrow> (\<exists>i<500. interrupted i)" using i by auto
  ultimately show thesis using that [of cl p' stopped] cl p0(4) k(6) by simp
qed

lemma example_deliverable:
  assumes "example_entry i e" "cert_buckets cert = {123}"
  shows "deliverable cert e" "metric_sync e"
proof -
  have e: "entry_ok e" "level e = 4" "length (message e) \<le> 255" "stackTraceCount e = 0" "bucketId e = 123" "metricCount e = 0"
    using assms(1) by (auto simp: example_entry_def entry_ok_def strings_ok_def)
  have "length (eid e) = 12" using e(1) by (simp add: entry_ok_def entry_shape_def)
  moreover have "[0..<Suc 4] = [0, 1, 2, 3, 4 :: nat]" by (simp add: upt_rec)
  ultimately have "length (wire_bytes e) \<le> MaxEntrySize"
    using e(2,3) by (simp add: length_wire_bytes wire_body_def plain_level_def lstr_def del: upt_Suc)
  then show "deliverable cert e" using e assms(2) by (simp add: deliverable_def wire_ok_def entry_ok_def)
  show "metric_sync e" using e(6) by (simp add: metric_sync_def)
qed

subsection \<open>The live client\<close>

text \<open>
  \<^verbatim>\<open>startLiveClient\<close>, which the program does not call at present: it sets a category and three tags on
  its logger. The files are those of \<open>fs\<close>, with an error of the operating system for each.
\<close>

definition live_send :: "xid \<Rightarrow> nat option \<Rightarrow> nat \<Rightarrow> gostring \<Rightarrow> Pool \<Rightarrow> Pool option" where
  "live_send newId pick a msg p = do {
     (e, p) \<leftarrow> Logger_Info newId pick a msg None p;
     (_, _, p) \<leftarrow> Entry_Send None e p;
     Some p }"

definition live_loggings :: "(nat \<Rightarrow> xid) \<Rightarrow> (nat \<Rightarrow> nat option) \<Rightarrow> gostring \<Rightarrow> Pool \<Rightarrow> Pool option" where
  "live_loggings newId pick idText p = do {
     let (a, p) = Pool_Logger None p;
     p \<leftarrow> on_logger a (Logger_Cat 1) p;
     p \<leftarrow> on_logger a (Logger_Tag [AString (lit ''127.0.0.1''), AString (lit ''foo@bar.baz''), AStringer idText]) p;
     p \<leftarrow> live_send (newId 0) (pick 0) a (lit ''First message'') p;
     p \<leftarrow> live_send (newId 1) (pick 1) a (lit ''Second message'') p;
     live_send (newId 2) (pick 2) a (lit ''Third message'') p }"

definition example_startLiveClient :: "crypto \<Rightarrow> pem_codec \<Rightarrow> (nat \<Rightarrow> auth_error option) \<Rightarrow> files \<Rightarrow> (nat \<Rightarrow> xid) \<Rightarrow> (nat \<Rightarrow> nat option) \<Rightarrow> gostring \<Rightarrow>
    (auth_error + TlsClient \<times> Pool) option" where
  "example_startLiveClient cr pc rd fs newId pick idText =
    (case Certificate_FromFile pc (rd 0) (lit ''../cert-live/root-ca.pem'') fs None of
       (_, Some err) \<Rightarrow> Some (Inl err)
     | (_, None) \<Rightarrow> (case PrivateKey_FromFile pc (rd 1) (lit ''../cert-live/private.key'') fs [] of
         (_, Some err) \<Rightarrow> Some (Inl err)
       | (key, None) \<Rightarrow> (case Certificate_FromFile pc (rd 2) (lit ''../cert-live/certificate.pem'') fs None of
           (_, Some err) \<Rightarrow> Some (Inl err)
         | (cert, None) \<Rightarrow> do {
             r \<leftarrow> NewTlsClient cr cert key \<lparr>BufferSize = 128, opt_WriteMethod = MWriteOrReplace, ServerAckTimeout = 0\<rparr>;
             case r of
               Inl err \<Rightarrow> Some (Inl err)
             | Inr cl \<Rightarrow> do {
                 p \<leftarrow> NewPool (Some [\<lparr>EntryPool = None, BucketId = 1695284931, DefaultEntryTTL = 0, DefaultMetaTTL = 0, StackTraceSeverity = 0\<rparr>]);
                 p \<leftarrow> live_loggings newId pick idText p;
                 Some (Inr (cl, p)) } })))"

definition live_entry :: "gostring \<Rightarrow> gostring \<Rightarrow> Entry \<Rightarrow> bool" where
  \<comment> \<open>an entry with its tags, of a level that does not let them be encoded\<close>
  "live_entry idText msg e \<longleftrightarrow> entry_ok e \<and> message e = msg \<and> categoryId e = 1 \<and> level e = L_CategoryId \<and>
     Reader_Tags e = Some ([lit ''127.0.0.1'', lit ''foo@bar.baz''] @ [take 255 idText])"

lemma live_send_logs:
  assumes "pool_ok p" "nth_opt (loggers p) a = Some l" "length newId = 12" "lg_categoryId l = 1"
    "lg_tags l = [lit ''127.0.0.1'', lit ''foo@bar.baz'', take 255 idText]" "length msg \<le> 255"
  shows "\<exists>e p'. live_send newId pick a msg p = Some p' \<and> pool_ok p' \<and> loggers p' = loggers p \<and> processed p' = processed p @ [e] \<and> live_entry idText msg e"
  by (rule log_send [OF assms(1-3), of pick INFO msg]) (use assms(4-6) in \<open>auto simp: live_send_def Logger_Info_def live_entry_def\<close>)

text \<open>The tags of the live client's logger are in every entry it sends, and in none of their encodings.\<close>

lemma live_tags_not_encoded:
  assumes "pool_ok p" "\<forall>i. length (newId i) = 12"
  shows "\<exists>p' es. live_loggings newId pick idText p = Some p' \<and> processed p' = processed p @ es \<and>
    list_all2 (live_entry idText) [lit ''First message'', lit ''Second message'', lit ''Third message''] es"
proof -
  obtain a p1 where p1: "Pool_Logger None p = (a, p1)" by force
  note k = Pool_Logger_ok [OF assms(1) p1]
  let ?l = "new_logger (opt p)" and ?ts = "[AString (lit ''127.0.0.1''), AString (lit ''foo@bar.baz''), AStringer idText]"
  have ne: "lit ''127.0.0.1'' \<noteq> []" "lit ''foo@bar.baz'' \<noteq> []" by (simp_all add: lit_def)
  have lo: "logger_ok (Logger_Cat 1 ?l)" "logger_ok (Logger_Tag ?ts (Logger_Cat 1 ?l))"
    by (simp_all add: logger_ok_def Logger_Cat_def new_logger_def ne truncate_take)
  obtain p2 where p2: "on_logger a (Logger_Cat 1) p1 = Some p2" "pool_ok p2" using on_logger_ok [OF k(1-3)] lo(1) k(4) by metis
  then have v2: "p2 = p1\<lparr>loggers := (loggers p1)[a := Logger_Cat 1 ?l]\<rparr>" using k(2,4) by (simp add: on_logger_def)
  obtain p3 where p3: "on_logger a (Logger_Tag ?ts) p2 = Some p3" "pool_ok p3"
    using on_logger_ok [OF p2(2), of a "Logger_Tag ?ts"] v2 k(2,3) lo(2) by auto
  then have v3: "p3 = p2\<lparr>loggers := (loggers p2)[a := Logger_Tag ?ts (Logger_Cat 1 ?l)]\<rparr>" using k(2) v2 by (simp add: on_logger_def)
  let ?m = "Logger_Tag ?ts (Logger_Cat 1 ?l)"
  have m: "nth_opt (loggers p3) a = Some ?m" "lg_categoryId ?m = 1" "lg_tags ?m = [lit ''127.0.0.1'', lit ''foo@bar.baz'', take 255 idText]"
    using k(2) v2 v3 by (simp_all add: Logger_Cat_def new_logger_def ne truncate_take)
  have snd: "\<exists>e q'. live_send (newId i) (pick i) a msg q = Some q' \<and> pool_ok q' \<and> loggers q' = loggers p3 \<and>
      processed q' = processed q @ [e] \<and> live_entry idText msg e"
    if "pool_ok q" "loggers q = loggers p3" "length msg \<le> 255" for q i msg
    using live_send_logs [OF that(1) _ _ m(2,3) that(3), of a "newId i" "pick i"] m(1) that(2) assms(2) by simp
  obtain e1 q1 where q1: "live_send (newId 0) (pick 0) a (lit ''First message'') p3 = Some q1" "pool_ok q1" "loggers q1 = loggers p3"
    "processed q1 = processed p3 @ [e1]" "live_entry idText (lit ''First message'') e1"
    using snd [OF p3(2) HOL.refl, of "lit ''First message''" 0] by auto
  obtain e2 q2 where q2: "live_send (newId 1) (pick 1) a (lit ''Second message'') q1 = Some q2" "pool_ok q2" "loggers q2 = loggers p3"
    "processed q2 = processed q1 @ [e2]" "live_entry idText (lit ''Second message'') e2"
    using snd [OF q1(2,3), of "lit ''Second message''" 1] by auto
  obtain e3 q3 where q3: "live_send (newId 2) (pick 2) a (lit ''Third message'') q2 = Some q3"
    "processed q3 = processed q2 @ [e3]" "live_entry idText (lit ''Third message'') e3"
    using snd [OF q2(2,3), of "lit ''Third message''" 2] by auto
  have "processed p3 = processed p" using v2 v3 k(6) by simp
  then show ?thesis using p1 p2(1) p3(1) q1(1,4,5) q2(1,4,5) q3 
    by (intro exI [of _ q3] exI [of _ "[e1, e2, e3]"]) (simp add: live_loggings_def)
qed

end
