(* ===== verification/Spec2Isabelle.thy ===== *)
theory Spec2Isabelle
  imports Entry_Safety Peripherals Example_Programs
begin

text \<open>
  A verification development for go-logger, a structured logger in Go whose entries travel over TLS
  to a server in a binary format. Source paths below are relative to \<^verbatim>\<open>src/\<close>.

  \<^bold>\<open>The program.\<close> A \<^verbatim>\<open>Pool\<close> hands out \<^verbatim>\<open>Logger\<close>s, which carry context (tags, meta, metrics, category,
  times to live). A logger makes an \<^verbatim>\<open>Entry\<close> from a pool of entries, setters fill it, and \<^verbatim>\<open>Send\<close> adds the
  context and gives it to the pool's client. The TLS client encodes the entry into a slot of a ring
  buffer (\<^verbatim>\<open>ByteChannel\<close>); one goroutine connects and writes the slots to the connection, another
  takes the responses, acknowledges slots and rewinds the buffer when a connection is lost. The
  server verifies the client's certificate, whose key ID lists the buckets the client may write to,
  reads entries off the connection, checks their bucket, decodes them, gives them to a processor
  and answers each of them. The package \<^verbatim>\<open>auth\<close> creates certificates, signing requests and keys.

  \<^bold>\<open>The theories,\<close> in the order of the program, and what they show.

  \<^item> \<^verbatim>\<open>Prelude\<close>: byte and slice types, positional reads and writes with the bounds checks of Go
    (\<open>None\<close> is a panic), big-endian integers, 16-bit positions.
  \<^item> \<^verbatim>\<open>Entry_Data\<close>, \<^verbatim>\<open>Entry_Encode\<close>, \<^verbatim>\<open>Entry_Decode\<close>, \<^verbatim>\<open>Entry_Reader\<close> (\<^verbatim>\<open>entry.go\<close>, \<^verbatim>\<open>entry_reader.go\<close>,
    \<^verbatim>\<open>entry_severity.go\<close>, \<^verbatim>\<open>errors.go\<close>): the struct with its fixed arrays, \<^verbatim>\<open>Encode\<close> and \<^verbatim>\<open>Decode\<close> level by
    level with the position of the decoder at its 16 bits, and the accessors. \<^verbatim>\<open>Entry_Wire\<close> gives the
    format as a function of the entry and the round trip; \<^verbatim>\<open>Entry_Safety\<close> the bounds of the encoder,
    the shape of what is decoded from arbitrary bytes, and the inputs on which either fails.
  \<^item> \<^verbatim>\<open>Utils\<close>, \<^verbatim>\<open>Entry_Build\<close> (\<^verbatim>\<open>utils.go\<close>, the setters of \<^verbatim>\<open>entry.go\<close>): text of values, tags taken from
    an error's text, every setter, and \<^verbatim>\<open>String\<close> with its 8-bit index against a recursive rendering.
  \<^item> \<^verbatim>\<open>Sync_Pool\<close>: \<^verbatim>\<open>sync.Pool\<close> with its choice as an argument, and the locale \<open>object_pool\<close> that its
    three users (entries, loggers, server connections) interpret.
  \<^item> \<^verbatim>\<open>Logger\<close>, \<^verbatim>\<open>Logger_Spec\<close> (\<^verbatim>\<open>logger.go\<close>, \<^verbatim>\<open>pool.go\<close>, \<^verbatim>\<open>entry_pool.go\<close>): loggers in a store by address; what
    a logged entry holds, that a child does not share its parent's context, that no call panics.
  \<^item> \<^verbatim>\<open>Byte_Channel\<close>, \<^verbatim>\<open>Channel_Spec\<close> (\<^verbatim>\<open>internal/channel/byte_channel.go\<close>): the ring buffer over one byte
    array; a locale \<open>ack_queue\<close> for the queue with acknowledgements and the refinement of it by
    every operation; what no interleaving of the operations loses; which operations wake whom.
  \<^item> \<^verbatim>\<open>Server_Conn\<close>, \<^verbatim>\<open>Tls_Server\<close>, \<^verbatim>\<open>Tls_Accept\<close> (\<^verbatim>\<open>peer/tls_server_conn.go\<close>, \<^verbatim>\<open>peer/tls_server.go\<close>): one
    connection from handshake to release, and the accepting loop with the goroutines of all
    connections as steps on one pool of connection objects. Connections behave as if they were
    alone, and a client reaches only the buckets of its certificate.
  \<^item> \<^verbatim>\<open>Auth\<close>, \<^verbatim>\<open>Auth_Tls\<close> (\<^verbatim>\<open>auth/\<close>): certificates from options and signing requests, validation, PEM,
    files, and the values for \<^verbatim>\<open>crypto/tls\<close>. A certificate is accepted for what it was created for.
  \<^item> \<^verbatim>\<open>Tls_Client\<close>, \<^verbatim>\<open>Client_Spec\<close>, \<^verbatim>\<open>Client_Runs\<close> (\<^verbatim>\<open>peer/tls_client.go\<close>): the client's goroutines as program
    counters over the channel and the connection pointer, their invariant, what it gives in every
    interleaving, and runs that lose an entry or crash. \<^verbatim>\<open>Client_Progress\<close>: the client can always get
    rid of what it holds while its sender runs, and can not when a graceful close has ended the
    sender before a connection is lost. \<^verbatim>\<open>Peers\<close>: the dialer against the server.
  \<^item> \<^verbatim>\<open>Peripherals\<close> (\<^verbatim>\<open>peer/entry_echoer.go\<close>, \<^verbatim>\<open>dummy.go\<close>, \<^verbatim>\<open>peer/peer_utils.go\<close>, \<^verbatim>\<open>logerror/\<close>, \<^verbatim>\<open>debug/\<close>).
  \<^item> \<^verbatim>\<open>Example_Certs\<close> (\<^verbatim>\<open>example3/certs.go\<close>, \<^verbatim>\<open>example3/perm.go\<close>): the six files of keys and certificates,
    loaded or created; a second run loads what the first made, keys stay private, and a locale
    \<open>file_item\<close> for what loading a key and loading a certificate share. \<^verbatim>\<open>Example_Programs\<close>
    (\<^verbatim>\<open>example4/server\<close>, \<^verbatim>\<open>example4/client\<close>, \<^verbatim>\<open>example3/format_entry.go\<close>): the server and the client made from
    these certificates, the entries they exchange, and the printing of an entry.
  \<^item> This theory: the composition of client, network and server, for the library and for the two
    example programs.

  \<^bold>\<open>Conventions.\<close> A Go string is a list of bytes. A function that can panic returns an option, with
  \<open>None\<close> for the panic; errors are values of sum or option types. Goroutines that share state are
  events of a run (\<open>client_exec\<close>, \<open>server_exec\<close>, the operations of the channel): a list of events is
  an interleaving, and theorems quantify over all of them. A call that blocks is the value \<open>Blocked\<close>
  and leaves the state as it is. Histories (what was accepted, acknowledged, delivered, written) are
  fields of the state that no operation reads.

  \<^bold>\<open>Bounds and fuel.\<close> Only \<^verbatim>\<open>String\<close> has fuel: 256 rounds are enough for every message of at most 255
  bytes, which is proved, and for longer messages no fuel is. The loop of a server connection
  terminates since every round consumes input. The dials of \<^verbatim>\<open>retryConnect\<close> and the outcomes of the
  writes of one entry are finite lists: a list that is used up is a loop that has not ended, or a
  write that succeeds. Words have the width of the source, and sizes of buffers are those of the code.

  \<^bold>\<open>Parameters.\<close> \<^verbatim>\<open>xid\<close> (IDs from bytes and time), \<^verbatim>\<open>crypto/x509\<close>, \<^verbatim>\<open>ed25519\<close>, \<^verbatim>\<open>encoding/pem\<close> and
  \<^verbatim>\<open>uuid\<close> (records \<open>crypto\<close> and \<open>pem_codec\<close>, with the round trips they document as hypotheses), the
  choices of \<^verbatim>\<open>sync.Pool\<close>, the entry processor, the callers reported by \<^verbatim>\<open>runtime\<close>, the host name, the
  results of the operating system for files and their attributes, of sockets and of TLS handshakes.

  \<^bold>\<open>Not modelled.\<close> \<^verbatim>\<open>example/example.go\<close>, \<^verbatim>\<open>example2\<close>, and the client and server of \<^verbatim>\<open>example3\<close>,
  which pass arguments and options that the library does not have at this commit; the copies of
  \<^verbatim>\<open>certs.go\<close>, \<^verbatim>\<open>perm.go\<close> and \<^verbatim>\<open>format_entry.go\<close> in other packages, which differ in nothing that is
  modelled; the \<^verbatim>\<open>main\<close> functions with their signals, exit codes and log lines; tests and benchmarks; the interface declarations of \<^verbatim>\<open>interfaces.go\<close>; clocks, time-outs and back-off durations,
  of which only the resulting event is; the text of the server's log messages; data races, since
  every access to shared state is under a mutex or atomic in the source; the inside of \<^verbatim>\<open>crypto/tls\<close>.
\<close>

section \<open>From the client's buffer to the server's processor\<close>

lemma carried_entries:
  assumes "carries whole A fs w" "\<forall>x\<in>A. \<exists>e\<in>P. frame x = wire_bytes e"
  obtains es p where "set es \<subseteq> P" "w = concat (map wire_bytes es) @ p"
    "p = [] \<or> (\<exists>e\<in>P. strict_prefix p (wire_bytes e))" "set fs \<subseteq> wire_bytes ` set es"
proof -
  have "set fs \<subseteq> wire_bytes ` P" using assms by (force simp: carries_def)
  then have "fs \<in> map wire_bytes ` lists P" by (auto simp: in_lists_conv_set simp flip: lists_image)
  then obtain es where es: "set es \<subseteq> P" "fs = map wire_bytes es" by auto
  obtain p where p: "w = concat fs @ p" "p = [] \<or> (\<exists>x\<in>A. prefix p (frame x))" using assms(1) by (auto simp: carries_def)
  show thesis
  proof (cases "\<exists>e\<in>P. p = wire_bytes e")
    case True
    then obtain e where "e \<in> P" "p = wire_bytes e" by blast
    with es p(1) show thesis by (intro that [of "es @ [e]" "[]"]) auto
  next
    case False
    with p(2) assms(2) have "p = [] \<or> (\<exists>e\<in>P. strict_prefix p (wire_bytes e))" by (metis strict_prefix_def)
    with es p(1) show thesis by (intro that [of es p]) auto
  qed
qed

lemma accepted_entries:
  assumes "NewTlsClient cr crt key op = Some (Inr c0)" "list_all event_ok evs" "client_run evs c0 = Some c"
    "\<forall>e. Produce e \<in> set evs \<longrightarrow> deliverable cert e \<and> metric_sync e" "x \<in> set (accepted c)"
  shows "\<exists>e\<in>{e. Produce e \<in> set evs}. frame x = wire_bytes e"
proof -
  have c0: "client_ok c0" "accepted c0 = []" using new_client_ok [OF assms(1)] by simp_all
  obtain e b n where e: "Produce e \<in> set evs" "length b = MaxEntrySize" "Entry_Encode e b = Some (x, n)"
    using run_accepted [OF c0(1) assms(2,3,5)] c0(2) by auto
  then have "enc_ready e" "length (wire_bytes e) \<le> MaxEntrySize"
    using assms(4) enc_ready_of_wire by (auto simp: deliverable_def)
  then have "frame x = wire_bytes e"
    using encoded_slot(2) [OF e(3,2)] Encode_wire [of e b] e(2,3) by auto
  with e(1) show ?thesis by blast
qed

lemma entries_processed:
  assumes "NewTlsClient cr crt key op = Some (Inr c0)" and "list_all event_ok evs" and "client_run evs c0 = Some c"
    and "\<forall>e. Produce e \<in> set evs \<longrightarrow> deliverable cert e \<and> metric_sync e"
    and "VerifyConnection auth (Some (Some cert # rest)) = Some None" and "pred_option slice_ok (SubjectKeyId cert)"
    and "env_ok env" and "process env = (\<lambda>_. None)"
    and "list_all conn_clean pool" and "pool_get pick pool = (got, pool')"
  shows "\<exists>ES. list_all2 (\<lambda>es w. \<exists>rep ds. handleConnection env nc t got None
        \<lparr>PeerCertificates = Some (Some cert # rest), NegotiatedProtocol = proto, stream = w, stream_end = fin\<rparr> = Some (Inr rep) \<and>
      delivered (rep_conn rep) = delivered (case got of Some v \<Rightarrow> v | None \<Rightarrow> new_conn nc) @ ds \<and>
      list_all2 same_content es ds) ES (wires (cnet c)) \<and>
    (\<forall>e\<in>set (concat ES). Produce e \<in> set evs) \<and>
    (\<forall>x\<in>set (acked c @ sent (ch c)). \<exists>e\<in>set (concat ES). frame x = wire_bytes e)"
proof -
  let ?P = "{e. Produce e \<in> set evs}"
  let ?st = "\<lambda>w. \<lparr>PeerCertificates = Some (Some cert # rest), NegotiatedProtocol = proto, stream = w, stream_end = fin\<rparr>"
  let ?served = "\<lambda>es w. \<exists>rep ds. handleConnection env nc t got None (?st w) = Some (Inr rep) \<and>
      delivered (rep_conn rep) = delivered (case got of Some v \<Rightarrow> v | None \<Rightarrow> new_conn nc) @ ds \<and> list_all2 same_content es ds"
  have A: "\<forall>x\<in>set (accepted c). \<exists>e\<in>?P. frame x = wire_bytes e"
    using accepted_entries [OF assms(1-4)] by blast
  have "client_ok c" using run_ok [OF new_client_ok(1) [OF assms(1)] assms(2,3)] .
  then obtain F failed where F: "wires_ok failed (set (accepted c)) (cnet c) F" "frame ` set (acked c @ sent (ch c)) \<subseteq> set (concat F)"
    by (auto simp: client_ok_def)
  have "\<exists>es. set es \<subseteq> ?P \<and> ?served es w \<and> set fs \<subseteq> wire_bytes ` set es" if cr: "carries whole (set (accepted c)) fs w" for whole fs w
  proof -
    obtain es p where es: "set es \<subseteq> ?P" "w = concat (map wire_bytes es) @ p" "p = [] \<or> (\<exists>e\<in>?P. strict_prefix p (wire_bytes e))"
      "set fs \<subseteq> wire_bytes ` set es" using carried_entries [OF cr A] by blast
    have "?served es w"
      by (rule serve_stream [where p = p and auth = auth and pool = pool and pick = pick and pool' = pool', OF _ _ assms(6-10)])
        (use assms(4,5) es(1-3) in auto)
    with es show ?thesis by blast
  qed
  then have "\<forall>k<length F. \<exists>es. set es \<subseteq> ?P \<and> ?served es (wires (cnet c) ! k) \<and> set (F ! k) \<subseteq> wire_bytes ` set es"
    using F(1) unfolding wires_ok_def by blast
  then obtain g where g: "\<forall>k<length F. set (g k) \<subseteq> ?P \<and> ?served (g k) (wires (cnet c) ! k) \<and> set (F ! k) \<subseteq> wire_bytes ` set (g k)"
    by metis
  let ?ES = "map g [0..<length F]"
  have "list_all2 ?served ?ES (wires (cnet c))" using F(1) g by (simp add: list_all2_conv_all_nth wires_ok_def)
  moreover have "\<forall>e\<in>set (concat ?ES). Produce e \<in> set evs" using g by force
  moreover have "\<exists>e\<in>set (concat ?ES). frame x = wire_bytes e" if "x \<in> set (acked c @ sent (ch c))" for x
  proof -
    have "frame x \<in> set (concat F)" using F(2) that by blast
    then obtain fs where "fs \<in> set F" "frame x \<in> set fs" by auto
    then obtain k where k: "k < length F" "frame x \<in> set (F ! k)" by (auto simp: in_set_conv_nth)
    with g have "frame x \<in> wire_bytes ` set (g k)" by blast
    with k(1) show ?thesis by auto
  qed
  ultimately show ?thesis by blast
qed


lemma one_entry_sent:
  "\<exists>c0 c. NewTlsClient demo_crypto (Some [1]) [5] small_client = Some (Inr c0) \<and>
    client_run [Produce sample_entry, go, go, go] c0 = Some c \<and> wires (cnet c) = [wire_bytes sample_entry]"
proof -
  let ?v = "new_view (BufferSize (Client_setDefaults small_client))"
  obtain c0 where c0: "NewTlsClient demo_crypto (Some [1]) [5] small_client = Some (Inr c0)" using small_client_new by blast
  from move_produce [OF new_client_at [OF c0] sample_sendable] small_client_size obtain x c1 where c1: "client_exec (Produce sample_entry) c0 = Some c1"
    "client_at (?v\<lparr>v_pend := [x]\<rparr>) c1" "frame x = wire_bytes sample_entry" by (auto simp: moves_def)
  from move_wait [OF c1(2)] obtain c2 where c2: "client_exec go c1 = Some c2" "client_at (?v\<lparr>v_pend := [x], v_sender := SConnect\<rparr>) c2"
    by (auto simp: moves_def)
  from move_connect [OF c2(2)] obtain c3 where c3: "client_exec go c2 = Some c3"
    "client_at (?v\<lparr>v_pend := [x], v_sender := SRead, v_conn := Some 0, v_wires := [[]]\<rparr>) c3" by (auto simp: moves_def)
  from move_write(1) [OF c3(2), of x "[]" 0] obtain c4 where "client_exec go c3 = Some c4" "wires (cnet c4) = [frame x]"
    by (auto simp: moves_def client_at_def view_def)
  with c0 c1 c2(1) c3(1) show ?thesis by auto
qed


section \<open>The example programs\<close>

lemma example_run_delivers:
  assumes "NewTlsClient cr crt key op = Some (Inr cl)" "list_all event_ok evs" "client_run evs cl = Some cl'"
    "\<forall>e. Produce e \<in> set evs \<longrightarrow> e \<in> set es" "list_all2 example_entry is es" "cert_buckets cert = {123}"
    "VerifyConnection None (Some [Some cert]) = Some None" "pred_option slice_ok (SubjectKeyId cert)" "env_ok env" "process env = (\<lambda>_. None)"
  shows "\<exists>ES. list_all2 (\<lambda>es w. \<exists>rep ds. handleConnection env False t None None
        \<lparr>PeerCertificates = Some [Some cert], NegotiatedProtocol = proto, stream = w, stream_end = fin\<rparr> = Some (Inr rep) \<and>
      delivered (rep_conn rep) = ds \<and> list_all2 same_content es ds) ES (wires (cnet cl')) \<and> set (concat ES) \<subseteq> set es \<and>
    (\<forall>x\<in>set (acked cl' @ sent (ch cl')). \<exists>e\<in>set (concat ES). frame x = wire_bytes e)"
proof -
  have "\<forall>e. Produce e \<in> set evs \<longrightarrow> deliverable cert e \<and> metric_sync e"
  proof (intro allI impI)
    fix e
    assume "Produce e \<in> set evs"
    then obtain i where "example_entry i e" using assms(4,5) by (fastforce simp: list_all2_conv_all_nth in_set_conv_nth)
    then show "deliverable cert e \<and> metric_sync e" using example_deliverable assms(6) by blast
  qed
  moreover have "delivered (new_conn False) = []" by (simp add: new_conn_def fresh_conn_def)
  ultimately show ?thesis
    using entries_processed [OF assms(1-3) _ assms(7-10), of "[]" None None "[]" False t proto fin] assms(4) by (auto simp: pool_get_def)
qed

text \<open>
  C3: the example programs do what they show. Started on a directory without certificates, the
  server starts and so does the client, which logs "msg 1" to "msg 500" unless it is interrupted;
  and whatever the network does and however the client's goroutines interleave, the server hands its
  processor, for each connection, a sequence of exactly such entries with their content, and every
  entry that the client has given up after a response is among them.
\<close>

theorem example_programs_deliver:
  assumes "LoadOrCreate pc os gen (\<lambda>k. cr\<lparr>newRandom := Inr (ids k)\<rparr>) dir domain c st = Some (c', st', None)" and "x509_roundtrip cr"
    and "length (ids 2) = 16" and "os_info st (path_Join dir (lit ''root.pem'')) = None"
    and "os_info st (path_Join dir (lit ''server.pem'')) = None" and "os_info st (path_Join dir (lit ''client.pem'')) = None"
    and "\<forall>i. length (newId i) = 12" and "env_ok env" and "process env = (\<lambda>_. None)"
  shows "\<exists>s cl p stopped cert. example_startServer cr None c' = Some (Inr s) \<and>
    example_startClient cr newId pick interrupted c' = Some (Inr (cl, p, stopped)) \<and>
    (\<exists>n\<le>500. map message (processed p) = map client_message [0..<n] \<and> (n = 500 \<or> stopped \<and> (\<exists>i<500. interrupted i))) \<and>
    Certificate_X509 cr (ClientCert c') = Inr cert \<and>
    (\<forall>evs cl'. list_all event_ok evs \<longrightarrow> client_run evs cl = Some cl' \<longrightarrow> (\<forall>e. Produce e \<in> set evs \<longrightarrow> e \<in> set (processed p)) \<longrightarrow>
      (\<exists>ES. list_all2 (\<lambda>es w. \<exists>rep ds. handleConnection env False t None None
          \<lparr>PeerCertificates = Some [Some (x509_cert.truncate cert)], NegotiatedProtocol = proto, stream = w, stream_end = fin\<rparr> = Some (Inr rep) \<and>
        delivered (rep_conn rep) = ds \<and> list_all2 same_content es ds) ES (wires (cnet cl')) \<and> set (concat ES) \<subseteq> set (processed p) \<and>
      (\<forall>x\<in>set (acked cl' @ sent (ch cl')). \<exists>e\<in>set (concat ES). frame x = wire_bytes e)))"
proof -
  from certs_created [OF assms(1-6)] obtain cert where
    c: "Certificate_Type cr (ServerCert c') = Server" "Certificate_Validate cr (ServerCert c') (ServerKey c') = None"
      "Certificate_Type cr (ClientCert c') = Client" "Certificate_Validate cr (ClientCert c') (ClientKey c') = None"
      "Certificate_X509 cr (ClientCert c') = Inr cert" "VerifyConnection None (Some [Some (x509_cert.truncate cert)]) = Some None"
      "cert_buckets (x509_cert.truncate cert) = {123}" "pred_option slice_ok (SubjectKeyId (x509_cert.truncate cert))"
    by (auto simp: x509_cert.truncate_def)
  obtain s where s: "example_startServer cr None c' = Some (Inr s)" using example_server_starts [OF c(2,1)] by blast
  from example_client_logs [OF c(4,3) assms(7), of pick interrupted] obtain cl p stopped where
    p: "example_startClient cr newId pick interrupted c' = Some (Inr (cl, p, stopped))"
      "NewTlsClient cr (ClientCert c') (ClientKey c') example_client = Some (Inr cl)"
      "list_all2 example_entry (take (length (processed p)) [0..<500]) (processed p)" "\<not> stopped \<longrightarrow> length (processed p) = 500"
      "stopped \<longrightarrow> (\<exists>i<500. interrupted i)" by blast
  have n: "length (processed p) \<le> 500" using list_all2_lengthD [OF p(3)] by simp
  then have "list_all2 example_entry [0..<length (processed p)] (processed p)" using p(3) by (simp add: take_upt)
  then have "map message (processed p) = map client_message [0..<length (processed p)]"
    by (intro nth_equalityI) (auto simp: list_all2_conv_all_nth example_entry_def)
  with n p(4,5) have "\<exists>n\<le>500. map message (processed p) = map client_message [0..<n] \<and> (n = 500 \<or> stopped \<and> (\<exists>i<500. interrupted i))" by blast
  with s p(1) c(5) example_run_delivers [OF p(2) _ _ _ p(3) c(7,6,8) assms(8,9)] show ?thesis by blast
qed

theorem example_programs_deliver_witness:
  "\<exists>s cl p stopped. example_startServer authority None demo_certs = Some (Inr s) \<and>
    example_startClient authority (\<lambda>_. replicate 12 1) (\<lambda>_. None) (\<lambda>i. 3 \<le> i) demo_certs = Some (Inr (cl, p, stopped)) \<and>
    (\<exists>n\<le>500. map message (processed p) = map client_message [0..<n] \<and> (n = 500 \<or> stopped))"
proof -
  obtain st' where run: "LoadOrCreate plain_codec quiet_env demo_keys (\<lambda>k. authority\<lparr>newRandom := Inr (replicate 16 1)\<rparr>) (lit ''../certs'') (lit ''localhost'') no_certs
     \<lparr>os_files = Map.empty, os_info = Map.empty\<rparr> = Some (demo_certs, st', None)" using demo_run by blast
  have e: "process demo_env = (\<lambda>_. None)" by (simp add: demo_env_def)
  have "length (replicate 16 (1 :: byte)) = 16" "\<forall>i::nat. length (replicate 12 (1 :: byte)) = 12"
    "os_info \<lparr>os_files = Map.empty, os_info = Map.empty\<rparr> x = None" for x by simp_all
  from example_programs_deliver [OF run authority_roundtrip this(1,3,3,3,2) demo_env_ok e, where interrupted = "\<lambda>i. 3 \<le> i" and pick = "\<lambda>_. None"]
  show ?thesis by blast
qed

end
